(* ===== verification/MB_Prelude.thy ===== *)
theory MB_Prelude
  imports Main "HOL-Library.Multiset" "HOL-Library.Char_ord" "HOL-Library.List_Lexorder"
begin

text \<open>
  What every component shares: the collections of rewrite rules, Go's fixed-width integers,
  clock values, the error values that travel through the handlers, the functions of Go's
  standard packages \<^verbatim>\<open>strings\<close> and \<^verbatim>\<open>sort\<close> that the sources call, and the generic list and
  map lemmas of the component proofs.

  Go's \<^verbatim>\<open>int\<close> and \<^verbatim>\<open>int64\<close> are \<open>int\<close> with the wrap-around of each arithmetic operation written
  out as \<open>wrap64\<close>; \<^verbatim>\<open>int32\<close> conversions are \<open>wrap32\<close>. A \<^verbatim>\<open>time.Time\<close> is its number of
  nanoseconds, and so is a \<^verbatim>\<open>time.Duration\<close>. A Go \<^verbatim>\<open>map[string]string\<close> is an association list
  with distinct keys, whose order stands for the (unspecified) order in which a \<^verbatim>\<open>range\<close> loop
  visits it.
\<close>

named_theorems go_arith \<open>rewrite rules for the wrap-around arithmetic\<close>
named_theorems task_frame \<open>fields an operation on a task leaves alone\<close>
named_theorems sched_frame \<open>parts of the scheduler an operation leaves alone\<close>

section \<open>Integers\<close>

definition wrap64 :: "int \<Rightarrow> int" where
  "wrap64 x = (x + 2 ^ 63) mod 2 ^ 64 - 2 ^ 63"

definition wrap32 :: "int \<Rightarrow> int" where
  "wrap32 x = (x + 2 ^ 31) mod 2 ^ 32 - 2 ^ 31"

definition int64_range :: "int \<Rightarrow> bool" where
  "int64_range x \<longleftrightarrow> - (2 ^ 63) \<le> x \<and> x < 2 ^ 63"

text \<open>The shift \<open>x << n\<close> of Go at 64 bits. A negative count panics: \<open>None\<close>.\<close>

definition shl64 :: "int \<Rightarrow> int \<Rightarrow> int option" where
  "shl64 x n = (if n < 0 then None else Some (wrap64 (x * 2 ^ nat n)))"

lemma wrap64_id [go_arith]: "int64_range x \<Longrightarrow> wrap64 x = x"
  by (simp add: wrap64_def int64_range_def)

lemma int64_range_wrap64 [simp]: "int64_range (wrap64 x)"
proof -
  have "0 \<le> (x + 2 ^ 63) mod 2 ^ 64" "(x + 2 ^ 63) mod 2 ^ 64 < (2::int) ^ 64"
    by (rule pos_mod_sign, simp) (rule pos_mod_bound, simp)
  then show ?thesis unfolding wrap64_def int64_range_def by simp
qed

lemma wrap32_id [go_arith]: "- (2 ^ 31) \<le> x \<Longrightarrow> x < 2 ^ 31 \<Longrightarrow> wrap32 x = x"
  by (simp add: wrap32_def)

lemma int64_range_diff:
  "int64_range a \<Longrightarrow> 0 \<le> b \<Longrightarrow> b \<le> a \<Longrightarrow> int64_range (a - b)"
  by (simp add: int64_range_def)

lemma int64_range_0 [simp]: "int64_range 0"
  by (simp add: int64_range_def)

section \<open>Clock values\<close>

type_synonym go_time = int
type_synonym duration = int

definition Millisecond :: duration where "Millisecond = 1000000"
definition Second :: duration where "Second = 1000000000"
definition Minute :: duration where "Minute = 60 * Second"

text \<open>\<^verbatim>\<open>Time.Unix\<close>.\<close>

definition Unix :: "go_time \<Rightarrow> int" where
  "Unix now = now div Second"

section \<open>Error values\<close>

text \<open>
  A Go \<^verbatim>\<open>error\<close>. \<open>ErrOther\<close> is an error of a driver or of the operating system with its text,
  \<open>ErrWrap p e\<close> is \<^verbatim>\<open>fmt.Errorf("p: %w", e)\<close>, \<open>ErrExit c s\<close> the \<^verbatim>\<open>*exec.ExitError\<close> of a child with
  exit code \<open>c\<close> and the description \<open>s\<close> of its end; the rest are the errors the sources name or
  compare with. A function that returns \<^verbatim>\<open>(T, error)\<close> has a result of type \<open>error + T\<close>, one that
  returns only an \<^verbatim>\<open>error\<close> has a result of type \<open>error option\<close> (\<open>None\<close> for \<^verbatim>\<open>nil\<close>).
\<close>

datatype error =
    ErrOther string
  | ErrWrap string error
  | ErrTaskNotFound
  | ErrNoRows
  | ErrRedisNil
  | ErrInvalidTransition string string
  | ErrAlreadyTerminal
  | ErrDuplicateTask string
  | ErrNoNodeMatching
  | ErrNoNodeResources
  | ErrDeadlineExceeded
  | ErrCanceled
  | ErrExit int string
  | ErrRemote string

type_synonym 'a result = "error + 'a"

section \<open>Strings\<close>

definition HasPrefix :: "string \<Rightarrow> string \<Rightarrow> bool" where
  "HasPrefix s p \<longleftrightarrow> take (length p) s = p"

definition HasSuffix :: "string \<Rightarrow> string \<Rightarrow> bool" where
  "HasSuffix s p \<longleftrightarrow> length p \<le> length s \<and> drop (length s - length p) s = p"

definition TrimPrefix :: "string \<Rightarrow> string \<Rightarrow> string" where
  "TrimPrefix s p = (if HasPrefix s p then drop (length p) s else s)"

text \<open>\<^verbatim>\<open>strings.SplitN(s, c, 2)\<close> and \<^verbatim>\<open>strings.Split(s, c)\<close> for a one-character separator.\<close>

fun SplitN2 :: "char \<Rightarrow> string \<Rightarrow> string list" where
  "SplitN2 c [] = [[]]"
| "SplitN2 c (x # xs) =
     (if x = c then [[], xs]
      else (case SplitN2 c xs of [] \<Rightarrow> [[x]] | y # ys \<Rightarrow> (x # y) # ys))"

fun Split :: "char \<Rightarrow> string \<Rightarrow> string list" where
  "Split c [] = [[]]"
| "Split c (x # xs) =
     (if x = c then [] # Split c xs
      else (case Split c xs of [] \<Rightarrow> [[x]] | y # ys \<Rightarrow> (x # y) # ys))"

lemma TrimPrefix_append [simp]: "TrimPrefix (p @ s) p = s"
  by (simp add: TrimPrefix_def HasPrefix_def)

lemma HasPrefix_append [simp]: "HasPrefix (p @ s) p"
  by (simp add: HasPrefix_def)

lemma SplitN2_cases:
  "SplitN2 c s = (if c \<in> set s
     then [takeWhile (\<lambda>x. x \<noteq> c) s, tl (dropWhile (\<lambda>x. x \<noteq> c) s)] else [s])"
  by (induction s) auto

lemma Split_not_Nil [simp]: "Split c s \<noteq> []"
  by (cases s) (auto split: list.splits)

lemma hd_Split: "hd (Split c s) = takeWhile (\<lambda>x. x \<noteq> c) s"
  by (induction s) (auto split: list.splits)

lemma SplitN2_two:
  "SplitN2 c s = [k, v] \<longleftrightarrow> s = k @ c # v \<and> c \<notin> set k"
proof
  assume A: "SplitN2 c s = [k, v]"
  then have "c \<in> set s" by (auto simp: SplitN2_cases split: if_splits)
  then have "dropWhile (\<lambda>x. x \<noteq> c) s = c # tl (dropWhile (\<lambda>x. x \<noteq> c) s)"
    by (metis (mono_tags, lifting) dropWhile_eq_Nil_conv hd_dropWhile list.exhaust_sel)
  moreover from A have k: "k = takeWhile (\<lambda>x. x \<noteq> c) s"
    and "v = tl (dropWhile (\<lambda>x. x \<noteq> c) s)"
    by (auto simp: SplitN2_cases split: if_splits)
  ultimately have "s = k @ c # v" by (metis takeWhile_dropWhile_id)
  moreover have "c \<notin> set k" unfolding k by (auto dest: set_takeWhileD)
  ultimately show "s = k @ c # v \<and> c \<notin> set k" by simp
next
  assume "s = k @ c # v \<and> c \<notin> set k"
  then have s: "s = k @ c # v" and "\<forall>x \<in> set k. x \<noteq> c" by auto
  then have "takeWhile (\<lambda>x. x \<noteq> c) s = k" and "dropWhile (\<lambda>x. x \<noteq> c) s = c # v"
    by (simp_all add: takeWhile_append dropWhile_append)
  then show "SplitN2 c s = [k, v]" by (simp add: SplitN2_cases s)
qed

section \<open>Maps as association lists\<close>

type_synonym string_map = "(string \<times> string) list"

definition wf_map :: "('k \<times> 'v) list \<Rightarrow> bool" where
  "wf_map m \<longleftrightarrow> distinct (map fst m)"

lemma sorted_keys_unique:
  assumes "wf_map m" and "wf_map m'" and "map_of m = map_of m'"
  shows "sort (map fst m) = sort (map (fst :: _ \<Rightarrow> 'k::linorder) m')"
proof -
  have "set (map fst m) = set (map fst m')"
    using assms(3) by (metis dom_map_of_conv_image_fst list.set_map)
  with assms(1,2) have "mset (map fst m) = mset (map fst m')"
    unfolding wf_map_def by (metis set_eq_iff_mset_eq_distinct)
  then show ?thesis by (metis sorted_list_of_multiset_mset)
qed

section \<open>Lists\<close>

definition swap :: "'a list \<Rightarrow> nat \<Rightarrow> nat \<Rightarrow> 'a list" where
  "swap xs i j = xs[i := xs ! j, j := xs ! i]"

lemma length_swap [simp]: "length (swap xs i j) = length xs"
  by (simp add: swap_def)

lemma mset_swap_eq [simp]:
  "i < length xs \<Longrightarrow> j < length xs \<Longrightarrow> mset (swap xs i j) = mset xs"
  by (simp add: swap_def mset_swap)

lemma nth_swap:
  "i < length xs \<Longrightarrow> j < length xs \<Longrightarrow> k < length xs \<Longrightarrow>
   swap xs i j ! k = (if k = i then xs ! j else if k = j then xs ! i else xs ! k)"
  by (auto simp: swap_def nth_list_update)

end
