(* ===== verification/Sha256.thy ===== *)
theory Sha256
  imports MB_Prelude "HOL-Library.Word"
begin

text \<open>
  The hash of Go's \<^verbatim>\<open>crypto/sha256\<close> (FIPS 180-4) and the hexadecimal rendering \<^verbatim>\<open>%x\<close> of a byte
  slice, as far as \<^verbatim>\<open>model.Task.SetIdempotencyKey\<close> uses them. The lemmas give what the key
  computation relies on: a digest has 32 bytes, and its rendering has 64 lower-case
  hexadecimal characters.
\<close>

unbundle bit_operations_syntax

type_synonym u8 = "8 word"
type_synonym u32 = "32 word"

section \<open>The compression function\<close>

text \<open>
  The constants are the first 32 bits of the fractional parts of the cube roots of the first 64
  primes (the rounds) and of the square roots of the first eight (the initial state); they are
  computed here from that definition, bit by bit.
\<close>

fun root_bits :: "nat \<Rightarrow> nat \<Rightarrow> nat \<Rightarrow> nat \<Rightarrow> nat" where
  "root_bits k n 0 r = r"
| "root_bits k n (Suc b) r = root_bits k n b (if (r + 2 ^ b) ^ k \<le> n then r + 2 ^ b else r)"

definition root_fraction :: "nat \<Rightarrow> nat \<Rightarrow> u32" where
  "root_fraction k p = word_of_nat (root_bits k (p * 2 ^ (32 * k)) 37 0)"

definition primes_upto :: "nat \<Rightarrow> nat list" where
  "primes_upto n = filter (\<lambda>p. \<forall>d\<in>set [2..<p]. p mod d \<noteq> 0) [2..<Suc n]"

definition sha_k :: "u32 list" where
  "sha_k = map (root_fraction 3) (primes_upto 311)"

type_synonym sha_state = "u32 \<times> u32 \<times> u32 \<times> u32 \<times> u32 \<times> u32 \<times> u32 \<times> u32"

definition sha_init :: sha_state where
  "sha_init = (root_fraction 2 2, root_fraction 2 3, root_fraction 2 5, root_fraction 2 7,
               root_fraction 2 11, root_fraction 2 13, root_fraction 2 17, root_fraction 2 19)"

definition sigma0 :: "u32 \<Rightarrow> u32" where
  "sigma0 x = word_rotr 7 x XOR word_rotr 18 x XOR drop_bit 3 x"

definition sigma1 :: "u32 \<Rightarrow> u32" where
  "sigma1 x = word_rotr 17 x XOR word_rotr 19 x XOR drop_bit 10 x"

definition Sigma0 :: "u32 \<Rightarrow> u32" where
  "Sigma0 x = word_rotr 2 x XOR word_rotr 13 x XOR word_rotr 22 x"

definition Sigma1 :: "u32 \<Rightarrow> u32" where
  "Sigma1 x = word_rotr 6 x XOR word_rotr 11 x XOR word_rotr 25 x"

fun sha_schedule :: "nat \<Rightarrow> u32 list \<Rightarrow> u32 list" where
  "sha_schedule 0 ws = ws"
| "sha_schedule (Suc k) ws =
     (let t = length ws
      in sha_schedule k (ws @ [sigma1 (ws ! (t - 2)) + ws ! (t - 7)
                               + sigma0 (ws ! (t - 15)) + ws ! (t - 16)]))"

fun sha_round :: "sha_state \<Rightarrow> u32 \<times> u32 \<Rightarrow> sha_state" where
  "sha_round (a, b, c, d, e, f, g, h) (k, w) =
     (let t1 = h + Sigma1 e + ((e AND f) XOR (NOT e AND g)) + k + w;
          t2 = Sigma0 a + ((a AND b) XOR (a AND c) XOR (b AND c))
      in (t1 + t2, a, b, c, d + t1, e, f, g))"

fun sha_add :: "sha_state \<Rightarrow> sha_state \<Rightarrow> sha_state" where
  "sha_add (a, b, c, d, e, f, g, h) (a', b', c', d', e', f', g', h') =
     (a + a', b + b', c + c', d + d', e + e', f + f', g + g', h + h')"

definition sha_block :: "sha_state \<Rightarrow> u32 list \<Rightarrow> sha_state" where
  "sha_block s ws = sha_add s (foldl sha_round s (zip sha_k (sha_schedule 48 ws)))"

section \<open>Padding and digest\<close>

definition be64 :: "nat \<Rightarrow> u8 list" where
  "be64 n = map (\<lambda>i. word_of_nat (n div 256 ^ i)) [7, 6, 5, 4, 3, 2, 1, 0]"

definition sha_pad :: "u8 list \<Rightarrow> u8 list" where
  "sha_pad m = (let n = length m
     in m @ [0x80] @ replicate ((119 - n mod 64) mod 64) 0 @ be64 (8 * n))"

fun be_words :: "u8 list \<Rightarrow> u32 list" where
  "be_words (a # b # c # d # xs) =
     (push_bit 24 (ucast a) OR push_bit 16 (ucast b) OR push_bit 8 (ucast c) OR ucast d)
     # be_words xs"
| "be_words xs = []"

function sha_blocks :: "sha_state \<Rightarrow> u32 list \<Rightarrow> sha_state" where
  "sha_blocks s ws =
     (if ws = [] then s else sha_blocks (sha_block s (take 16 ws)) (drop 16 ws))"
  by pat_completeness auto
termination
  by (relation "measure (\<lambda>(s, ws). length ws)") auto

declare sha_blocks.simps [simp del]

definition word_bytes :: "u32 \<Rightarrow> u8 list" where
  "word_bytes w = map (\<lambda>n. ucast (drop_bit n w)) [24, 16, 8, 0]"

definition sha256 :: "u8 list \<Rightarrow> u8 list" where
  "sha256 m = (case sha_blocks sha_init (be_words (sha_pad m)) of
     (a, b, c, d, e, f, g, h) \<Rightarrow> concat (map word_bytes [a, b, c, d, e, f, g, h]))"

section \<open>Hexadecimal rendering\<close>

definition hex_digits :: string where
  "hex_digits = ''0123456789abcdef''"

definition hex_byte :: "u8 \<Rightarrow> string" where
  "hex_byte b = [hex_digits ! (unat b div 16), hex_digits ! (unat b mod 16)]"

definition hex :: "u8 list \<Rightarrow> string" where
  "hex bs = concat (map hex_byte bs)"

definition bytes :: "string \<Rightarrow> u8 list" where
  "bytes s = map of_char s"

section \<open>Shape of the rendering\<close>

lemma length_sha256 [simp]: "length (sha256 m) = 32"
  by (simp add: sha256_def word_bytes_def split: prod.split)

lemma length_hex [simp]: "length (hex bs) = 2 * length bs"
  by (induction bs) (simp_all add: hex_def hex_byte_def)

lemma set_hex: "set (hex bs) \<subseteq> set hex_digits"
proof -
  have "hex_digits ! (unat b div 16) \<in> set hex_digits" for b :: u8
  proof -
    have "unat b < 256" using unsigned_less [of b] by simp
    then have "unat b div 16 < 16" by simp
    then show ?thesis by (intro nth_mem) (simp add: hex_digits_def)
  qed
  moreover have "hex_digits ! (unat b mod 16) \<in> set hex_digits" for b :: u8
    by (rule nth_mem) (simp add: hex_digits_def)
  ultimately show ?thesis by (auto simp: hex_def hex_byte_def)
qed

lemma bytes_append [simp]: "bytes (s @ t) = bytes s @ bytes t"
  by (simp add: bytes_def)

end
