(* ===== verification/Task_Model.thy ===== *)
theory Task_Model
  imports Sha256
begin

text \<open>
  \<^verbatim>\<open>internal/model/task.go\<close>: the status type with its transition table, the task record, and the
  operations on a task. Pointers that may be \<^verbatim>\<open>nil\<close> are options. The UUID of a new task
  (\<^verbatim>\<open>github.com/google/uuid\<close>) and the clock reading are arguments.

  The lemmas: the transition table against an independent description of the life cycle,
  termination of every run of transitions, the fields \<open>TransitionTo\<close> leaves alone, and the shape
  and the order-independence of the idempotency key.
\<close>

section \<open>Status\<close>

text \<open>\<open>TaskStatusOther u\<close> is any string \<open>u\<close> other than the six constants (a value read back
  from the database, say).\<close>

datatype TaskStatus =
    TaskStatusCreated
  | TaskStatusPending
  | TaskStatusRunning
  | TaskStatusSuccess
  | TaskStatusFailed
  | TaskStatusCanceled
  | TaskStatusOther string

fun TaskStatus_String :: "TaskStatus \<Rightarrow> string" where
  "TaskStatus_String TaskStatusCreated = ''created''"
| "TaskStatus_String TaskStatusPending = ''pending''"
| "TaskStatus_String TaskStatusRunning = ''running''"
| "TaskStatus_String TaskStatusSuccess = ''success''"
| "TaskStatus_String TaskStatusFailed = ''failed''"
| "TaskStatus_String TaskStatusCanceled = ''canceled''"
| "TaskStatus_String (TaskStatusOther u) = u"

definition IsTerminal :: "TaskStatus \<Rightarrow> bool" where
  "IsTerminal s = (case s of
     TaskStatusSuccess \<Rightarrow> True
   | TaskStatusFailed \<Rightarrow> True
   | TaskStatusCanceled \<Rightarrow> True
   | _ \<Rightarrow> False)"

text \<open>The nested map of allowed transitions, \<open>None\<close> where a key is missing.\<close>

definition validTransitions :: "TaskStatus \<rightharpoonup> (TaskStatus \<rightharpoonup> bool)" where
  "validTransitions s = (case s of
     TaskStatusCreated \<Rightarrow>
       Some [TaskStatusPending \<mapsto> True, TaskStatusCanceled \<mapsto> True]
   | TaskStatusPending \<Rightarrow>
       Some [TaskStatusRunning \<mapsto> True, TaskStatusCanceled \<mapsto> True]
   | TaskStatusRunning \<Rightarrow>
       Some [TaskStatusSuccess \<mapsto> True, TaskStatusFailed \<mapsto> True, TaskStatusCanceled \<mapsto> True]
   | TaskStatusSuccess \<Rightarrow> Some Map.empty
   | TaskStatusFailed \<Rightarrow> Some Map.empty
   | TaskStatusCanceled \<Rightarrow> Some Map.empty
   | TaskStatusOther _ \<Rightarrow> None)"

section \<open>Tasks\<close>

record Task =
  tID :: int
  tTaskUID :: string
  tName :: string
  tCommand :: string
  tWorkdir :: string
  tEnv :: string_map
  tCPULimit :: int
  tMemoryLimit :: int
  tTimeoutSec :: int
  tPriority :: int
  tMaxRetries :: int
  tRetryCount :: int
  tRetryIntervalSec :: int
  tIdempotencyKey :: string
  tNodeSelector :: string_map
  tAssignedNodeID :: string
  tStatus :: TaskStatus
  tExitCode :: "int option"
  tStdout :: string
  tStderr :: string
  tErrorMessage :: string
  tPID :: "int option"
  tStartedAt :: "go_time option"
  tFinishedAt :: "go_time option"
  tCreatedAt :: go_time
  tUpdatedAt :: go_time

text \<open>The zero value of the struct, and the constructor over it.\<close>

definition zeroTask :: Task where
  "zeroTask = \<lparr>tID = 0, tTaskUID = [], tName = [], tCommand = [], tWorkdir = [], tEnv = [],
     tCPULimit = 0, tMemoryLimit = 0, tTimeoutSec = 0, tPriority = 0, tMaxRetries = 0,
     tRetryCount = 0, tRetryIntervalSec = 0, tIdempotencyKey = [], tNodeSelector = [],
     tAssignedNodeID = [], tStatus = TaskStatusOther [], tExitCode = None, tStdout = [],
     tStderr = [], tErrorMessage = [], tPID = None, tStartedAt = None, tFinishedAt = None,
     tCreatedAt = 0, tUpdatedAt = 0\<rparr>"

definition NewTask :: "string \<Rightarrow> go_time \<Rightarrow> string \<Rightarrow> string \<Rightarrow> Task" where
  "NewTask uuid now name command = zeroTask\<lparr>
     tTaskUID := uuid,
     tName := name,
     tCommand := command,
     tWorkdir := ''/tmp'',
     tEnv := [],
     tNodeSelector := [],
     tTimeoutSec := 300,
     tMaxRetries := 3,
     tRetryIntervalSec := 1,
     tStatus := TaskStatusCreated,
     tCreatedAt := now,
     tUpdatedAt := now\<rparr>"

definition map_get :: "string_map \<Rightarrow> string \<Rightarrow> string" where
  "map_get m k = (case map_of m k of Some v \<Rightarrow> v | None \<Rightarrow> [])"

text \<open>The bytes written to the hash, in the order of the \<^verbatim>\<open>Write\<close> calls, and the key.\<close>

definition idempotency_input :: "Task \<Rightarrow> string" where
  "idempotency_input t =
     tCommand t @ tWorkdir t @
     concat (map (\<lambda>k. k @ map_get (tEnv t) k) (sort (map fst (tEnv t))))"

definition SetIdempotencyKey :: "Task \<Rightarrow> Task" where
  "SetIdempotencyKey t =
     t\<lparr>tIdempotencyKey := take 16 (hex (sha256 (bytes (idempotency_input t))))\<rparr>"

definition CanRetry :: "Task \<Rightarrow> bool" where
  "CanRetry t \<longleftrightarrow> tRetryCount t < tMaxRetries t"

definition TransitionTo :: "go_time \<Rightarrow> Task \<Rightarrow> TaskStatus \<Rightarrow> Task result" where
  "TransitionTo now t target =
     (case validTransitions (tStatus t) of
        None \<Rightarrow> Inl (ErrInvalidTransition (TaskStatus_String (tStatus t)) (TaskStatus_String target))
      | Some allowed \<Rightarrow>
          if allowed target = Some True
          then Inr (t\<lparr>tStatus := target, tUpdatedAt := now\<rparr>)
          else Inl (ErrInvalidTransition (TaskStatus_String (tStatus t)) (TaskStatus_String target)))"

section \<open>The life cycle\<close>

text \<open>
  The state machine the design describes (Created, Pending, Running, then one of the three
  terminal states; cancellation from every non-terminal state), as a step relation that does
  not mention the table.
\<close>

inductive lifecycle :: "TaskStatus \<Rightarrow> TaskStatus \<Rightarrow> bool" where
  enqueue: "lifecycle TaskStatusCreated TaskStatusPending"
| start: "lifecycle TaskStatusPending TaskStatusRunning"
| finish: "s \<in> {TaskStatusSuccess, TaskStatusFailed} \<Longrightarrow> lifecycle TaskStatusRunning s"
| cancel: "s \<in> {TaskStatusCreated, TaskStatusPending, TaskStatusRunning} \<Longrightarrow>
     lifecycle s TaskStatusCanceled"

inductive_cases lifecycleE [elim!]: "lifecycle s s'"

inductive_simps lifecycle_from:
  "lifecycle TaskStatusCreated s'"
  "lifecycle TaskStatusPending s'"
  "lifecycle TaskStatusRunning s'"
  "lifecycle TaskStatusSuccess s'"
  "lifecycle TaskStatusFailed s'"
  "lifecycle TaskStatusCanceled s'"
  "lifecycle (TaskStatusOther u) s'"

lemma TransitionTo_iff:
  "TransitionTo now t s = Inr t' \<longleftrightarrow>
     lifecycle (tStatus t) s \<and> t' = t\<lparr>tStatus := s, tUpdatedAt := now\<rparr>"
  by (cases "tStatus t"; cases s)
    (auto simp: TransitionTo_def validTransitions_def lifecycle_from)

lemma TransitionTo_Inl:
  "TransitionTo now t s = Inl e \<longleftrightarrow> \<not> lifecycle (tStatus t) s \<and>
     e = ErrInvalidTransition (TaskStatus_String (tStatus t)) (TaskStatus_String s)"
  by (cases "tStatus t"; cases s)
    (auto simp: TransitionTo_def validTransitions_def lifecycle_from)

lemma TransitionTo_cases:
  obtains (ok) "lifecycle (tStatus t) s"
      "TransitionTo now t s = Inr (t\<lparr>tStatus := s, tUpdatedAt := now\<rparr>)"
    | (refused) e where "\<not> lifecycle (tStatus t) s" "TransitionTo now t s = Inl e"
  by (cases "TransitionTo now t s") (auto simp: TransitionTo_iff TransitionTo_Inl)

text \<open>How many transitions a status still allows, at most.\<close>

fun status_rank :: "TaskStatus \<Rightarrow> nat" where
  "status_rank TaskStatusCreated = 3"
| "status_rank TaskStatusPending = 2"
| "status_rank TaskStatusRunning = 1"
| "status_rank _ = 0"

lemma lifecycle_rank: "lifecycle s s' \<Longrightarrow> status_rank s' < status_rank s"
  by (auto simp: numeral_eq_Suc)

lemma lifecycle_terminal: "IsTerminal s \<Longrightarrow> \<not> lifecycle s s'"
  by (auto simp: IsTerminal_def split: TaskStatus.splits)

text \<open>A run of transitions with their clock readings: it stops at the first refusal.\<close>

fun transitions :: "Task \<Rightarrow> (go_time \<times> TaskStatus) list \<Rightarrow> Task result" where
  "transitions t [] = Inr t"
| "transitions t ((now, s) # ss) =
     (case TransitionTo now t s of Inl e \<Rightarrow> Inl e | Inr t' \<Rightarrow> transitions t' ss)"

lemma transitions_rank:
  "transitions t ss = Inr t' \<Longrightarrow> length ss + status_rank (tStatus t') \<le> status_rank (tStatus t)"
proof (induction ss arbitrary: t)
  case (Cons x ss)
  obtain now s where x: "x = (now, s)" by (cases x)
  with Cons.prems have step: "lifecycle (tStatus t) s"
    and rest: "transitions (t\<lparr>tStatus := s, tUpdatedAt := now\<rparr>) ss = Inr t'"
    by (auto simp: TransitionTo_iff split: sum.splits)
  from Cons.IH [OF rest] lifecycle_rank [OF step] show ?case by simp
qed simp

lemma transitions_frame:
  "transitions t ss = Inr t' \<Longrightarrow>
     t' = t\<lparr>tStatus := tStatus t', tUpdatedAt := tUpdatedAt t'\<rparr>"
  by (induction ss arbitrary: t) (fastforce simp: TransitionTo_iff split: sum.splits)+

section \<open>The idempotency key\<close>

lemma idempotency_input_cong:
  assumes "wf_map (tEnv t)" and "wf_map (tEnv t')" and "map_of (tEnv t) = map_of (tEnv t')"
    and "tCommand t = tCommand t'" and "tWorkdir t = tWorkdir t'"
  shows "idempotency_input t = idempotency_input t'"
  using assms by (simp add: idempotency_input_def map_get_def sorted_keys_unique [of "tEnv t" "tEnv t'"])

lemma SetIdempotencyKey_frame [task_frame]:
  "tTaskUID (SetIdempotencyKey t) = tTaskUID t"
  "tStatus (SetIdempotencyKey t) = tStatus t"
  "tCPULimit (SetIdempotencyKey t) = tCPULimit t"
  "tMemoryLimit (SetIdempotencyKey t) = tMemoryLimit t"
  "tPriority (SetIdempotencyKey t) = tPriority t"
  "tRetryCount (SetIdempotencyKey t) = tRetryCount t"
  "tMaxRetries (SetIdempotencyKey t) = tMaxRetries t"
  by (simp_all add: SetIdempotencyKey_def)

section \<open>Properties\<close>

text \<open>
  Any run of accepted transitions of a task makes at most three steps from a freshly created
  task and none from a terminal one: with \<open>status_rank\<close> the number of steps a status leaves,
  a run of \<open>TransitionTo\<close> calls that all succeed spends at least one per call, writes nothing
  but the status and the update time, and a terminal status has rank 0.
\<close>

lemma transitions_bounded:
  assumes "transitions t ss = Inr t'"
  shows "length ss \<le> status_rank (tStatus t) \<and>
     t' = t\<lparr>tStatus := tStatus t', tUpdatedAt := tUpdatedAt t'\<rparr> \<and>
     (IsTerminal (tStatus t) \<longrightarrow> ss = [] \<and> t' = t)"
proof -
  from transitions_rank [OF assms] have len: "length ss \<le> status_rank (tStatus t)" by simp
  moreover have "ss = [] \<and> t' = t" if "IsTerminal (tStatus t)"
  proof -
    from that have "status_rank (tStatus t) = 0"
      by (auto simp: IsTerminal_def split: TaskStatus.splits)
    with len assms show ?thesis by simp
  qed
  ultimately show ?thesis using transitions_frame [OF assms] by blast
qed

lemma transitions_bounded_witness:
  "\<exists>t'. transitions (NewTask ''u'' 5 ''n'' ''c'')
          [(6, TaskStatusPending), (7, TaskStatusRunning), (8, TaskStatusSuccess)] = Inr t'
     \<and> 3 \<le> status_rank (tStatus (NewTask ''u'' 5 ''n'' ''c''))"
proof -
  define ss where "ss = [(6, TaskStatusPending), (7, TaskStatusRunning), (8::int, TaskStatusSuccess)]"
  have "\<exists>t'. transitions (NewTask ''u'' 5 ''n'' ''c'') ss = Inr t'"
    by (simp add: ss_def TransitionTo_def validTransitions_def NewTask_def)
  then obtain t' where t': "transitions (NewTask ''u'' 5 ''n'' ''c'') ss = Inr t'" ..
  from transitions_bounded [OF t'] t' show ?thesis by (auto simp: ss_def)
qed

text \<open>
  C12. \<open>TransitionTo\<close> implements the documented life cycle: it accepts a target exactly when the
  step relation has that edge, then returns the task with only status and update time changed,
  and otherwise returns the error naming both statuses and changes nothing.
\<close>

theorem TransitionTo_refines_lifecycle:
  "TransitionTo now t target =
     (if lifecycle (tStatus t) target
      then Inr (t\<lparr>tStatus := target, tUpdatedAt := now\<rparr>)
      else Inl (ErrInvalidTransition (TaskStatus_String (tStatus t)) (TaskStatus_String target)))"
  by (simp add: TransitionTo_iff TransitionTo_Inl)

text \<open>
  The idempotency key has exactly 16 lower-case hexadecimal characters, and it depends on
  nothing but command, working directory and the environment as a map: two tasks that agree
  on these get the same key whatever the iteration order of the environment maps.
\<close>

lemma SetIdempotencyKey_deterministic:
  assumes "wf_map (tEnv t)" and "wf_map (tEnv t')" and "map_of (tEnv t) = map_of (tEnv t')"
    and "tCommand t = tCommand t'" and "tWorkdir t = tWorkdir t'"
  shows "tIdempotencyKey (SetIdempotencyKey t) = tIdempotencyKey (SetIdempotencyKey t') \<and>
     length (tIdempotencyKey (SetIdempotencyKey t)) = 16 \<and>
     set (tIdempotencyKey (SetIdempotencyKey t)) \<subseteq> set hex_digits"
proof -
  have "set (take 16 (hex bs)) \<subseteq> set hex_digits" for bs
    by (rule order_trans [OF set_take_subset set_hex])
  then show ?thesis
    using idempotency_input_cong [OF assms] by (simp add: SetIdempotencyKey_def)
qed

lemma SetIdempotencyKey_deterministic_witness:
  "tIdempotencyKey (SetIdempotencyKey (zeroTask\<lparr>tEnv := [(''A'', ''1''), (''B'', ''2'')]\<rparr>)) =
   tIdempotencyKey (SetIdempotencyKey (zeroTask\<lparr>tEnv := [(''B'', ''2''), (''A'', ''1'')]\<rparr>))"
  by (rule SetIdempotencyKey_deterministic [THEN conjunct1])
    (auto simp: wf_map_def zeroTask_def)

text \<open>
  The hashed text has no separators, so the key does not determine what it is computed
  from: moving a suffix of the command to the front of the working directory always keeps the
  key, and different jobs are then taken for duplicates of each other.
\<close>

lemma SetIdempotencyKey_collision:
  "tIdempotencyKey (SetIdempotencyKey (t\<lparr>tCommand := c @ x, tWorkdir := d\<rparr>)) =
   tIdempotencyKey (SetIdempotencyKey (t\<lparr>tCommand := c, tWorkdir := x @ d\<rparr>))"
  by (simp add: SetIdempotencyKey_def idempotency_input_def)

end
