(* ===== verification/Task_Store.thy ===== *)
theory Task_Store
  imports Task_Model
begin

text \<open>
  \<^verbatim>\<open>internal/store/task_store.go\<close>: the \<^verbatim>\<open>TaskStore\<close> over PostgreSQL, and the interface of the same
  name that the service and the scheduler use.

  PostgreSQL is not part of the sources: the driver is a record \<open>task_pg\<close> with one function per
  SQL statement of the file, an argument of every store operation. What SQL promises of those
  statements is the locale \<open>task_db\<close>, over an abstract table content: a statement that fails
  leaves the table alone, a timestamp comes back rounded by some function of the database, and
  rows of equal sort keys come in any order. What the clients rely on is the locale
  \<open>task_store\<close>, over a finite map from UIDs to tasks; a \<^theory_text>\<open>sublocale\<close> shows that the store over any
  such database meets it, and \<open>mem_pg\<close> is an instance of the database.

  A JSON document is modelled by the value it encodes (\<open>Encoded\<close>), or as one that does not
  decode to the expected type (\<open>Malformed\<close>).
\<close>

section \<open>JSON documents\<close>

datatype 'a json = Encoded 'a | Malformed string

definition json_Marshal :: "'a \<Rightarrow> 'a json result" where
  "json_Marshal x = Inr (Encoded x)"

fun json_Unmarshal :: "'a json \<Rightarrow> 'a result" where
  "json_Unmarshal (Encoded x) = Inr x"
| "json_Unmarshal (Malformed s) = Inl (ErrOther s)"

section \<open>Rows and statements\<close>

text \<open>A row of the table \<^verbatim>\<open>tasks\<close>; the columns that may be \<^verbatim>\<open>NULL\<close> where the code expects it are
  options.\<close>

record task_row =
  r_id :: int
  r_task_uid :: string
  r_name :: string
  r_command :: string
  r_workdir :: string
  r_env :: "string_map json option"
  r_cpu_limit :: int
  r_memory_limit :: int
  r_timeout_sec :: int
  r_priority :: int
  r_max_retries :: int
  r_retry_count :: int
  r_retry_interval_sec :: int
  r_idempotency_key :: "string option"
  r_node_selector :: "string_map json option"
  r_assigned_node_id :: "string option"
  r_status :: string
  r_exit_code :: "int option"
  r_stdout :: "string option"
  r_stderr :: "string option"
  r_error_message :: "string option"
  r_pid :: "int option"
  r_started_at :: "go_time option"
  r_finished_at :: "go_time option"
  r_created_at :: go_time
  r_updated_at :: go_time

text \<open>The driver: \<open>pg_insert\<close> is the \<^verbatim>\<open>INSERT ... RETURNING id\<close>, \<open>pg_update\<close> the \<^verbatim>\<open>UPDATE\<close>, the
  others the queries (a status of \<open>None\<close> is the query without a \<^verbatim>\<open>WHERE\<close> clause; \<open>pg_page\<close> takes
  the \<^verbatim>\<open>LIMIT\<close> and the \<^verbatim>\<open>OFFSET\<close>).\<close>

record 'db task_pg =
  pg_insert :: "'db \<Rightarrow> task_row \<Rightarrow> int result \<times> 'db"
  pg_update :: "'db \<Rightarrow> task_row \<Rightarrow> error option \<times> 'db"
  pg_by_uid :: "'db \<Rightarrow> string \<Rightarrow> task_row result"
  pg_by_status :: "'db \<Rightarrow> string \<Rightarrow> task_row list result"
  pg_count :: "'db \<Rightarrow> string option \<Rightarrow> int result"
  pg_page :: "'db \<Rightarrow> string option \<Rightarrow> int \<Rightarrow> int \<Rightarrow> task_row list result"

fun TaskStatus_of_string :: "string \<Rightarrow> TaskStatus" where
  "TaskStatus_of_string s =
     (if s = ''created'' then TaskStatusCreated
      else if s = ''pending'' then TaskStatusPending
      else if s = ''running'' then TaskStatusRunning
      else if s = ''success'' then TaskStatusSuccess
      else if s = ''failed'' then TaskStatusFailed
      else if s = ''canceled'' then TaskStatusCanceled
      else TaskStatusOther s)"

declare TaskStatus_of_string.simps [simp del]

definition canon_status :: "TaskStatus \<Rightarrow> TaskStatus" where
  "canon_status s = TaskStatus_of_string (TaskStatus_String s)"

lemma canon_status_simps [simp]:
  "canon_status TaskStatusCreated = TaskStatusCreated"
  "canon_status TaskStatusPending = TaskStatusPending"
  "canon_status TaskStatusRunning = TaskStatusRunning"
  "canon_status TaskStatusSuccess = TaskStatusSuccess"
  "canon_status TaskStatusFailed = TaskStatusFailed"
  "canon_status TaskStatusCanceled = TaskStatusCanceled"
  by (simp_all add: canon_status_def TaskStatus_of_string.simps)

section \<open>The store\<close>

text \<open>The columns both statements write, and then those of the \<^verbatim>\<open>INSERT\<close> and of the \<^verbatim>\<open>UPDATE\<close>.\<close>

definition task_columns :: "Task \<Rightarrow> string_map json \<Rightarrow> string_map json \<Rightarrow> task_row" where
  "task_columns t envJSON nodeSelectorJSON = \<lparr>
     r_id = 0, r_task_uid = tTaskUID t, r_name = tName t, r_command = tCommand t,
     r_workdir = tWorkdir t, r_env = Some envJSON, r_cpu_limit = tCPULimit t,
     r_memory_limit = tMemoryLimit t, r_timeout_sec = tTimeoutSec t, r_priority = tPriority t,
     r_max_retries = tMaxRetries t, r_retry_count = tRetryCount t,
     r_retry_interval_sec = tRetryIntervalSec t, r_idempotency_key = Some (tIdempotencyKey t),
     r_node_selector = Some nodeSelectorJSON, r_assigned_node_id = Some (tAssignedNodeID t),
     r_status = TaskStatus_String (tStatus t), r_exit_code = None, r_stdout = None,
     r_stderr = None, r_error_message = None, r_pid = None, r_started_at = None,
     r_finished_at = None, r_created_at = tCreatedAt t, r_updated_at = tUpdatedAt t\<rparr>"

definition TaskStore_Create :: "'db task_pg \<Rightarrow> 'db \<Rightarrow> Task \<Rightarrow> Task result \<times> 'db" where
  "TaskStore_Create pg db t =
     (case json_Marshal (tEnv t) of Inl e \<Rightarrow> (Inl e, db) | Inr envJSON \<Rightarrow>
      case json_Marshal (tNodeSelector t) of Inl e \<Rightarrow> (Inl e, db) | Inr nodeSelectorJSON \<Rightarrow>
      case pg_insert pg db (task_columns t envJSON nodeSelectorJSON) of
        (Inl e, db') \<Rightarrow> (Inl e, db')
      | (Inr i, db') \<Rightarrow> (Inr (t\<lparr>tID := i\<rparr>), db'))"

text \<open>\<^verbatim>\<open>Update\<close> stamps the caller's task before it runs the statement: the task comes back, too.\<close>

definition TaskStore_Update ::
    "'db task_pg \<Rightarrow> go_time \<Rightarrow> 'db \<Rightarrow> Task \<Rightarrow> error option \<times> Task \<times> 'db" where
  "TaskStore_Update pg now db t =
     (case json_Marshal (tEnv t) of Inl e \<Rightarrow> (Some e, t, db) | Inr envJSON \<Rightarrow>
      case json_Marshal (tNodeSelector t) of Inl e \<Rightarrow> (Some e, t, db) | Inr nodeSelectorJSON \<Rightarrow>
      let t' = t\<lparr>tUpdatedAt := now\<rparr>;
          (err, db') = pg_update pg db ((task_columns t' envJSON nodeSelectorJSON)
            \<lparr>r_exit_code := tExitCode t', r_stdout := Some (tStdout t'), r_stderr := Some (tStderr t'),
             r_error_message := Some (tErrorMessage t'), r_pid := tPID t',
             r_started_at := tStartedAt t', r_finished_at := tFinishedAt t'\<rparr>)
      in (err, t', db'))"

definition column_map :: "string_map json option \<Rightarrow> string_map" where
  "column_map c = (case c of
     None \<Rightarrow> []
   | Some j \<Rightarrow> (case json_Unmarshal j of Inl e \<Rightarrow> [] | Inr m \<Rightarrow> m))"

definition scanTask :: "task_row \<Rightarrow> Task" where
  "scanTask r = \<lparr>
     tID = r_id r, tTaskUID = r_task_uid r, tName = r_name r, tCommand = r_command r,
     tWorkdir = r_workdir r, tEnv = column_map (r_env r), tCPULimit = r_cpu_limit r,
     tMemoryLimit = r_memory_limit r, tTimeoutSec = r_timeout_sec r, tPriority = r_priority r,
     tMaxRetries = r_max_retries r, tRetryCount = r_retry_count r,
     tRetryIntervalSec = r_retry_interval_sec r,
     tIdempotencyKey = (case r_idempotency_key r of Some s \<Rightarrow> s | None \<Rightarrow> []),
     tNodeSelector = column_map (r_node_selector r),
     tAssignedNodeID = (case r_assigned_node_id r of Some s \<Rightarrow> s | None \<Rightarrow> []),
     tStatus = TaskStatus_of_string (r_status r),
     tExitCode = r_exit_code r,
     tStdout = (case r_stdout r of Some s \<Rightarrow> s | None \<Rightarrow> []),
     tStderr = (case r_stderr r of Some s \<Rightarrow> s | None \<Rightarrow> []),
     tErrorMessage = (case r_error_message r of Some s \<Rightarrow> s | None \<Rightarrow> []),
     tPID = r_pid r, tStartedAt = r_started_at r, tFinishedAt = r_finished_at r,
     tCreatedAt = r_created_at r, tUpdatedAt = r_updated_at r\<rparr>"

definition TaskStore_GetByUID :: "'db task_pg \<Rightarrow> 'db \<Rightarrow> string \<Rightarrow> Task result" where
  "TaskStore_GetByUID pg db uid =
     (case pg_by_uid pg db uid of Inl e \<Rightarrow> Inl e | Inr r \<Rightarrow> Inr (scanTask r))"

definition TaskStore_List ::
    "'db task_pg \<Rightarrow> 'db \<Rightarrow> string \<Rightarrow> int \<Rightarrow> int \<Rightarrow> (Task list \<times> int) result" where
  "TaskStore_List pg db status page sz =
     (let st = (if status = [] then None else Some status) in
      case pg_count pg db st of
        Inl e \<Rightarrow> Inl e
      | Inr n \<Rightarrow>
          (let offset = wrap64 (wrap64 (page - 1) * sz) in
           case pg_page pg db st sz offset of
             Inl e \<Rightarrow> Inl e
           | Inr rows \<Rightarrow> Inr (map scanTask rows, n)))"

definition tasks_by_status :: "'db task_pg \<Rightarrow> 'db \<Rightarrow> TaskStatus \<Rightarrow> Task list result" where
  "tasks_by_status pg db st =
     (case pg_by_status pg db (TaskStatus_String st) of
        Inl e \<Rightarrow> Inl e
      | Inr rows \<Rightarrow> Inr (map scanTask rows))"

definition TaskStore_GetPendingTasks :: "'db task_pg \<Rightarrow> 'db \<Rightarrow> Task list result" where
  "TaskStore_GetPendingTasks pg db = tasks_by_status pg db TaskStatusPending"

definition TaskStore_GetRunningTasks :: "'db task_pg \<Rightarrow> 'db \<Rightarrow> Task list result" where
  "TaskStore_GetRunningTasks pg db = tasks_by_status pg db TaskStatusRunning"

definition TaskStore_GetCreatedTasks :: "'db task_pg \<Rightarrow> 'db \<Rightarrow> Task list result" where
  "TaskStore_GetCreatedTasks pg db = tasks_by_status pg db TaskStatusCreated"

section \<open>The interface\<close>

record 'db TaskStore =
  ts_Create :: "'db \<Rightarrow> Task \<Rightarrow> Task result \<times> 'db"
  ts_Update :: "go_time \<Rightarrow> 'db \<Rightarrow> Task \<Rightarrow> error option \<times> Task \<times> 'db"
  ts_GetByUID :: "'db \<Rightarrow> string \<Rightarrow> Task result"
  ts_List :: "'db \<Rightarrow> string \<Rightarrow> int \<Rightarrow> int \<Rightarrow> (Task list \<times> int) result"
  ts_GetCreatedTasks :: "'db \<Rightarrow> Task list result"
  ts_GetPendingTasks :: "'db \<Rightarrow> Task list result"
  ts_GetRunningTasks :: "'db \<Rightarrow> Task list result"

definition NewTaskStore :: "'db task_pg \<Rightarrow> 'db TaskStore" where
  "NewTaskStore pg = \<lparr>
     ts_Create = TaskStore_Create pg,
     ts_Update = TaskStore_Update pg,
     ts_GetByUID = TaskStore_GetByUID pg,
     ts_List = TaskStore_List pg,
     ts_GetCreatedTasks = TaskStore_GetCreatedTasks pg,
     ts_GetPendingTasks = TaskStore_GetPendingTasks pg,
     ts_GetRunningTasks = TaskStore_GetRunningTasks pg\<rparr>"

section \<open>What SQL promises\<close>

definition round_row :: "(go_time \<Rightarrow> go_time) \<Rightarrow> task_row \<Rightarrow> task_row" where
  "round_row f r = r\<lparr>r_started_at := map_option f (r_started_at r),
     r_finished_at := map_option f (r_finished_at r),
     r_created_at := f (r_created_at r), r_updated_at := f (r_updated_at r)\<rparr>"

text \<open>\<^verbatim>\<open>ORDER BY priority DESC, created_at ASC\<close>, and the rows of a query in such an order.\<close>

definition sql_before :: "task_row \<Rightarrow> task_row \<Rightarrow> bool" where
  "sql_before a b \<longleftrightarrow> r_priority a > r_priority b \<or>
     (r_priority a = r_priority b \<and> r_created_at a \<le> r_created_at b)"

definition query_rows :: "(string \<rightharpoonup> task_row) \<Rightarrow> string option \<Rightarrow> task_row set" where
  "query_rows m st = {r. m (r_task_uid r) = Some r \<and> (\<forall>s. st = Some s \<longrightarrow> r_status r = s)}"

definition query_result :: "(string \<rightharpoonup> task_row) \<Rightarrow> string option \<Rightarrow> task_row list \<Rightarrow> bool" where
  "query_result m st rs \<longleftrightarrow>
     distinct (map r_task_uid rs) \<and> set rs = query_rows m st \<and> sorted_wrt sql_before rs"

locale task_db =
  fixes pg :: "'db task_pg"
    and rows :: "'db \<Rightarrow> string \<rightharpoonup> task_row"
    and pgts :: "go_time \<Rightarrow> go_time"
  assumes rows_finite: "finite (dom (rows db))"
    and rows_key: "rows db u = Some r \<Longrightarrow> r_task_uid r = u"
    and insert_ok: "pg_insert pg db r = (Inr i, db') \<Longrightarrow> rows db (r_task_uid r) = None \<and>
      rows db' = (rows db)(r_task_uid r \<mapsto> round_row pgts (r\<lparr>r_id := i\<rparr>))"
    and insert_err: "pg_insert pg db r = (Inl e, db') \<Longrightarrow> rows db' = rows db"
    and update_ok: "pg_update pg db r = (None, db') \<Longrightarrow> rows db' =
      (case rows db (r_task_uid r) of
         None \<Rightarrow> rows db
       | Some old \<Rightarrow> (rows db)(r_task_uid r \<mapsto>
           (round_row pgts r)\<lparr>r_id := r_id old, r_created_at := r_created_at old\<rparr>))"
    and update_err: "pg_update pg db r = (Some e, db') \<Longrightarrow> rows db' = rows db"
    and by_uid_ok: "pg_by_uid pg db u = Inr r \<Longrightarrow> rows db u = Some r"
    and by_uid_none: "rows db u = None \<Longrightarrow> pg_by_uid pg db u = Inl e \<Longrightarrow> e \<noteq> ErrTaskNotFound"
    and by_status_ok: "pg_by_status pg db st = Inr rs \<Longrightarrow> query_result (rows db) (Some st) rs"
    and count_ok: "pg_count pg db so = Inr n \<Longrightarrow> n = int (card (query_rows (rows db) so))"
    and page_ok: "pg_page pg db so sz off = Inr rs \<Longrightarrow> 0 \<le> sz \<and> 0 \<le> off \<and>
      (\<exists>all. query_result (rows db) so all \<and> rs = take (nat sz) (drop (nat off) all))"

section \<open>What the clients rely on\<close>

text \<open>The task a successful \<^verbatim>\<open>Update\<close> leaves in place of \<open>old\<close>, and the one a \<^verbatim>\<open>Create\<close> leaves
  (the \<^verbatim>\<open>INSERT\<close> does not write the result columns), for a database that rounds by \<open>f\<close>.\<close>

definition stored_task :: "(go_time \<Rightarrow> go_time) \<Rightarrow> Task \<Rightarrow> Task \<Rightarrow> Task" where
  "stored_task f old t = t\<lparr>
     tID := tID old, tStatus := canon_status (tStatus t),
     tStartedAt := map_option f (tStartedAt t), tFinishedAt := map_option f (tFinishedAt t),
     tCreatedAt := tCreatedAt old, tUpdatedAt := f (tUpdatedAt t)\<rparr>"

definition created_task :: "(go_time \<Rightarrow> go_time) \<Rightarrow> Task \<Rightarrow> Task" where
  "created_task f t = t\<lparr>
     tStatus := canon_status (tStatus t), tExitCode := None, tStdout := [], tStderr := [],
     tErrorMessage := [], tPID := None, tStartedAt := None, tFinishedAt := None,
     tCreatedAt := f (tCreatedAt t), tUpdatedAt := f (tUpdatedAt t)\<rparr>"

text \<open>The UIDs of the running tasks of a store, and the sum of a limit over them.\<close>

definition running_set :: "(string \<rightharpoonup> Task) \<Rightarrow> string set" where
  "running_set v = {u. \<exists>t. v u = Some t \<and> tStatus t = TaskStatusRunning}"

definition allocated :: "(Task \<Rightarrow> int) \<Rightarrow> (string \<rightharpoonup> Task) \<Rightarrow> int" where
  "allocated lim v = (\<Sum>u \<in> running_set v. lim (the (v u)))"

lemma stored_task_frame [task_frame]:
  "tTaskUID (stored_task f old t) = tTaskUID t"
  "tCPULimit (stored_task f old t) = tCPULimit t"
  "tMemoryLimit (stored_task f old t) = tMemoryLimit t"
  "tRetryCount (stored_task f old t) = tRetryCount t"
  "tMaxRetries (stored_task f old t) = tMaxRetries t"
  "tStatus (stored_task f old t) = canon_status (tStatus t)"
  by (simp_all add: stored_task_def)

lemma running_set_upd:
  "running_set (v(u \<mapsto> x)) =
     (running_set v - {u}) \<union> (if tStatus x = TaskStatusRunning then {u} else {})"
  by (auto simp: running_set_def split: if_splits)

lemma allocated_upd:
  assumes fin: "finite (running_set v)"
    and nonneg: "\<And>w. w \<in> running_set v \<Longrightarrow> 0 \<le> lim (the (v w))" "0 \<le> lim x"
  shows "allocated lim (v(u \<mapsto> x)) \<le> allocated lim v + lim x"
proof -
  let ?A = "running_set v - {u}"
  have "allocated lim (v(u \<mapsto> x)) \<le> (\<Sum>w \<in> ?A. lim (the (v w))) + lim x"
  proof (cases "tStatus x = TaskStatusRunning")
    case True
    then have "running_set (v(u \<mapsto> x)) = insert u ?A" by (auto simp: running_set_upd)
    with fin show ?thesis by (simp add: allocated_def sum.insert_remove)
  next
    case False
    then have "running_set (v(u \<mapsto> x)) = ?A" by (simp add: running_set_upd)
    then have "allocated lim (v(u \<mapsto> x)) = (\<Sum>w \<in> ?A. lim (the (v w)))"
      unfolding allocated_def by (auto intro: sum.cong)
    with nonneg(2) show ?thesis by simp
  qed
  also have "(\<Sum>w \<in> ?A. lim (the (v w))) \<le> allocated lim v"
    unfolding allocated_def using fin nonneg(1) by (intro sum_mono2) auto
  finally show ?thesis by simp
qed

locale task_store =
  fixes S :: "'db TaskStore"
    and view :: "'db \<Rightarrow> string \<rightharpoonup> Task"
    and rnd :: "go_time \<Rightarrow> go_time"
  assumes view_finite: "finite (dom (view db))"
    and view_uid: "view db u = Some t \<Longrightarrow> tTaskUID t = u"
    and create_ok: "ts_Create S db t = (Inr t', db') \<Longrightarrow> view db (tTaskUID t) = None \<and>
      (\<exists>i. t' = t\<lparr>tID := i\<rparr>) \<and> view db' = (view db)(tTaskUID t \<mapsto> created_task rnd t')"
    and create_err: "ts_Create S db t = (Inl e, db') \<Longrightarrow> view db' = view db"
    and update_task: "ts_Update S now db t = (r, t', db') \<Longrightarrow> t' = t\<lparr>tUpdatedAt := now\<rparr>"
    and update_ok: "ts_Update S now db t = (None, t', db') \<Longrightarrow> view db' =
      (case view db (tTaskUID t) of
         None \<Rightarrow> view db
       | Some old \<Rightarrow> (view db)(tTaskUID t \<mapsto> stored_task rnd old t'))"
    and update_err: "ts_Update S now db t = (Some e, t', db') \<Longrightarrow> view db' = view db"
    and get_ok: "ts_GetByUID S db u = Inr t \<Longrightarrow> view db u = Some t"
    and running_ok: "ts_GetRunningTasks S db = Inr ts \<Longrightarrow> distinct (map tTaskUID ts) \<and>
      set ts = {t. view db (tTaskUID t) = Some t \<and> tStatus t = TaskStatusRunning}"
begin

lemma finite_running [simp]: "finite (running_set (view db))"
  by (rule finite_subset [OF _ view_finite [of db]]) (auto simp: running_set_def)

lemma running_list:
  assumes "ts_GetRunningTasks S db = Inr ts"
  shows "length ts = card (running_set (view db))"
    and "sum_list (map lim ts) = allocated lim (view db)"
proof -
  note ok = running_ok [OF assms]
  have img: "tTaskUID ` set ts = running_set (view db)"
    using ok view_uid by (auto simp: running_set_def image_iff)
  have inj: "inj_on tTaskUID (set ts)" and dist: "distinct ts"
    using ok [THEN conjunct1] by (simp_all only: distinct_map)
  show "length ts = card (running_set (view db))"
    using card_image [OF inj] distinct_card [OF dist] img by simp
  have "sum_list (map lim ts) = (\<Sum>t \<in> set ts. lim t)"
    using dist by (simp add: sum_list_distinct_conv_sum_set)
  also have "\<dots> = (\<Sum>t \<in> set ts. lim (the (view db (tTaskUID t))))"
    using ok by (intro sum.cong) auto
  also have "\<dots> = allocated lim (view db)"
    unfolding allocated_def img [symmetric] using inj by (simp add: sum.reindex)
  finally show "sum_list (map lim ts) = allocated lim (view db)" .
qed

text \<open>The effect of one \<^verbatim>\<open>Update\<close>, successful or not, on the view.\<close>

lemma update_cases:
  obtains (same) "view (snd (snd (ts_Update S now db t))) = view db"
    | (stored) old where "view db (tTaskUID t) = Some old"
      "view (snd (snd (ts_Update S now db t))) =
         (view db)(tTaskUID t \<mapsto> stored_task rnd old (t\<lparr>tUpdatedAt := now\<rparr>))"
proof -
  obtain r t' db' where u: "ts_Update S now db t = (r, t', db')" by (metis prod.collapse)
  show thesis
  proof (cases r)
    case None
    with u update_ok [of now db t t' db'] update_task [OF u] that show ?thesis
      by (auto split: option.splits)
  next
    case (Some e)
    with u update_err that(1) show ?thesis by auto
  qed
qed

lemma update_running_other:
  assumes "canon_status (tStatus t) \<noteq> TaskStatusRunning"
  shows "running_set (view (snd (snd (ts_Update S now db t)))) \<subseteq> running_set (view db)"
  by (cases rule: update_cases [of now db t])
    (use assms in \<open>auto simp: running_set_def stored_task_def split: if_splits\<close>)

lemma update_running:
  "running_set (view (snd (snd (ts_Update S now db t)))) \<subseteq> insert (tTaskUID t) (running_set (view db))"
  by (cases rule: update_cases [of now db t])
    (auto simp: running_set_def stored_task_def split: if_splits)

text \<open>The resources of the running tasks after an \<^verbatim>\<open>Update\<close>, when no limit is negative.\<close>

lemma update_allocated:
  assumes lim: "\<And>old x. lim (stored_task rnd old x) = lim x" "\<And>x n. lim (x\<lparr>tUpdatedAt := n\<rparr>) = lim x"
    and nonneg: "\<And>u x. view db u = Some x \<Longrightarrow> 0 \<le> lim x" "0 \<le> lim t"
  shows "allocated lim (view (snd (snd (ts_Update S now db t)))) \<le> allocated lim (view db) + lim t"
proof (cases rule: update_cases [of now db t])
  case same
  with nonneg(2) show ?thesis by simp
next
  case (stored old)
  let ?x = "stored_task rnd old (t\<lparr>tUpdatedAt := now\<rparr>)"
  have "0 \<le> lim (the (view db u))" if "u \<in> running_set (view db)" for u
    using that nonneg(1) by (auto simp: running_set_def)
  then have "allocated lim ((view db)(tTaskUID t \<mapsto> ?x)) \<le> allocated lim (view db) + lim ?x"
    using nonneg(2) lim by (intro allocated_upd) auto
  with stored(2) lim show ?thesis by simp
qed

end

text \<open>What the database contract gives the client: the store over it keeps the map of tasks.\<close>

context task_db
begin

definition task_view :: "'db \<Rightarrow> string \<rightharpoonup> Task" where
  "task_view db u = map_option scanTask (rows db u)"

lemma task_view_upd:
  "rows db' = (rows db)(u \<mapsto> r) \<Longrightarrow> task_view db' = (task_view db)(u \<mapsto> scanTask r)"
  by (auto simp: task_view_def)

lemma scan_uid [simp]: "tTaskUID (scanTask r) = r_task_uid r"
  by (simp add: scanTask_def)

lemma scan_status: "tStatus (scanTask r) = TaskStatus_of_string (r_status r)"
  by (simp add: scanTask_def)

end

sublocale task_db \<subseteq> st: task_store "NewTaskStore pg" task_view pgts
proof (unfold_locales, goal_cases)
  case (1 db)
  have "dom (task_view db) = dom (rows db)" by (auto simp: task_view_def)
  with rows_finite show ?case by simp
next
  case (2 db u t)
  then show ?case using rows_key by (auto simp: task_view_def)
next
  case (3 db t t' db')
  then obtain i where ins: "pg_insert pg db (task_columns t (Encoded (tEnv t)) (Encoded (tNodeSelector t)))
      = (Inr i, db')" and t': "t' = t\<lparr>tID := i\<rparr>"
    by (auto simp: NewTaskStore_def TaskStore_Create_def json_Marshal_def split: prod.splits sum.splits)
  note ok = insert_ok [OF ins]
  have "scanTask (round_row pgts ((task_columns t (Encoded (tEnv t)) (Encoded (tNodeSelector t)))\<lparr>r_id := i\<rparr>))
      = created_task pgts t'"
    by (simp add: t' scanTask_def round_row_def task_columns_def created_task_def column_map_def
        canon_status_def)
  with ok t' show ?case
    by (auto simp: task_view_upd task_view_def [of db "tTaskUID t"] task_columns_def)
next
  case (4 db t e db')
  then show ?case
    by (auto simp: NewTaskStore_def TaskStore_Create_def json_Marshal_def task_view_def insert_err
        split: prod.splits sum.splits)
next
  case (5 now db t r t' db')
  then show ?case
    by (auto simp: NewTaskStore_def TaskStore_Update_def json_Marshal_def Let_def split: prod.splits)
next
  case (6 now db t t' db')
  define row where "row = (task_columns t' (Encoded (tEnv t')) (Encoded (tNodeSelector t')))
      \<lparr>r_exit_code := tExitCode t', r_stdout := Some (tStdout t'), r_stderr := Some (tStderr t'),
       r_error_message := Some (tErrorMessage t'), r_pid := tPID t',
       r_started_at := tStartedAt t', r_finished_at := tFinishedAt t'\<rparr>"
  have t': "t' = t\<lparr>tUpdatedAt := now\<rparr>" and upd: "pg_update pg db row = (None, db')"
    using 6 by (auto simp: NewTaskStore_def TaskStore_Update_def json_Marshal_def Let_def row_def
        split: prod.splits)
  have uid: "r_task_uid row = tTaskUID t" by (simp add: row_def task_columns_def t')
  have "scanTask ((round_row pgts row)\<lparr>r_id := r_id old, r_created_at := r_created_at old\<rparr>)
      = stored_task pgts (scanTask old) t'" for old
    by (simp add: row_def scanTask_def round_row_def task_columns_def stored_task_def column_map_def
        canon_status_def)
  note scan = this
  show ?case
  proof (cases "rows db (tTaskUID t)")
    case None
    with update_ok [OF upd] uid have "rows db' = rows db" by simp
    with None show ?thesis by (simp add: task_view_def fun_eq_iff)
  next
    case (Some old)
    with update_ok [OF upd] uid have "rows db' = (rows db)(tTaskUID t \<mapsto>
        (round_row pgts row)\<lparr>r_id := r_id old, r_created_at := r_created_at old\<rparr>)" by simp
    from task_view_upd [OF this] Some show ?thesis
      unfolding scan by (simp add: task_view_def [of db "tTaskUID t"])
  qed
next
  case (7 now db t e t' db')
  then show ?case
    by (auto simp: NewTaskStore_def TaskStore_Update_def json_Marshal_def Let_def task_view_def update_err
        split: prod.splits)
next
  case (8 db u t)
  then show ?case
    by (auto simp: NewTaskStore_def TaskStore_GetByUID_def task_view_def dest: by_uid_ok split: sum.splits)
next
  case (9 db ts)
  then obtain rs where rs: "pg_by_status pg db ''running'' = Inr rs" and ts: "ts = map scanTask rs"
    by (auto simp: NewTaskStore_def TaskStore_GetRunningTasks_def tasks_by_status_def split: sum.splits)
  have run: "TaskStatus_of_string s = TaskStatusRunning \<longleftrightarrow> s = ''running''" for s
    by (auto simp: TaskStatus_of_string.simps)
  have "scanTask ` query_rows (rows db) (Some ''running'') =
      {t. task_view db (tTaskUID t) = Some t \<and> tStatus t = TaskStatusRunning}"
  proof (intro set_eqI iffI)
    fix t assume "t \<in> scanTask ` query_rows (rows db) (Some ''running'')"
    then show "t \<in> {t. task_view db (tTaskUID t) = Some t \<and> tStatus t = TaskStatusRunning}"
      by (auto simp: query_rows_def task_view_def scan_status run)
  next
    fix t assume "t \<in> {t. task_view db (tTaskUID t) = Some t \<and> tStatus t = TaskStatusRunning}"
    then obtain r where r: "rows db (tTaskUID t) = Some r" "t = scanTask r"
        "tStatus t = TaskStatusRunning"
      by (auto simp: task_view_def)
    with rows_key [OF r(1)] have "r \<in> query_rows (rows db) (Some ''running'')"
      by (simp add: query_rows_def scan_status run)
    with r(2) show "t \<in> scanTask ` query_rows (rows db) (Some ''running'')" by blast
  qed
  then have "set ts = {t. task_view db (tTaskUID t) = Some t \<and> tStatus t = TaskStatusRunning}"
    using by_status_ok [OF rs] by (simp add: ts query_result_def)
  moreover have "distinct (map tTaskUID ts)"
    using by_status_ok [OF rs] by (simp add: ts comp_def query_result_def)
  ultimately show ?case by simp
qed

context task_db
begin

lemma is_task_store: "task_store (NewTaskStore pg) task_view pgts"
  by unfold_locales

lemma query_result_length:
  "query_result (rows db) so rs \<Longrightarrow> int (length rs) = int (card (query_rows (rows db) so))"
  by (simp add: query_result_def distinct_map flip: distinct_card)

lemma list_ok:
  assumes "TaskStore_List pg db status page sz = Inr (ts, n)"
  shows "\<exists>all. query_result (rows db) (if status = [] then None else Some status) all \<and>
     ts = map scanTask (take (nat sz) (drop (nat (wrap64 (wrap64 (page - 1) * sz))) all)) \<and>
     n = int (length all)"
proof -
  obtain rs where c: "pg_count pg db (if status = [] then None else Some status) = Inr n"
    and p: "pg_page pg db (if status = [] then None else Some status) sz
        (wrap64 (wrap64 (page - 1) * sz)) = Inr rs"
    and ts: "ts = map scanTask rs"
    using assms by (auto simp: TaskStore_List_def Let_def split: sum.splits)
  from page_ok [OF p] query_result_length count_ok [OF c] ts show ?thesis by force
qed

end

section \<open>A database in memory\<close>

text \<open>
  An instance of the driver: the table is the list of its rows in the order of their insertion,
  the first row of a UID counts, no statement fails but for the unique constraint and for a
  negative \<^verbatim>\<open>LIMIT\<close> or \<^verbatim>\<open>OFFSET\<close>, and timestamps keep their resolution.
\<close>

fun dedup :: "task_row list \<Rightarrow> task_row list" where
  "dedup [] = []"
| "dedup (r # rs) = r # filter (\<lambda>x. r_task_uid x \<noteq> r_task_uid r) (dedup rs)"

definition mem_rows :: "task_row list \<Rightarrow> string \<rightharpoonup> task_row" where
  "mem_rows db u = find (\<lambda>r. r_task_uid r = u) db"

definition mem_query :: "task_row list \<Rightarrow> string option \<Rightarrow> task_row list" where
  "mem_query db st =
     sort_key (\<lambda>r. - r_priority r) (sort_key r_created_at
       (filter (\<lambda>r. st = None \<or> st = Some (r_status r)) (dedup db)))"

fun mem_update :: "task_row \<Rightarrow> task_row list \<Rightarrow> task_row list" where
  "mem_update r [] = []"
| "mem_update r (x # xs) =
     (if r_task_uid x = r_task_uid r
      then r\<lparr>r_id := r_id x, r_created_at := r_created_at x\<rparr> # xs
      else x # mem_update r xs)"

definition mem_pg :: "task_row list task_pg" where
  "mem_pg = \<lparr>
     pg_insert = (\<lambda>db r. if mem_rows db (r_task_uid r) = None
        then (Inr (int (length db) + 1), db @ [r\<lparr>r_id := int (length db) + 1\<rparr>])
        else (Inl (ErrOther ''duplicate key''), db)),
     pg_update = (\<lambda>db r. (None, mem_update r db)),
     pg_by_uid = (\<lambda>db u. case mem_rows db u of None \<Rightarrow> Inl ErrNoRows | Some r \<Rightarrow> Inr r),
     pg_by_status = (\<lambda>db st. Inr (mem_query db (Some st))),
     pg_count = (\<lambda>db st. Inr (int (length (mem_query db st)))),
     pg_page = (\<lambda>db st sz off. if sz < 0 \<or> off < 0 then Inl (ErrOther ''negative'')
        else Inr (take (nat sz) (drop (nat off) (mem_query db st))))\<rparr>"

lemma mem_rows_Some: "mem_rows db u = Some r \<Longrightarrow> r_task_uid r = u \<and> r \<in> set db"
  by (auto simp: mem_rows_def find_Some_iff)

lemma mem_rows_Cons: "mem_rows (x # xs) u = (if r_task_uid x = u then Some x else mem_rows xs u)"
  by (simp add: mem_rows_def)

lemma mem_rows_Nil [simp]: "mem_rows [] u = None"
  by (simp add: mem_rows_def)

lemma mem_rows_append: "mem_rows (xs @ ys) u =
    (case mem_rows xs u of None \<Rightarrow> mem_rows ys u | Some r \<Rightarrow> Some r)"
  by (induction xs) (simp_all add: mem_rows_Cons)

lemma set_dedup: "set (dedup db) = {r. mem_rows db (r_task_uid r) = Some r}"
  by (induction db) (auto simp: mem_rows_Cons)

lemma distinct_dedup: "distinct (map r_task_uid (dedup db))"
  by (induction db) (auto intro: distinct_map_filter)

lemma mem_rows_update: "mem_rows (mem_update r db) =
    (case mem_rows db (r_task_uid r) of
       None \<Rightarrow> mem_rows db
     | Some old \<Rightarrow> (mem_rows db)(r_task_uid r \<mapsto>
         r\<lparr>r_id := r_id old, r_created_at := r_created_at old\<rparr>))"
  by (induction db) (auto simp: mem_rows_Cons fun_eq_iff split: option.splits)

lemma sorted_wrt_sort_key_lex:
  "sorted_wrt (\<lambda>a b. f a < f b \<or> (f a = f b \<and> g a \<le> g b)) (sort_key f (sort_key g xs))"
  for f :: "'a \<Rightarrow> int" and g :: "'a \<Rightarrow> int"
proof -
  have ins: "sorted_wrt (\<lambda>a b. f a < f b \<or> (f a = f b \<and> g a \<le> g b)) (insort_key f x ys)"
    if "sorted_wrt (\<lambda>a b. f a < f b \<or> (f a = f b \<and> g a \<le> g b)) ys" "\<forall>y \<in> set ys. g x \<le> g y" for x ys
    using that by (induction ys) (auto simp: set_insort_key)
  have "sorted (map g zs) \<Longrightarrow>
      sorted_wrt (\<lambda>a b. f a < f b \<or> (f a = f b \<and> g a \<le> g b)) (sort_key f zs)" for zs
    by (induction zs) (auto intro: ins)
  then show ?thesis by simp
qed

lemma mem_query_result: "query_result (mem_rows db) st (mem_query db st)"
proof -
  have "distinct (map r_task_uid (mem_query db st))"
    using distinct_dedup [of db]
    by (simp add: mem_query_def distinct_map_filter distinct_map distinct_sort inj_on_def)
  moreover have "sorted_wrt sql_before (mem_query db st)"
    using sorted_wrt_sort_key_lex [of "\<lambda>r. - r_priority r" r_created_at]
    unfolding mem_query_def sql_before_def by (rule sorted_wrt_mono_rel [rotated]) auto
  ultimately show ?thesis
    by (cases st) (auto simp: query_result_def query_rows_def mem_query_def set_dedup)
qed

lemma round_row_id [simp]: "round_row (\<lambda>t. t) r = r"
  by (simp add: round_row_def option.map_ident)

interpretation mem: task_db mem_pg mem_rows "\<lambda>t. t"
proof (unfold_locales, goal_cases)
  case (1 db)
  have "dom (mem_rows db) \<subseteq> r_task_uid ` set db" using mem_rows_Some by fast
  then show ?case by (rule finite_subset) simp
next
  case (2 db u r)
  then show ?case using mem_rows_Some by blast
next
  case (3 db r i db')
  then show ?case
    by (auto simp: mem_pg_def mem_rows_append mem_rows_Cons fun_eq_iff
        split: if_splits option.splits)
next
  case (4 db r e db')
  then show ?case by (auto simp: mem_pg_def split: if_splits)
next
  case (5 db r db')
  then have "db' = mem_update r db" by (simp add: mem_pg_def)
  then show ?case by (simp add: mem_rows_update split: option.split)
next
  case (6 db r e db')
  then show ?case by (simp add: mem_pg_def)
next
  case (7 db u r)
  then show ?case by (auto simp: mem_pg_def split: option.splits)
next
  case (8 db u e)
  then show ?case by (simp add: mem_pg_def)
next
  case (9 db st rs)
  then show ?case using mem_query_result by (auto simp: mem_pg_def)
next
  case (10 db so n)
  have "distinct (mem_query db so)"
    using mem_query_result [of db so] by (auto simp: query_result_def distinct_map)
  then have "length (mem_query db so) = card (query_rows (mem_rows db) so)"
    using mem_query_result [of db so] by (simp add: query_result_def flip: distinct_card)
  with 10 show ?case by (simp add: mem_pg_def)
next
  case (11 db so sz off rs)
  then show ?case using mem_query_result [of db so] by (auto simp: mem_pg_def split: if_splits)
qed

section \<open>Properties\<close>

text \<open>
  C21. What the store writes it reads back. Over any database that keeps SQL's promises, a
  successful \<open>Create\<close> followed by a successful \<open>GetByUID\<close> gives the task with its new row number
  and empty result columns, and after a successful \<open>Update\<close> of an existing task it gives the
  task written, with the row number and the creation time of the row; in both cases up to the
  database's rounding of the timestamps and with all JSON columns intact.
\<close>

theorem TaskStore_roundtrip:
  assumes "task_db pg rows pgts"
  shows "(TaskStore_Create pg db t = (Inr t', db') \<and>
        TaskStore_GetByUID pg db' (tTaskUID t) = Inr x \<longrightarrow>
          x = created_task pgts t' \<and> (\<exists>i. t' = t\<lparr>tID := i\<rparr>)) \<and>
     (TaskStore_GetByUID pg db (tTaskUID t) = Inr old \<and>
        TaskStore_Update pg now db t = (None, t', db') \<and>
        TaskStore_GetByUID pg db' (tTaskUID t) = Inr x \<longrightarrow>
          x = stored_task pgts old (t\<lparr>tUpdatedAt := now\<rparr>))"
proof -
  have st: "task_store (NewTaskStore pg) (task_db.task_view rows) pgts"
    using assms by (rule task_db.is_task_store)
  have sel: "ts_Create (NewTaskStore pg) = TaskStore_Create pg"
    "ts_Update (NewTaskStore pg) = TaskStore_Update pg"
    "ts_GetByUID (NewTaskStore pg) = TaskStore_GetByUID pg"
    by (simp_all add: NewTaskStore_def)
  show ?thesis
    using task_store.create_ok [OF st, of db t t' db'] task_store.get_ok [OF st, of db' "tTaskUID t" x]
      task_store.get_ok [OF st, of db "tTaskUID t" old]
      task_store.update_ok [OF st, of now db t t' db'] task_store.update_task [OF st, of now db t None t' db']
    by (auto simp: sel)
qed

theorem TaskStore_roundtrip_witness:
  "case TaskStore_Create mem_pg [] (NewTask ''u'' 5 ''n'' ''c'') of (r, db) \<Rightarrow>
     TaskStore_GetByUID mem_pg db ''u'' = r"
proof -
  let ?t = "NewTask ''u'' 5 ''n'' ''c''"
  obtain t' db where c: "TaskStore_Create mem_pg [] ?t = (Inr t', db)" and t': "t' = ?t\<lparr>tID := 1\<rparr>"
    by (simp add: TaskStore_Create_def json_Marshal_def mem_pg_def)
  have "db = [(task_columns ?t (Encoded (tEnv ?t)) (Encoded (tNodeSelector ?t)))\<lparr>r_id := 1\<rparr>]"
    using c by (simp add: TaskStore_Create_def json_Marshal_def mem_pg_def task_columns_def)
  then obtain x where g: "TaskStore_GetByUID mem_pg db (tTaskUID ?t) = Inr x"
    by (simp add: TaskStore_GetByUID_def mem_pg_def mem_rows_Cons task_columns_def)
  have "x = created_task (\<lambda>t. t) t'"
    using TaskStore_roundtrip [OF mem.task_db_axioms] c g by blast
  also have "\<dots> = t'" by (simp add: t' created_task_def NewTask_def zeroTask_def)
  finally show ?thesis using c g by (simp add: NewTask_def)
qed

text \<open>Two query results with the same rows and no ties are the same list.\<close>

lemma sorted_wrt_unique:
  "set xs = set ys \<Longrightarrow> distinct xs \<Longrightarrow> distinct ys \<Longrightarrow> sorted_wrt R xs \<Longrightarrow> sorted_wrt R ys \<Longrightarrow>
   (\<And>a b. a \<in> set xs \<Longrightarrow> b \<in> set xs \<Longrightarrow> R a b \<Longrightarrow> R b a \<Longrightarrow> a = b) \<Longrightarrow> xs = ys"
proof (induction xs arbitrary: ys)
  case (Cons x xs)
  then obtain y ys' where ys: "ys = y # ys'" by (cases ys) auto
  have "x = y"
  proof (rule ccontr)
    assume "x \<noteq> y"
    with Cons.prems(1) ys have "x \<in> set ys'" "y \<in> set xs" by auto
    with Cons.prems ys \<open>x \<noteq> y\<close> show False by auto
  qed
  moreover have "xs = ys'"
  proof (rule Cons.IH)
    show "set xs = set ys'"
      using Cons.prems(1-3) ys \<open>x = y\<close> by (simp add: insert_ident)
    show "a = b" if "a \<in> set xs" "b \<in> set xs" "R a b" "R b a" for a b
      using that Cons.prems(6) by simp
  qed (use Cons.prems ys in auto)
  ultimately show ?case using ys by simp
qed simp

lemma concat_pages:
  "0 < n \<Longrightarrow> concat (map (\<lambda>p. take n (drop (p * n) xs)) [0..<k]) = take (k * n) xs"
proof (induction k)
  case (Suc k)
  have "take (Suc k * n) xs = take (k * n) xs @ take n (drop (k * n) xs)"
    unfolding take_add [symmetric] by (simp add: add.commute)
  with Suc show ?case by simp
qed simp

text \<open>
  Paging is complete: when no two matching tasks tie on priority and creation time, the
  pages 1 to \<open>k\<close> of \<open>List\<close>, concatenated, are the first \<open>k * size\<close> matching tasks in the
  documented order (all of them once \<open>k * size\<close> reaches the reported total, each exactly
  once), and every page reports the number of matching tasks as the total.
\<close>

lemma TaskStore_List_pages:
  assumes db: "task_db pg rows pgts"
    and no_ties: "\<And>a b. a \<in> query_rows (rows db) (if status = [] then None else Some status) \<Longrightarrow>
        b \<in> query_rows (rows db) (if status = [] then None else Some status) \<Longrightarrow>
        sql_before a b \<Longrightarrow> sql_before b a \<Longrightarrow> a = b"
    and range: "0 < k" "0 < n" "int64_range (int (k * n))"
    and pages: "\<And>p. p < k \<Longrightarrow> TaskStore_List pg db status (int p + 1) (int n) = Inr (page p, tot p)"
  shows "\<exists>all. query_result (rows db) (if status = [] then None else Some status) all \<and>
      concat (map page [0..<k]) = take (k * n) (map scanTask all) \<and>
      (\<forall>p<k. tot p = int (length all))"
proof -
  let ?q = "query_result (rows db) (if status = [] then None else Some status)"
  have off: "nat (wrap64 (wrap64 (int p + 1 - 1) * int n)) = p * n" if "p < k" for p
  proof -
    have "p * n \<le> k * n" "p \<le> p * n" using that range(2) by simp_all
    then have "int64_range (int (p * n))" "int64_range (int p)"
      using range(3) unfolding int64_range_def by linarith+
    then show ?thesis by (simp add: go_arith nat_mult_distrib)
  qed
  have page: "\<exists>all. ?q all \<and> page p = map scanTask (take n (drop (p * n) all)) \<and> tot p = int (length all)"
    if "p < k" for p
    using task_db.list_ok [OF db pages [OF that]] off [OF that] by simp
  from page [OF range(1)] obtain all where all: "?q all" by blast
  have same: "xs = all" if "?q xs" for xs
    using that all no_ties unfolding query_result_def
    by (intro sorted_wrt_unique [of xs all sql_before]) (auto simp: distinct_map)
  have each: "page p = take n (drop (p * n) (map scanTask all)) \<and> tot p = int (length all)" if "p < k" for p
    using page [OF that] same by (auto simp: take_map drop_map)
  then have "concat (map page [0..<k]) = concat (map (\<lambda>p. take n (drop (p * n) (map scanTask all))) [0..<k])"
    by (intro arg_cong [where f = concat] map_cong) auto
  also have "\<dots> = take (k * n) (map scanTask all)"
    using range(2) by (rule concat_pages)
  finally show ?thesis using all each by blast
qed

definition two_rows :: "task_row list" where
  "two_rows = snd (TaskStore_Create mem_pg
     (snd (TaskStore_Create mem_pg [] (NewTask ''a'' 5 ''n'' ''c''))) (NewTask ''b'' 7 ''n'' ''c''))"

lemma TaskStore_List_pages_witness:
  "\<exists>all. concat (map (\<lambda>p. [(NewTask (if p = 0 then ''a'' else ''b'') (if p = 0 then 5 else 7) ''n'' ''c'')
       \<lparr>tID := int p + 1\<rparr>]) [0..<2]) = take (2 * 1) (map scanTask all) \<and> length all = 2"
proof -
  let ?page = "\<lambda>p. [(NewTask (if p = 0 then ''a'' else ''b'') (if p = 0 then 5 else 7) ''n'' ''c'')
       \<lparr>tID := int p + 1\<rparr>]"
  have two: "two_rows =
      [(task_columns (NewTask ''a'' 5 ''n'' ''c'') (Encoded []) (Encoded []))\<lparr>r_id := 1\<rparr>,
       (task_columns (NewTask ''b'' 7 ''n'' ''c'') (Encoded []) (Encoded []))\<lparr>r_id := 2\<rparr>]"
    by (simp add: two_rows_def TaskStore_Create_def json_Marshal_def mem_pg_def mem_rows_Cons
        task_columns_def NewTask_def zeroTask_def)
  have q: "mem_query two_rows None = two_rows"
    by (simp add: two mem_query_def task_columns_def NewTask_def zeroTask_def)
  have pages: "TaskStore_List mem_pg two_rows [] (int p + 1) (int 1) = Inr (?page p, 2)" if "p < 2" for p
  proof -
    from that consider "p = 0" | "p = 1" by linarith
    then show ?thesis
      by cases (simp_all add: TaskStore_List_def mem_pg_def q Let_def go_arith int64_range_def,
        simp_all add: two scanTask_def task_columns_def column_map_def NewTask_def zeroTask_def
          TaskStatus_of_string.simps)
  qed
  have ties: "a = b" if "a \<in> query_rows (mem_rows two_rows) None" "b \<in> query_rows (mem_rows two_rows) None"
    "sql_before a b" "sql_before b a" for a b
  proof -
    have "query_rows (mem_rows two_rows) None = set two_rows"
      using mem_query_result [of two_rows None] q by (simp add: query_result_def)
    with that have ab: "a \<in> set two_rows" "b \<in> set two_rows" by simp_all
    have "r_created_at a = r_created_at b" using that(3,4) by (auto simp: sql_before_def)
    moreover have "distinct (map r_created_at two_rows)"
      by (simp add: two task_columns_def NewTask_def)
    ultimately show ?thesis using ab by (simp add: distinct_map inj_on_def)
  qed
  have ex: "\<exists>all. query_result (mem_rows two_rows) None all \<and>
      concat (map ?page [0..<2]) = take (2 * 1) (map scanTask all) \<and>
      (\<forall>p<(2::nat). (\<lambda>p. 2) p = int (length all))"
    using TaskStore_List_pages [where status = "[]" and db = two_rows and k = 2 and n = 1
        and page = ?page and tot = "\<lambda>p. 2", OF mem.task_db_axioms] ties pages
    by (simp add: int64_range_def)
  then obtain all where all: "concat (map ?page [0..<2]) = take (2 * 1) (map scanTask all)"
    and len: "\<forall>p<(2::nat). (2::int) = int (length all)" by blast
  from len [rule_format, of 0] have "length all = 2" by simp
  with all show ?thesis by blast
qed

end
