(* ===== verification/Task_Queue.thy ===== *)
theory Task_Queue
  imports Task_Model
begin

text \<open>
  \<^verbatim>\<open>internal/queue/queue.go\<close>: the interface \<^verbatim>\<open>TaskQueue\<close>. A Go interface value is a record of its
  methods over the state type of the implementation (a value of type \<open>'q TaskQueue\<close>); every
  method takes the clock reading it may use.

  What the clients (the task service and the scheduler) rely on is the locale \<open>task_queue\<close>: in
  terms of the UIDs that are ready to be popped and of those that wait for their delay, no
  method invents a task, \<open>Pop\<close> takes out what it returns, and a delayed push does not make
  anything ready. \<open>reliable_queue\<close> is the stronger contract of an implementation that cannot
  lose a task. Client lemmas are proved here once; the interpretations are in the theories of
  the two implementations.
\<close>

record 'q TaskQueue =
  q_Push :: "go_time \<Rightarrow> 'q \<Rightarrow> Task \<Rightarrow> error option \<times> 'q"
  q_Pop :: "go_time \<Rightarrow> 'q \<Rightarrow> duration \<Rightarrow> Task option result \<times> 'q"
  q_PushPriority :: "go_time \<Rightarrow> 'q \<Rightarrow> Task \<Rightarrow> error option \<times> 'q"
  q_PushDelayed :: "go_time \<Rightarrow> 'q \<Rightarrow> Task \<Rightarrow> duration \<Rightarrow> error option \<times> 'q"
  q_Ack :: "'q \<Rightarrow> string \<Rightarrow> error option \<times> 'q"
  q_Size :: "'q \<Rightarrow> int result"
  q_Close :: "'q \<Rightarrow> error option \<times> 'q"

locale task_queue =
  fixes Q :: "'q TaskQueue"
    and inv :: "'q \<Rightarrow> bool"
    and ready :: "'q \<Rightarrow> string multiset"
    and waiting :: "'q \<Rightarrow> string multiset"
  assumes push: "inv q \<Longrightarrow> q_Push Q now q t = (r, q') \<Longrightarrow>
      inv q' \<and> ready q' \<subseteq># add_mset (tTaskUID t) (ready q) \<and> waiting q' = waiting q"
    and push_priority: "inv q \<Longrightarrow> q_PushPriority Q now q t = (r, q') \<Longrightarrow>
      inv q' \<and> ready q' \<subseteq># add_mset (tTaskUID t) (ready q) \<and> waiting q' = waiting q"
    and push_delayed: "inv q \<Longrightarrow> q_PushDelayed Q now q t d = (r, q') \<Longrightarrow>
      inv q' \<and> ready q' = ready q \<and> waiting q' \<subseteq># add_mset (tTaskUID t) (waiting q)"
    and pop_some: "inv q \<Longrightarrow> q_Pop Q now q d = (Inr (Some t), q') \<Longrightarrow>
      inv q' \<and> ready q = add_mset (tTaskUID t) (ready q') \<and> waiting q' = waiting q"
    and pop_other: "inv q \<Longrightarrow> q_Pop Q now q d = (p, q') \<Longrightarrow> \<forall>t. p \<noteq> Inr (Some t) \<Longrightarrow>
      inv q' \<and> ready q' \<subseteq># ready q \<and> waiting q' = waiting q"
begin

lemma pop_inv: "inv q \<Longrightarrow> q_Pop Q now q d = (r, q') \<Longrightarrow> inv q'"
  using pop_some pop_other by (metis (no_types, opaque_lifting))

lemma pop_decreases:
  "inv q \<Longrightarrow> q_Pop Q now q d = (Inr (Some t), q') \<Longrightarrow> size (ready q') < size (ready q)"
  using pop_some by fastforce

lemma pop_ready: "inv q \<Longrightarrow> q_Pop Q now q d = (Inr (Some t), q') \<Longrightarrow> tTaskUID t \<in># ready q"
  using pop_some by fastforce

lemma push_delayed_inv: "inv q \<Longrightarrow> inv (snd (q_PushDelayed Q now q t d))"
  using push_delayed by (metis prod.collapse)

lemma push_delayed_ready: "inv q \<Longrightarrow> ready (snd (q_PushDelayed Q now q t d)) = ready q"
  using push_delayed by (metis prod.collapse)

end

text \<open>The implementation keeps every task it accepted until it is popped, and says so.\<close>

locale reliable_queue = task_queue +
  fixes tasks :: "'q \<Rightarrow> Task multiset"
  assumes push_ok: "inv q \<Longrightarrow> q_Push Q now q t = (r, q') \<Longrightarrow>
      r = None \<and> tasks q' = add_mset t (tasks q)"
    and push_priority_ok: "inv q \<Longrightarrow> q_PushPriority Q now q t = (r, q') \<Longrightarrow>
      r = None \<and> tasks q' = add_mset t (tasks q)"
    and push_delayed_ok: "inv q \<Longrightarrow> q_PushDelayed Q now q t d = (r, q') \<Longrightarrow>
      r = None \<and> tasks q' = add_mset t (tasks q)"
    and pop_ok: "inv q \<Longrightarrow> q_Pop Q now q d = (p, q') \<Longrightarrow>
      (case p of Inr (Some t) \<Rightarrow> tasks q = add_mset t (tasks q')
               | Inr None \<Rightarrow> tasks q' = tasks q \<and> ready q = {#}
               | Inl _ \<Rightarrow> False)"
    and size_ok: "inv q \<Longrightarrow> q_Size Q q = Inr (int (size (tasks q)))"
begin

text \<open>Taking a task out and putting it back with a delay changes the set of tasks by nothing.\<close>

lemma defer_tasks:
  assumes "inv q" and "q_Pop Q now q d = (Inr (Some t), q1)"
    and "q_PushDelayed Q now q1 t d' = (r, q2)"
  shows "tasks q2 = tasks q"
  using pop_ok [OF assms(1,2)] push_delayed_ok [OF pop_inv [OF assms(1,2)] assms(3)] by simp

end

end
