(* ===== verification/Node_Model.thy ===== *)
theory Node_Model
  imports MB_Prelude Complex_Main "HOL-Library.Log_Nat" "HOL-Library.Signed_Division"
begin

text \<open>
  \<^verbatim>\<open>internal/model/node.go\<close>: the node record, its constructor and its two queries; and Go's
  \<^verbatim>\<open>float64\<close> arithmetic on finite normal values, which the node selection uses. A \<^verbatim>\<open>float64\<close> is the
  rational number it denotes, and an operation rounds its exact result to 53 significant bits,
  ties to even (\<open>fl64\<close>).
\<close>

section \<open>Floating point\<close>

definition floor_log2 :: "rat \<Rightarrow> int" where
  "floor_log2 x = (case quotient_of x of (p, q) \<Rightarrow>
     let k = int (floorlog 2 (nat p)) - int (floorlog 2 (nat q))
     in if 2 powi k \<le> x then k else k - 1)"

definition round_even :: "rat \<Rightarrow> int" where
  "round_even x = (let f = \<lfloor>x\<rfloor>; d = x - of_int f in
     if d < 1 / 2 then f else if d > 1 / 2 then f + 1 else if even f then f else f + 1)"

definition fl64 :: "rat \<Rightarrow> rat" where
  "fl64 x = (if x = 0 then 0
     else let u = 2 powi (floor_log2 \<bar>x\<bar> - 52) in of_int (round_even (x / u)) * u)"

text \<open>The conversion \<^verbatim>\<open>int(f)\<close> truncates towards zero.\<close>

definition go_trunc :: "rat \<Rightarrow> int" where
  "go_trunc x = (if x < 0 then - \<lfloor>- x\<rfloor> else \<lfloor>x\<rfloor>)"

text \<open>\<^verbatim>\<open>Duration.Seconds\<close>.\<close>

definition Seconds :: "duration \<Rightarrow> rat" where
  "Seconds d = fl64 (fl64 (of_int (d sdiv Second)) + fl64 (fl64 (of_int (d smod Second)) / of_int Second))"

lemma fl64_0 [simp]: "fl64 0 = 0"
  by (simp add: fl64_def)

lemma go_trunc_0 [simp]: "go_trunc 0 = 0"
  by (simp add: go_trunc_def)

section \<open>Nodes\<close>

datatype NodeStatus =
    NodeStatusOnline
  | NodeStatusOffline
  | NodeStatusDrain
  | NodeStatusCordon
  | NodeStatusOther string

fun NodeStatus_String :: "NodeStatus \<Rightarrow> string" where
  "NodeStatus_String NodeStatusOnline = ''online''"
| "NodeStatus_String NodeStatusOffline = ''offline''"
| "NodeStatus_String NodeStatusDrain = ''drain''"
| "NodeStatus_String NodeStatusCordon = ''cordon''"
| "NodeStatus_String (NodeStatusOther u) = u"

record Node =
  nID :: int
  nNodeID :: string
  nHostname :: string
  nIP :: string
  nVersion :: string
  nStatus :: NodeStatus
  nTotalCPU :: int
  nTotalMemoryMB :: int
  nTotalDiskMB :: int
  nCPUUsagePct :: rat
  nMemoryUsedMB :: int
  nDiskUsedMB :: int
  nLoadAvg1m :: rat
  nRunningTasks :: int
  nLabels :: "string list"
  nLastHeartbeatAt :: "go_time option"
  nRegisteredAt :: go_time
  nCreatedAt :: go_time
  nUpdatedAt :: go_time

definition NewNode ::
    "string \<Rightarrow> go_time \<Rightarrow> string \<Rightarrow> string \<Rightarrow> string \<Rightarrow> int \<Rightarrow> int \<Rightarrow> int \<Rightarrow> string list \<Rightarrow> Node" where
  "NewNode uuid now hostname ip version totalCPU totalMemMB totalDiskMB labels = \<lparr>
     nID = 0, nNodeID = uuid, nHostname = hostname, nIP = ip, nVersion = version,
     nStatus = NodeStatusOnline, nTotalCPU = totalCPU, nTotalMemoryMB = totalMemMB,
     nTotalDiskMB = totalDiskMB, nCPUUsagePct = 0, nMemoryUsedMB = 0, nDiskUsedMB = 0,
     nLoadAvg1m = 0, nRunningTasks = 0, nLabels = labels, nLastHeartbeatAt = None,
     nRegisteredAt = now, nCreatedAt = now, nUpdatedAt = now\<rparr>"

definition IsSchedulable :: "Node \<Rightarrow> bool" where
  "IsSchedulable n \<longleftrightarrow> nStatus n = NodeStatusOnline"

fun has_label :: "string list \<Rightarrow> string \<Rightarrow> bool" where
  "has_label [] label = False"
| "has_label (l # ls) label = (if l = label then True else has_label ls label)"

definition HasLabel :: "Node \<Rightarrow> string \<Rightarrow> bool" where
  "HasLabel n label = has_label (nLabels n) label"

lemma HasLabel_iff [simp]: "HasLabel n label \<longleftrightarrow> label \<in> set (nLabels n)"
proof -
  have "has_label ls label \<longleftrightarrow> label \<in> set ls" for ls
    by (induction ls) auto
  then show ?thesis by (simp add: HasLabel_def)
qed

end
