(* ===== verification/Task_Executor.thy ===== *)
theory Task_Executor
  imports Task_Model
begin

text \<open>
  \<^verbatim>\<open>internal/executor/executor.go\<close>: the executor of task processes. The operating system is an
  argument: a function from the command line, directory, environment and timeout that the
  executor sets up to what it observes of the child (the errors of the set-up calls, the bytes
  of the two pipes, the result of \<^verbatim>\<open>Wait\<close>, the error of the execution context). The concurrency
  slots are the buffered channel \<^verbatim>\<open>slots\<close> as a counter with a capacity. Log streaming is a call per line whose
  errors are only logged; it does not affect the result.
\<close>

record TaskResult =
  trExitCode :: int
  trStdout :: string
  trStderr :: string
  trTimedOut :: bool
  trError :: "error option"

definition zeroResult :: TaskResult where
  "zeroResult = \<lparr>trExitCode = 0, trStdout = [], trStderr = [], trTimedOut = False, trError = None\<rparr>"

section \<open>Slots\<close>

record Executor =
  exCapacity :: nat
  exSlots :: nat

definition NewExecutor :: "nat \<Rightarrow> Executor" where
  "NewExecutor maxConcurrent = \<lparr>exCapacity = maxConcurrent, exSlots = 0\<rparr>"

text \<open>\<open>None\<close> where the channel operation blocks.\<close>

definition acquireSlot :: "Executor \<Rightarrow> Executor option" where
  "acquireSlot e = (if exSlots e < exCapacity e then Some (e\<lparr>exSlots := exSlots e + 1\<rparr>) else None)"

definition releaseSlot :: "Executor \<Rightarrow> Executor option" where
  "releaseSlot e = (if exSlots e > 0 then Some (e\<lparr>exSlots := exSlots e - 1\<rparr>) else None)"

section \<open>The output streams\<close>

text \<open>
  \<^verbatim>\<open>bufio.Scanner\<close> with its default split function and buffer: lines without their end of line
  and without one carriage return before it, up to a line of 65536 bytes or more, where scanning
  stops.
\<close>

definition MaxScanTokenSize :: nat where
  "MaxScanTokenSize = 64 * 1024"

definition dropCR :: "string \<Rightarrow> string" where
  "dropCR l = (if l \<noteq> [] \<and> last l = CHR 0x0D then butlast l else l)"

fun take_valid :: "string list \<Rightarrow> string list" where
  "take_valid [] = []"
| "take_valid (l # ls) = (if length l \<ge> MaxScanTokenSize then [] else dropCR l # take_valid ls)"

definition scan_lines :: "string \<Rightarrow> string list" where
  "scan_lines s =
     (let ls = Split CHR 0x0A s
      in take_valid (if last ls = [] then butlast ls else ls))"

fun streamLoop :: "string list \<Rightarrow> string \<Rightarrow> string" where
  "streamLoop [] buf = buf"
| "streamLoop (line # lines) buf = streamLoop lines (buf @ line @ [CHR 0x0A])"

definition streamOutput :: "string \<Rightarrow> string" where
  "streamOutput pipe = streamLoop (scan_lines pipe) []"

section \<open>Run\<close>

record exec_cmd =
  ecName :: string
  ecArgs :: "string list"
  ecDir :: string
  ecEnv :: "string list"

text \<open>What the executor observes of one child process.\<close>

record os_run =
  osStdoutPipe :: "error option"
  osStderrPipe :: "error option"
  osStart :: "error option"
  osStdout :: string
  osStderr :: string
  osWait :: "error option"
  osCtxErr :: "error option"

definition Run_timeout :: "Task \<Rightarrow> duration" where
  "Run_timeout t = (if tTimeoutSec t \<le> 0 then 300 * Second else wrap64 (tTimeoutSec t * Second))"

definition Run_cmd :: "string list \<Rightarrow> Task \<Rightarrow> exec_cmd" where
  "Run_cmd environ t = \<lparr>
     ecName = ''sh'',
     ecArgs = [''-c'', tCommand t],
     ecDir = (if tWorkdir t \<noteq> [] then tWorkdir t else []),
     ecEnv = environ @ map (\<lambda>(k, v). k @ ''='' @ v) (tEnv t)\<rparr>"

text \<open>The result from what was observed: the part of \<^verbatim>\<open>Run\<close> after the slot was acquired.\<close>

definition Run_result :: "os_run \<Rightarrow> TaskResult" where
  "Run_result os =
     (case osStdoutPipe os of Some e \<Rightarrow> zeroResult\<lparr>trError := Some e\<rparr> | None \<Rightarrow>
      case osStderrPipe os of Some e \<Rightarrow> zeroResult\<lparr>trError := Some e\<rparr> | None \<Rightarrow>
      case osStart os of Some e \<Rightarrow> zeroResult\<lparr>trError := Some e\<rparr> | None \<Rightarrow>
      let result = zeroResult\<lparr>trStdout := streamOutput (osStdout os), trStderr := streamOutput (osStderr os)\<rparr>
      in case osWait os of
           Some err \<Rightarrow>
             if osCtxErr os = Some ErrDeadlineExceeded
             then result\<lparr>trTimedOut := True, trError := osCtxErr os\<rparr>
             else if osCtxErr os = Some ErrCanceled then result\<lparr>trError := osCtxErr os\<rparr>
             else (case err of
                     ErrExit code text \<Rightarrow> result\<lparr>trExitCode := code, trError := Some err\<rparr>
                   | _ \<Rightarrow> result\<lparr>trError := Some err\<rparr>)
         | None \<Rightarrow> result\<lparr>trExitCode := 0\<rparr>)"

definition Executor_Run :: "string list \<Rightarrow> (exec_cmd \<Rightarrow> duration \<Rightarrow> os_run) \<Rightarrow> Task \<Rightarrow> TaskResult" where
  "Executor_Run environ os t = Run_result (os (Run_cmd environ t) (Run_timeout t))"

section \<open>Lemmas\<close>

lemma slots_bounded:
  "exSlots e \<le> exCapacity e \<Longrightarrow> acquireSlot e = Some e' \<Longrightarrow>
     exSlots e' \<le> exCapacity e' \<and> releaseSlot e' = Some e"
  by (auto simp: acquireSlot_def releaseSlot_def split: if_splits)

lemma streamLoop_concat: "streamLoop ls buf = buf @ concat (map (\<lambda>l. l @ [CHR 0x0A]) ls)"
  by (induction ls arbitrary: buf) auto

text \<open>The lines of a text, each of them closed by an end of line, scan to themselves.\<close>

lemma Split_line: "c \<notin> set l \<Longrightarrow> Split c (l @ c # s) = l # Split c s"
  by (induction l) (auto split: list.splits)

lemma Split_lines:
  "\<forall>l \<in> set ls. c \<notin> set l \<Longrightarrow> Split c (concat (map (\<lambda>l. l @ [c]) ls)) = ls @ [[]]"
  by (induction ls) (auto simp: Split_line)

lemma take_valid_id:
  "\<forall>l \<in> set ls. length l < MaxScanTokenSize \<and> (l \<noteq> [] \<longrightarrow> last l \<noteq> CHR 0x0D) \<Longrightarrow> take_valid ls = ls"
  by (induction ls) (auto simp: dropCR_def)

section \<open>Properties\<close>

text \<open>
  The classification of outcomes: the result carries no error exactly when the set-up
  calls and \<open>Wait\<close> succeeded, it is marked timed out only with the deadline error of the
  context, and a non-zero exit code comes with that exit error and never with a timeout or a
  cancellation.
\<close>

lemma Run_result_classification:
  "let r = Run_result os in
     (trError r = None \<longleftrightarrow>
        osStdoutPipe os = None \<and> osStderrPipe os = None \<and> osStart os = None \<and> osWait os = None) \<and>
     (trTimedOut r \<longrightarrow> trError r = Some ErrDeadlineExceeded \<and> osCtxErr os = Some ErrDeadlineExceeded) \<and>
     (trExitCode r \<noteq> 0 \<longrightarrow> (\<exists>text. trError r = Some (ErrExit (trExitCode r) text)) \<and> \<not> trTimedOut r \<and>
        osCtxErr os \<notin> {Some ErrDeadlineExceeded, Some ErrCanceled})"
  by (auto simp: Run_result_def zeroResult_def Let_def split: option.splits error.splits)

lemma Run_result_classification_witness:
  "trExitCode (Run_result \<lparr>osStdoutPipe = None, osStderrPipe = None, osStart = None, osStdout = [],
      osStderr = [], osWait = Some (ErrExit 3 ''exit status 3''), osCtxErr = None\<rparr>) = 3"
proof -
  let ?os = "\<lparr>osStdoutPipe = None, osStderrPipe = None, osStart = None, osStdout = [],
      osStderr = [], osWait = Some (ErrExit 3 ''exit status 3''), osCtxErr = None\<rparr>"
  have "trExitCode (Run_result ?os) = 3" by (simp add: Run_result_def zeroResult_def)
  moreover from this have "\<exists>text. trError (Run_result ?os) = Some (ErrExit (trExitCode (Run_result ?os)) text)"
    using Run_result_classification [of ?os] unfolding Let_def by simp
  ultimately show ?thesis by simp
qed

text \<open>
  The captured output is the output: text made of lines that end in a newline, none of them
  64 KiB long or with a carriage return before the newline, is collected byte for byte.
\<close>

lemma streamOutput_faithful:
  assumes "\<forall>l \<in> set ls. CHR 0x0A \<notin> set l \<and> length l < 64 * 1024 \<and> (l \<noteq> [] \<longrightarrow> last l \<noteq> CHR 0x0D)"
  shows "streamOutput (concat (map (\<lambda>l. l @ [CHR 0x0A]) ls)) = concat (map (\<lambda>l. l @ [CHR 0x0A]) ls)"
proof -
  have "scan_lines (concat (map (\<lambda>l. l @ [CHR 0x0A]) ls)) = ls"
    using assms by (simp add: scan_lines_def Split_lines take_valid_id MaxScanTokenSize_def)
  then show ?thesis by (simp add: streamOutput_def streamLoop_concat)
qed

lemma streamOutput_faithful_witness:
  "streamOutput (''ok'' @ [CHR 0x0A]) = ''ok'' @ [CHR 0x0A]"
  using streamOutput_faithful [of "[''ok'']"] by simp

end
