(* ===== verification/Task_Scheduler.thy ===== *)
theory Task_Scheduler
  imports Task_Store Task_Queue Node_Model Task_Executor
begin

text \<open>
  \<^verbatim>\<open>internal/scheduler/scheduler.go\<close>: the scheduler with every operation of the file. Its state
  is a record of what the struct holds: the interface values of store, queue, node manager, etcd
  and Redis (each a record of methods) next to the state these work on, the configuration, the
  map of cancel functions and the task channels of the nodes; and what the runtime holds for it:
  the contexts that were cancelled and the goroutines that wait for \<^verbatim>\<open>executor.Run\<close>. A handler of the
  code is a function on this state; all clock readings of one handler are one argument. A panic sets
  \<open>sPanicked\<close>.

  The lemmas and properties that speak of these definitions are in \<^verbatim>\<open>Scheduler_Props\<close>.
\<close>

section \<open>Services the scheduler calls\<close>

text \<open>Redis statistics: \<^verbatim>\<open>HIncrBy\<close>, whose result the code drops, and the local calendar date of a
  clock reading.\<close>

record 'r redis_stats =
  rs_HIncrBy :: "'r \<Rightarrow> string \<Rightarrow> string \<Rightarrow> int \<Rightarrow> 'r"
  rs_Date :: "go_time \<Rightarrow> string"

text \<open>etcd: the transaction \<^verbatim>\<open>If(Version(key) = 0).Then(Put(key, val, lease)).Else(Get(key))\<close>, with
  its \<^verbatim>\<open>Succeeded\<close> flag.\<close>

record 'e etcd_txn =
  et_PutIfAbsent :: "'e \<Rightarrow> string \<Rightarrow> string \<Rightarrow> int \<Rightarrow> bool result \<times> 'e"

section \<open>State\<close>

record ('db, 'q, 'r, 'e) Scheduler =
  sStore :: "'db TaskStore"
  sDB :: 'db
  sNodeMgr :: "(string_map \<Rightarrow> Node list) option"
  sTickInterval :: duration
  sMaxConcurrent :: int
  sTotalCPU :: int
  sTotalMemMB :: int
  sRdb :: "'r redis_stats option"
  sRedis :: 'r
  sCancelFuncs :: "string \<rightharpoonup> nat"
  sQueue :: "'q TaskQueue option"
  sQ :: 'q
  sNodeTasks :: "string \<rightharpoonup> Task list"
  sEtcd :: "'e etcd_txn option"
  sEtcdState :: 'e
  sSchedulerID :: string
  sLeaseID :: int
  sNextCtx :: nat
  sCancelled :: "nat list"
  sGoroutines :: "(nat \<times> Task) list"
  sPanicked :: bool

definition maxRetryDelay :: duration where
  "maxRetryDelay = 5 * Minute"

definition nodeQueueCap :: nat where
  "nodeQueueCap = 10"

definition NewScheduler ::
    "'db TaskStore \<Rightarrow> 'db \<Rightarrow> duration \<Rightarrow> int \<Rightarrow> 'r redis_stats option \<Rightarrow> 'r \<Rightarrow> 'q TaskQueue option \<Rightarrow> 'q \<Rightarrow>
     'e etcd_txn option \<Rightarrow> 'e \<Rightarrow> int \<Rightarrow> string \<Rightarrow> int \<Rightarrow> ('db, 'q, 'r, 'e) Scheduler" where
  "NewScheduler store db tickInterval maxConcurrent rdb r queue q etcd e leaseID uuid numCPU = \<lparr>
     sStore = store, sDB = db, sNodeMgr = None, sTickInterval = tickInterval,
     sMaxConcurrent = maxConcurrent, sTotalCPU = numCPU, sTotalMemMB = 8192,
     sRdb = rdb, sRedis = r, sCancelFuncs = Map.empty, sQueue = queue, sQ = q,
     sNodeTasks = Map.empty, sEtcd = etcd, sEtcdState = e,
     sSchedulerID = ''scheduler-'' @ take 8 uuid, sLeaseID = leaseID,
     sNextCtx = 0, sCancelled = [], sGoroutines = [], sPanicked = False\<rparr>"

definition SetNodeManager ::
    "('db, 'q, 'r, 'e) Scheduler \<Rightarrow> (string_map \<Rightarrow> Node list) \<Rightarrow> ('db, 'q, 'r, 'e) Scheduler" where
  "SetNodeManager s nm = s\<lparr>sNodeMgr := Some nm\<rparr>"

definition GetTotalResources :: "('db, 'q, 'r, 'e) Scheduler \<Rightarrow> int \<times> int" where
  "GetTotalResources s = (sTotalCPU s, sTotalMemMB s)"

text \<open>\<^verbatim>\<open>s.store.Update\<close> on the scheduler's state: the error, the stamped task, the new state.\<close>

definition storeUpdate ::
    "go_time \<Rightarrow> ('db, 'q, 'r, 'e) Scheduler \<Rightarrow> Task \<Rightarrow> error option \<times> Task \<times> ('db, 'q, 'r, 'e) Scheduler" where
  "storeUpdate now s t =
     (case ts_Update (sStore s) now (sDB s) t of (err, t', db') \<Rightarrow> (err, t', s\<lparr>sDB := db'\<rparr>))"

definition countDaily ::
    "go_time \<Rightarrow> ('db, 'q, 'r, 'e) Scheduler \<Rightarrow> string \<Rightarrow> ('db, 'q, 'r, 'e) Scheduler" where
  "countDaily now s field =
     (case sRdb s of
        None \<Rightarrow> s
      | Some rdb \<Rightarrow> s\<lparr>sRedis := rs_HIncrBy rdb (sRedis s) (''stats:daily:'' @ rs_Date rdb now) field 1\<rparr>)"

section \<open>Results\<close>

fun errorString :: "error \<Rightarrow> string" where
  "errorString (ErrOther s) = s"
| "errorString (ErrWrap p e) = p @ '': '' @ errorString e"
| "errorString ErrTaskNotFound = ''task not found''"
| "errorString ErrNoRows = ''sql: no rows in result set''"
| "errorString ErrRedisNil = ''redis: nil''"
| "errorString (ErrInvalidTransition a b) = ''invalid status transition: '' @ a @ '' -> '' @ b"
| "errorString ErrAlreadyTerminal = ''task already terminal''"
| "errorString (ErrDuplicateTask u) = ''duplicate task: '' @ u"
| "errorString ErrNoNodeMatching = ''no node matching labels''"
| "errorString ErrNoNodeResources = ''no node with sufficient resources''"
| "errorString ErrDeadlineExceeded = ''context deadline exceeded''"
| "errorString ErrCanceled = ''context canceled''"
| "errorString (ErrExit code text) = text"
| "errorString (ErrRemote m) = m"

text \<open>The backoff of a retry: \<^verbatim>\<open>time.Duration(interval) * time.Second * time.Duration(1<<count)\<close>, each
  product at 64 bits, capped from above.\<close>

definition retryDelay :: "int \<Rightarrow> int \<Rightarrow> duration option" where
  "retryDelay interval retryCount =
     (case shl64 1 retryCount of
        None \<Rightarrow> None
      | Some factor \<Rightarrow>
          (let delay = wrap64 (wrap64 (interval * Second) * factor)
           in Some (if delay > maxRetryDelay then maxRetryDelay else delay)))"

definition failTask ::
    "go_time \<Rightarrow> ('db, 'q, 'r, 'e) Scheduler \<Rightarrow> Task \<Rightarrow> string \<Rightarrow> ('db, 'q, 'r, 'e) Scheduler" where
  "failTask now s task errMsg =
     (let t0 = task\<lparr>tErrorMessage := errMsg\<rparr> in
      if CanRetry t0 then
        (let t1 = t0\<lparr>tRetryCount := tRetryCount t0 + 1, tStatus := TaskStatusPending, tFinishedAt := None\<rparr>
         in case storeUpdate now s t1 of
              (Some e, t2, s1) \<Rightarrow> s1
            | (None, t2, s1) \<Rightarrow>
                (case sQueue s1 of
                   None \<Rightarrow> s1
                 | Some Q \<Rightarrow>
                     (case retryDelay (tRetryIntervalSec t2) (tRetryCount t2) of
                        None \<Rightarrow> s1\<lparr>sPanicked := True\<rparr>
                      | Some delay \<Rightarrow> s1\<lparr>sQ := snd (q_PushDelayed Q now (sQ s1) t2 delay)\<rparr>)))
      else
        (let t1 = t0\<lparr>tFinishedAt := Some now\<rparr> in
         case TransitionTo now t1 TaskStatusFailed of
           Inl e \<Rightarrow> s
         | Inr t2 \<Rightarrow>
             (case storeUpdate now s t2 of (err, t3, s1) \<Rightarrow> countDaily now s1 ''failed'')))"

definition completeTask ::
    "go_time \<Rightarrow> ('db, 'q, 'r, 'e) Scheduler \<Rightarrow> Task \<Rightarrow> TaskResult \<Rightarrow> ('db, 'q, 'r, 'e) Scheduler" where
  "completeTask now s task result =
     (let t1 = task\<lparr>tStdout := trStdout result, tStderr := trStderr result, tFinishedAt := Some now\<rparr> in
      case trError result of
        Some err \<Rightarrow>
          if trTimedOut result then failTask now s t1 ''task timed out''
          else failTask now s t1 (errorString err)
      | None \<Rightarrow>
          (case TransitionTo now (t1\<lparr>tExitCode := Some (trExitCode result)\<rparr>) TaskStatusSuccess of
             Inl e \<Rightarrow> s
           | Inr t2 \<Rightarrow>
               (case storeUpdate now s t2 of (err, t3, s1) \<Rightarrow> countDaily now s1 ''success'')))"

section \<open>Selection and claims\<close>

definition canAllocate :: "Task \<Rightarrow> int \<Rightarrow> int \<Rightarrow> bool" where
  "canAllocate t availableCPU availableMem =
     (if tCPULimit t > 0 \<and> tCPULimit t > availableCPU then False
      else if tMemoryLimit t > 0 \<and> tMemoryLimit t > availableMem then False
      else True)"

definition nodeAvailableCPU :: "Node \<Rightarrow> int" where
  "nodeAvailableCPU n =
     nTotalCPU n - go_trunc (fl64 (fl64 (fl64 (of_int (nTotalCPU n)) * nCPUUsagePct n) / 100))"

definition nodeAvailableMem :: "Node \<Rightarrow> int" where
  "nodeAvailableMem n = nTotalMemoryMB n - nMemoryUsedMB n"

definition nodeFits :: "Task \<Rightarrow> Node \<Rightarrow> bool" where
  "nodeFits t n \<longleftrightarrow>
     (tCPULimit t = 0 \<or> tCPULimit t \<le> nodeAvailableCPU n) \<and>
     (tMemoryLimit t = 0 \<or> tMemoryLimit t \<le> nodeAvailableMem n)"

text \<open>The filter loop over the candidates.\<close>

fun filterNodes :: "Task \<Rightarrow> Node list \<Rightarrow> Node list \<Rightarrow> Node list" where
  "filterNodes t [] filtered = filtered"
| "filterNodes t (n # ns) filtered =
     filterNodes t ns (if nodeFits t n then filtered @ [n] else filtered)"

text \<open>\<^verbatim>\<open>sort.Slice\<close> by the CPU usage: any sorted permutation may come out (the function is not
  stable); \<open>sortSlice\<close> is one of them, and only the first node is used.\<close>

definition sortSlice :: "Node list \<Rightarrow> Node list" where
  "sortSlice ns = sort_key nCPUUsagePct ns"

definition SelectNode ::
    "(Node list \<Rightarrow> Node list) \<Rightarrow> ('db, 'q, 'r, 'e) Scheduler \<Rightarrow> Task \<Rightarrow> Node option result" where
  "SelectNode sorting s t =
     (case sNodeMgr s of
        None \<Rightarrow> Inr None
      | Some findByLabels \<Rightarrow>
          (let candidates = findByLabels (tNodeSelector t) in
           if length candidates = 0 then Inl ErrNoNodeMatching
           else let filtered = filterNodes t candidates [] in
                if length filtered = 0 then Inl ErrNoNodeResources
                else Inr (Some (hd (sorting filtered)))))"

definition claimKey :: "string \<Rightarrow> string" where
  "claimKey uid = ''/tasks/claimed/'' @ uid"

definition ClaimTask ::
    "('db, 'q, 'r, 'e) Scheduler \<Rightarrow> string \<Rightarrow> bool result \<times> ('db, 'q, 'r, 'e) Scheduler" where
  "ClaimTask s uid =
     (case sEtcd s of
        None \<Rightarrow> (Inr True, s)
      | Some E \<Rightarrow>
          (case et_PutIfAbsent E (sEtcdState s) (claimKey uid) (sSchedulerID s) (sLeaseID s) of
             (Inl e, st) \<Rightarrow> (Inl (ErrWrap ''claim task'' e), s\<lparr>sEtcdState := st\<rparr>)
           | (Inr succeeded, st) \<Rightarrow> (Inr succeeded, s\<lparr>sEtcdState := st\<rparr>)))"

section \<open>Dispatch\<close>

text \<open>\<^verbatim>\<open>context.WithCancel\<close> and the entry in the cancel map; then the goroutine of a local run.\<close>

definition registerCancel ::
    "('db, 'q, 'r, 'e) Scheduler \<Rightarrow> string \<Rightarrow> ('db, 'q, 'r, 'e) Scheduler" where
  "registerCancel s uid =
     s\<lparr>sCancelFuncs := (sCancelFuncs s)(uid \<mapsto> sNextCtx s), sNextCtx := sNextCtx s + 1\<rparr>"

definition spawnLocal ::
    "('db, 'q, 'r, 'e) Scheduler \<Rightarrow> nat \<Rightarrow> Task \<Rightarrow> ('db, 'q, 'r, 'e) Scheduler" where
  "spawnLocal s ctx t = s\<lparr>sGoroutines := sGoroutines s @ [(ctx, t)]\<rparr>"

definition dispatchLocal ::
    "go_time \<Rightarrow> ('db, 'q, 'r, 'e) Scheduler \<Rightarrow> Task \<Rightarrow> ('db, 'q, 'r, 'e) Scheduler" where
  "dispatchLocal now s task =
     (case TransitionTo now task TaskStatusRunning of
        Inl e \<Rightarrow> s
      | Inr t1 \<Rightarrow>
          (case storeUpdate now s (t1\<lparr>tStartedAt := Some now\<rparr>) of
             (Some e, t2, s1) \<Rightarrow> s1
           | (None, t2, s1) \<Rightarrow> spawnLocal (registerCancel s1 (tTaskUID t2)) (sNextCtx s1) t2))"

definition getOrCreateNodeQueue ::
    "('db, 'q, 'r, 'e) Scheduler \<Rightarrow> string \<Rightarrow> Task list \<times> ('db, 'q, 'r, 'e) Scheduler" where
  "getOrCreateNodeQueue s nodeID =
     (case sNodeTasks s nodeID of
        None \<Rightarrow> ([], s\<lparr>sNodeTasks := (sNodeTasks s)(nodeID \<mapsto> [])\<rparr>)
      | Some ch \<Rightarrow> (ch, s))"

definition dispatchRemote ::
    "go_time \<Rightarrow> ('db, 'q, 'r, 'e) Scheduler \<Rightarrow> Task \<Rightarrow> Node \<Rightarrow> ('db, 'q, 'r, 'e) Scheduler" where
  "dispatchRemote now s task node =
     (case TransitionTo now task TaskStatusRunning of
        Inl e \<Rightarrow> s
      | Inr t1 \<Rightarrow>
          (case storeUpdate now s (t1\<lparr>tAssignedNodeID := nNodeID node, tStartedAt := Some now\<rparr>) of
             (Some e, t2, s1) \<Rightarrow> s1
           | (None, t2, s1) \<Rightarrow>
               (let ctx = sNextCtx s1;
                    (ch, s2) = getOrCreateNodeQueue (registerCancel s1 (tTaskUID t2)) (nNodeID node)
                in if length ch < nodeQueueCap
                   then s2\<lparr>sNodeTasks := (sNodeTasks s2)(nNodeID node \<mapsto> ch @ [t2])\<rparr>
                   else spawnLocal s2 ctx t2)))"

definition dispatch ::
    "(Node list \<Rightarrow> Node list) \<Rightarrow> go_time \<Rightarrow> ('db, 'q, 'r, 'e) Scheduler \<Rightarrow> Task \<Rightarrow> ('db, 'q, 'r, 'e) Scheduler" where
  "dispatch sorting now s task =
     (case ClaimTask s (tTaskUID task) of
        (Inl e, s1) \<Rightarrow> s1
      | (Inr claimed, s1) \<Rightarrow>
          if \<not> claimed then s1
          else
            (let place = (\<lambda>s2 t.
                   case SelectNode sorting s2 t of
                     Inl e \<Rightarrow> dispatchLocal now s2 t
                   | Inr None \<Rightarrow> dispatchLocal now s2 t
                   | Inr (Some node) \<Rightarrow> dispatchRemote now s2 t node)
             in if tStatus task = TaskStatusCreated then
                  (case TransitionTo now task TaskStatusPending of
                     Inl e \<Rightarrow> s1
                   | Inr t1 \<Rightarrow>
                       (case storeUpdate now s1 t1 of
                          (Some e, t2, s2) \<Rightarrow> s2
                        | (None, t2, s2) \<Rightarrow> place s2 t2))
                else place s1 task))"

section \<open>The tick\<close>

definition timedOut :: "go_time \<Rightarrow> Task \<Rightarrow> bool" where
  "timedOut now t =
     (case tStartedAt t of
        None \<Rightarrow> False
      | Some started \<Rightarrow>
          tTimeoutSec t > 0 \<and> now > started + wrap64 (tTimeoutSec t * Second))"

text \<open>The loop over the running tasks: the allocated CPU and memory, and the timeouts.\<close>

fun checkRunning ::
    "go_time \<Rightarrow> Task list \<Rightarrow> int \<Rightarrow> int \<Rightarrow> ('db, 'q, 'r, 'e) Scheduler \<Rightarrow> int \<times> int \<times> ('db, 'q, 'r, 'e) Scheduler" where
  "checkRunning now [] cpu mem s = (cpu, mem, s)"
| "checkRunning now (t # ts) cpu mem s =
     (if sPanicked s then (cpu, mem, s)
      else checkRunning now ts (wrap64 (cpu + tCPULimit t)) (wrap64 (mem + tMemoryLimit t))
             (if timedOut now t then failTask now s t ''task timed out'' else s))"

text \<open>
  The loop over the queue, with fuel: \<open>None\<close> if it has not ended after so many iterations. Next
  to the state it returns the tasks handed to \<open>dispatch\<close> and those pushed back, in order.
\<close>

fun tickLoop ::
    "nat \<Rightarrow> (Node list \<Rightarrow> Node list) \<Rightarrow> go_time \<Rightarrow> int \<Rightarrow> int \<Rightarrow> int \<Rightarrow> ('db, 'q, 'r, 'e) Scheduler \<Rightarrow>
     (('db, 'q, 'r, 'e) Scheduler \<times> Task list \<times> Task list) option" where
  "tickLoop 0 sorting now cpu mem slots s = None"
| "tickLoop (Suc fuel) sorting now cpu mem slots s =
     (if \<not> slots > 0 \<or> sPanicked s then Some (s, [], [])
      else case sQueue s of
        None \<Rightarrow> Some (s\<lparr>sPanicked := True\<rparr>, [], [])
      | Some Q \<Rightarrow>
          (case q_Pop Q now (sQ s) (100 * Millisecond) of
             (Inr (Some t), q1) \<Rightarrow>
               if canAllocate t cpu mem then
                 map_option (\<lambda>(s', ds, fs). (s', t # ds, fs))
                   (tickLoop fuel sorting now (wrap64 (cpu - tCPULimit t)) (wrap64 (mem - tMemoryLimit t))
                      (slots - 1) (dispatch sorting now (s\<lparr>sQ := q1\<rparr>) t))
               else
                 map_option (\<lambda>(s', ds, fs). (s', ds, t # fs))
                   (tickLoop fuel sorting now cpu mem slots
                      (s\<lparr>sQ := snd (q_PushDelayed Q now q1 t (1 * Second))\<rparr>))
           | (_, q1) \<Rightarrow> Some (s\<lparr>sQ := q1\<rparr>, [], [])))"

definition tick ::
    "nat \<Rightarrow> (Node list \<Rightarrow> Node list) \<Rightarrow> go_time \<Rightarrow> ('db, 'q, 'r, 'e) Scheduler \<Rightarrow>
     (('db, 'q, 'r, 'e) Scheduler \<times> Task list \<times> Task list) option" where
  "tick fuel sorting now s =
     (case ts_GetRunningTasks (sStore s) (sDB s) of
        Inl e \<Rightarrow> Some (s, [], [])
      | Inr runningTasks \<Rightarrow>
          (case checkRunning now runningTasks 0 0 s of
             (allocatedCPU, allocatedMem, s1) \<Rightarrow>
               (let availableCPU = wrap64 (sTotalCPU s1 - allocatedCPU);
                    availableMem = wrap64 (sTotalMemMB s1 - allocatedMem);
                    availableSlots = wrap64 (sMaxConcurrent s1 - int (length runningTasks))
                in if availableSlots \<le> 0 then Some (s1, [], [])
                   else tickLoop fuel sorting now availableCPU availableMem availableSlots s1)))"

section \<open>Other handlers\<close>

definition GetNextTaskForNode ::
    "('db, 'q, 'r, 'e) Scheduler \<Rightarrow> string \<Rightarrow> Task option \<times> ('db, 'q, 'r, 'e) Scheduler" where
  "GetNextTaskForNode s nodeID =
     (case sNodeTasks s nodeID of
        None \<Rightarrow> (None, s)
      | Some [] \<Rightarrow> (None, s)
      | Some (t # ts) \<Rightarrow> (Some t, s\<lparr>sNodeTasks := (sNodeTasks s)(nodeID \<mapsto> ts)\<rparr>))"

definition deleteCancel ::
    "('db, 'q, 'r, 'e) Scheduler \<Rightarrow> string \<Rightarrow> ('db, 'q, 'r, 'e) Scheduler" where
  "deleteCancel s uid = s\<lparr>sCancelFuncs := (sCancelFuncs s)(uid := None)\<rparr>"

definition HandleRemoteResult ::
    "go_time \<Rightarrow> ('db, 'q, 'r, 'e) Scheduler \<Rightarrow> string \<Rightarrow> TaskResult \<Rightarrow> ('db, 'q, 'r, 'e) Scheduler" where
  "HandleRemoteResult now s uid result =
     (case ts_GetByUID (sStore s) (sDB s) uid of
        Inl e \<Rightarrow> s
      | Inr task \<Rightarrow> completeTask now (deleteCancel s uid) task result)"

text \<open>The end of the \<open>i\<close>-th local goroutine, with the result of its \<^verbatim>\<open>executor.Run\<close>: the task is
  completed and then the deferred function removes the cancel entry.\<close>

definition goroutineDone ::
    "go_time \<Rightarrow> ('db, 'q, 'r, 'e) Scheduler \<Rightarrow> nat \<Rightarrow> TaskResult \<Rightarrow> ('db, 'q, 'r, 'e) Scheduler" where
  "goroutineDone now s i result =
     (if i < length (sGoroutines s) then
        (case sGoroutines s ! i of (ctx, t) \<Rightarrow>
           deleteCancel
             (completeTask now
                (s\<lparr>sGoroutines := take i (sGoroutines s) @ drop (i + 1) (sGoroutines s)\<rparr>) t result)
             (tTaskUID t))
      else s)"

text \<open>One message of the subscription to \<^verbatim>\<open>tasks:cancel:*\<close>.\<close>

definition onCancelMessage ::
    "('db, 'q, 'r, 'e) Scheduler \<Rightarrow> string \<Rightarrow> ('db, 'q, 'r, 'e) Scheduler" where
  "onCancelMessage s channel =
     (let uid = TrimPrefix channel ''tasks:cancel:'' in
      case sCancelFuncs s uid of
        None \<Rightarrow> s
      | Some ctx \<Rightarrow> deleteCancel (s\<lparr>sCancelled := sCancelled s @ [ctx]\<rparr>) uid)"

text \<open>\<^verbatim>\<open>fmt.Sscanf(value, "%d", &val)\<close> into a zero \<^verbatim>\<open>val\<close>: leading blanks, a sign, decimal digits (with
  underscores), and 0 where nothing or no 64-bit value can be read.\<close>

fun scan_digits :: "string \<Rightarrow> string" where
  "scan_digits [] = []"
| "scan_digits (c # cs) =
     (if CHR ''0'' \<le> c \<and> c \<le> CHR ''9'' then c # scan_digits cs
      else if c = CHR ''_'' then scan_digits cs
      else [])"

definition digits_value :: "string \<Rightarrow> int" where
  "digits_value ds = foldl (\<lambda>n c. n * 10 + (of_char c - 48)) 0 ds"

definition Sscanf_d :: "string \<Rightarrow> int" where
  "Sscanf_d s =
     (let s1 = dropWhile (\<lambda>c. c \<in> {CHR '' '', CHR 0x09}) s;
          (neg, s2) = (case s1 of [] \<Rightarrow> (False, [])
             | c # cs \<Rightarrow> if c = CHR ''-'' then (True, cs) else if c = CHR ''+'' then (False, cs) else (False, s1));
          ds = scan_digits s2;
          v = (if neg then - digits_value ds else digits_value ds)
      in if ds = [] \<or> \<not> int64_range v then 0 else v)"

definition onConfigChange ::
    "('db, 'q, 'r, 'e) Scheduler \<Rightarrow> string \<Rightarrow> string \<Rightarrow> ('db, 'q, 'r, 'e) Scheduler" where
  "onConfigChange s key val =
     (if HasSuffix key ''/max_concurrent_tasks'' then
        (let v = Sscanf_d val in if v > 0 then s\<lparr>sMaxConcurrent := v\<rparr> else s)
      else if HasSuffix key ''/tick_interval_ms'' then
        (let v = Sscanf_d val in if v > 0 then s\<lparr>sTickInterval := wrap64 (v * Millisecond)\<rparr> else s)
      else s)"

end
