(* ===== verification/Go_Heap.thy ===== *)
theory Go_Heap
  imports MB_Prelude
begin

text \<open>
  Go's \<^verbatim>\<open>container/heap\<close> (\<^verbatim>\<open>up\<close>, \<^verbatim>\<open>down\<close>, \<^verbatim>\<open>Push\<close>, \<^verbatim>\<open>Pop\<close>), as the priority queue of
  \<^verbatim>\<open>internal/queue/inmem.go\<close> uses it. The functions take the \<^verbatim>\<open>Less\<close> method of the
  \<^verbatim>\<open>heap.Interface\<close> value as an argument. The locale \<open>heap_interface\<close> states what the package
  asks of that method (it compares a key of the two elements) and proves once that \<open>Push\<close> and
  \<open>Pop\<close> keep the heap order, lose and invent no element, and that \<open>Pop\<close> returns a
  first element of the order.
\<close>

section \<open>The package\<close>

text \<open>The parent of an index, \<^verbatim>\<open>(j - 1) / 2\<close>; Go's division truncates, so the parent of 0 is 0.\<close>

definition par :: "nat \<Rightarrow> nat" where
  "par k = (k - 1) div 2"

lemma par_0 [simp]: "par 0 = 0"
  by (simp add: par_def)

lemma par_eq: "0 < k \<Longrightarrow> par k = i \<longleftrightarrow> k = 2 * i + 1 \<or> k = 2 * i + 2"
  by (auto simp: par_def)

lemma par_less: "0 < k \<Longrightarrow> par k < k"
  by (auto simp: par_def)

lemma par_le: "par k \<le> k"
  by (simp add: par_def)

lemma par_less_trans: "k < n \<Longrightarrow> par k < n"
  using par_le [of k] by simp

lemma par_fix: "par k = k \<longleftrightarrow> k = 0"
  using par_less [of k] by (cases "k = 0") auto

function heap_up :: "('a list \<Rightarrow> nat \<Rightarrow> nat \<Rightarrow> bool) \<Rightarrow> 'a list \<Rightarrow> nat \<Rightarrow> 'a list" where
  "heap_up lt xs j =
     (let i = par j
      in if i = j \<or> \<not> lt xs j i then xs else heap_up lt (swap xs i j) i)"
  by pat_completeness auto
termination
  by (relation "measure (\<lambda>(lt, xs, j). j)") (auto simp: par_def)

function heap_down :: "('a list \<Rightarrow> nat \<Rightarrow> nat \<Rightarrow> bool) \<Rightarrow> 'a list \<Rightarrow> nat \<Rightarrow> nat \<Rightarrow> 'a list" where
  "heap_down lt xs i n =
     (let j1 = 2 * i + 1
      in if j1 \<ge> n then xs
         else let j = (if j1 + 1 < n \<and> lt xs (j1 + 1) j1 then j1 + 1 else j1)
              in if \<not> lt xs j i then xs else heap_down lt (swap xs i j) j n)"
  by pat_completeness auto
termination
  by (relation "measure (\<lambda>(lt, xs, i, n). n - i)") (auto simp: Let_def)

declare heap_up.simps [simp del] heap_down.simps [simp del]

definition heap_Push :: "('a list \<Rightarrow> nat \<Rightarrow> nat \<Rightarrow> bool) \<Rightarrow> 'a list \<Rightarrow> 'a \<Rightarrow> 'a list" where
  "heap_Push lt xs x = heap_up lt (xs @ [x]) (length xs)"

text \<open>\<open>heap_Pop\<close> is called on a non-empty heap only: the element and what is left.\<close>

definition heap_Pop :: "('a list \<Rightarrow> nat \<Rightarrow> nat \<Rightarrow> bool) \<Rightarrow> 'a list \<Rightarrow> 'a \<times> 'a list" where
  "heap_Pop lt xs =
     (let n = length xs - 1; ys = heap_down lt (swap xs 0 n) 0 n
      in (last ys, butlast ys))"

section \<open>Shape\<close>

lemma length_heap_up [simp]: "length (heap_up lt xs j) = length xs"
  by (induction lt xs j rule: heap_up.induct)
    (subst heap_up.simps, auto simp: Let_def)

lemma length_heap_down [simp]: "length (heap_down lt xs i n) = length xs"
  by (induction lt xs i n rule: heap_down.induct)
    (subst heap_down.simps, auto simp: Let_def)

lemma mset_heap_up [simp]: "j < length xs \<Longrightarrow> mset (heap_up lt xs j) = mset xs"
proof (induction lt xs j rule: heap_up.induct)
  case (1 lt xs j)
  have "par j < length xs" using "1.prems" by (simp add: par_less_trans)
  with 1 show ?case by (subst heap_up.simps) (auto simp: Let_def)
qed

lemma heap_down_shape:
  "n \<le> length xs \<Longrightarrow>
     mset (heap_down lt xs i n) = mset xs \<and>
     (\<forall>k. n \<le> k \<longrightarrow> k < length xs \<longrightarrow> heap_down lt xs i n ! k = xs ! k)"
proof (induction lt xs i n rule: heap_down.induct)
  case (1 lt xs i n)
  show ?case
  proof (cases "2 * i + 1 \<ge> n")
    case True
    then show ?thesis by (subst (1 2) heap_down.simps) (simp add: Let_def)
  next
    case False
    define j where "j = (if 2 * i + 1 + 1 < n \<and> lt xs (2 * i + 1 + 1) (2 * i + 1)
                         then 2 * i + 1 + 1 else 2 * i + 1)"
    have unf: "heap_down lt xs i n =
        (if \<not> lt xs j i then xs else heap_down lt (swap xs i j) j n)"
      using False by (subst heap_down.simps) (simp add: Let_def j_def)
    have j: "j < n" "i < j" using False by (auto simp: j_def)
    show ?thesis
    proof (cases "lt xs j i")
      case True
      have "mset (heap_down lt (swap xs i j) j n) = mset (swap xs i j) \<and>
          (\<forall>k. n \<le> k \<longrightarrow> k < length (swap xs i j) \<longrightarrow>
               heap_down lt (swap xs i j) j n ! k = swap xs i j ! k)"
        using 1(1) [OF refl False j_def] True 1(2) by simp
      moreover have "swap xs i j ! k = xs ! k" if "n \<le> k" "k < length xs" for k
        using that j "1.prems" by (simp add: nth_swap)
      ultimately show ?thesis using True j "1.prems" by (simp add: unf)
    qed (simp add: unf)
  qed
qed

section \<open>The interface and the heap order\<close>

locale heap_interface =
  fixes lt :: "'a list \<Rightarrow> nat \<Rightarrow> nat \<Rightarrow> bool"
    and key :: "'a \<Rightarrow> 'k::linorder"
  assumes lt_key: "i < length xs \<Longrightarrow> j < length xs \<Longrightarrow>
      lt xs i j \<longleftrightarrow> key (xs ! j) < key (xs ! i)"
begin

definition heap_upto :: "'a list \<Rightarrow> nat \<Rightarrow> bool" where
  "heap_upto xs n \<longleftrightarrow> (\<forall>k<n. 0 < k \<longrightarrow> key (xs ! k) \<le> key (xs ! par k))"

definition is_heap :: "'a list \<Rightarrow> bool" where
  "is_heap xs \<longleftrightarrow> heap_upto xs (length xs)"

text \<open>The order holds but for one place, which may be too large (\<open>up_at\<close>) or too small
  (\<open>down_at\<close>) where it stands.\<close>

definition up_at :: "'a list \<Rightarrow> nat \<Rightarrow> bool" where
  "up_at xs j \<longleftrightarrow>
     (\<forall>k<length xs. 0 < k \<longrightarrow> k \<noteq> j \<longrightarrow> key (xs ! k) \<le> key (xs ! par k)) \<and>
     (\<forall>k<length xs. 0 < k \<longrightarrow> par k = j \<longrightarrow> 0 < j \<longrightarrow> key (xs ! k) \<le> key (xs ! par j))"

definition down_at :: "'a list \<Rightarrow> nat \<Rightarrow> nat \<Rightarrow> bool" where
  "down_at xs i n \<longleftrightarrow>
     (\<forall>k<n. 0 < k \<longrightarrow> par k \<noteq> i \<longrightarrow> key (xs ! k) \<le> key (xs ! par k)) \<and>
     (\<forall>k<n. 0 < k \<longrightarrow> par k = i \<longrightarrow> 0 < i \<longrightarrow> key (xs ! k) \<le> key (xs ! par i))"

lemma up_at_step:
  assumes up: "up_at xs j" and j: "j < length xs" "0 < j"
    and bigger: "key (xs ! par j) < key (xs ! j)"
  shows "up_at (swap xs (par j) j) (par j)"
proof -
  let ?i = "par j" and ?ys = "swap xs (par j) j"
  have ij: "?i < j" using j by (simp add: par_less)
  then have i: "?i < length xs" using j by simp
  have ys: "?ys ! k = (if k = ?i then xs ! j else if k = j then xs ! ?i else xs ! k)"
    if "k < length xs" for k
    using that i j by (simp add: nth_swap)
  have up1: "key (xs ! k) \<le> key (xs ! par k)" if "k < length xs" "0 < k" "k \<noteq> j" for k
    using up that by (simp add: up_at_def)
  have up2: "key (xs ! k) \<le> key (xs ! ?i)" if "k < length xs" "0 < k" "par k = j" for k
    using up that j by (simp add: up_at_def)
  have first: "key (?ys ! k) \<le> key (?ys ! par k)" if k: "k < length xs" "0 < k" "k \<noteq> ?i" for k
  proof -
    have pk: "par k < length xs" "par k < k" using k by (simp_all add: par_less_trans par_less)
    then have pn: "par k < length xs" by simp
    consider "k = j" | "k \<noteq> j" "par k = ?i" | "k \<noteq> j" "par k = j" | "k \<noteq> j" "par k \<noteq> ?i" "par k \<noteq> j"
      by blast
    then show ?thesis
    proof cases
      case 2
      with up1 [OF k(1,2)] bigger have "key (xs ! k) \<le> key (xs ! j)" by simp
      with 2 k pk show ?thesis by (simp add: ys)
    qed (use k pk bigger ij in \<open>simp_all add: ys up1 up2 less_imp_le\<close>)
  qed
  moreover have "key (?ys ! k) \<le> key (?ys ! par ?i)"
    if k: "k < length xs" "0 < k" "par k = ?i" "0 < ?i" for k
  proof -
    have pi: "par ?i < ?i" using k by (simp add: par_less)
    have top: "key (xs ! ?i) \<le> key (xs ! par ?i)" using up1 [OF i k(4)] ij by simp
    have "?ys ! par ?i = xs ! par ?i" using pi ij i by (simp add: ys)
    moreover have "key (?ys ! k) \<le> key (xs ! ?i)"
    proof (cases "k = j")
      case False
      have "k \<noteq> ?i" using k(2,3) par_less [of k] by auto
      with False k up1 [OF k(1,2)] show ?thesis by (simp add: ys)
    qed (use k ij in \<open>simp add: ys\<close>)
    ultimately show ?thesis using top by simp
  qed
  ultimately show ?thesis by (simp add: up_at_def)
qed

lemma heap_up_heap:
  "j < length xs \<Longrightarrow> up_at xs j \<Longrightarrow> is_heap (heap_up lt xs j)"
proof (induction j arbitrary: xs rule: less_induct)
  case (less j)
  show ?case
  proof (cases "0 < j \<and> key (xs ! par j) < key (xs ! j)")
    case True
    then have ij: "par j < j" by (simp add: par_less)
    have "heap_up lt xs j = heap_up lt (swap xs (par j) j) (par j)"
      using True ij less.prems by (subst heap_up.simps) (simp add: Let_def lt_key par_fix par_less_trans)
    with less.IH [OF ij] up_at_step [OF less.prems(2,1)] True ij less.prems
    show ?thesis by simp
  next
    case False
    then have "heap_up lt xs j = xs"
      using less.prems by (subst heap_up.simps) (auto simp: Let_def lt_key par_fix par_less_trans)
    with False less.prems show ?thesis
      by (auto simp: up_at_def is_heap_def heap_upto_def)
  qed
qed

lemma down_at_step:
  assumes dn: "down_at xs i n" and n: "n \<le> length xs"
    and j: "par j = i" "0 < j" "j < n"
    and best: "\<And>k. k < n \<Longrightarrow> 0 < k \<Longrightarrow> par k = i \<Longrightarrow> key (xs ! k) \<le> key (xs ! j)"
    and bigger: "key (xs ! i) < key (xs ! j)"
  shows "down_at (swap xs i j) j n"
proof -
  let ?ys = "swap xs i j"
  have ij: "i < j" using par_less [of j] j by simp
  have ys: "?ys ! k = (if k = i then xs ! j else if k = j then xs ! i else xs ! k)"
    if "k < n" for k
    using that n ij j by (simp add: nth_swap)
  have dn1: "key (xs ! k) \<le> key (xs ! par k)" if "k < n" "0 < k" "par k \<noteq> i" for k
    using dn that by (simp add: down_at_def)
  have first: "key (?ys ! k) \<le> key (?ys ! par k)" if k: "k < n" "0 < k" "par k \<noteq> j" for k
  proof -
    have pk: "par k < k" "par k < n" using k by (simp_all add: par_less par_less_trans)
    consider "k = j" | "k = i" | "k \<noteq> j" "k \<noteq> i" "par k = i" | "k \<noteq> j" "k \<noteq> i" "par k \<noteq> i"
      by blast
    then show ?thesis
    proof cases
      case 1
      with ij j bigger show ?thesis by (simp add: ys less_imp_le)
    next
      case 2
      have "key (xs ! j) \<le> key (xs ! par i)"
        using dn j k(2) 2 by (simp add: down_at_def)
      with 2 pk k ij show ?thesis by (simp add: ys)
    next
      case 3
      with best [OF k(1,2)] ij j k pk show ?thesis by (simp add: ys)
    next
      case 4
      with dn1 [OF k(1,2)] k pk show ?thesis by (simp add: ys)
    qed
  qed
  moreover have "key (?ys ! k) \<le> key (?ys ! par j)" if k: "k < n" "0 < k" "par k = j" for k
  proof -
    have "j < k" using par_less [of k] k by simp
    then have "?ys ! k = xs ! k" using k ij by (simp add: ys)
    moreover have "?ys ! par j = xs ! j" using j ij by (simp add: ys)
    ultimately show ?thesis using dn1 [OF k(1,2)] k ij by simp
  qed
  ultimately show ?thesis by (simp add: down_at_def)
qed

lemma heap_down_heap:
  "n \<le> length xs \<Longrightarrow> i < n \<or> n = 0 \<Longrightarrow> down_at xs i n \<Longrightarrow> heap_upto (heap_down lt xs i n) n"
proof (induction "n - i" arbitrary: i xs rule: less_induct)
  case less
  show ?case
  proof (cases "2 * i + 1 \<ge> n")
    case True
    have "par k \<noteq> i" if "k < n" "0 < k" for k
      using that True par_eq [of k i] by auto
    then have "heap_upto xs n" using less.prems by (simp add: heap_upto_def down_at_def)
    with True show ?thesis by (subst heap_down.simps) (simp add: Let_def)
  next
    case False
    define j where "j = (if 2 * i + 1 + 1 < n \<and> lt xs (2 * i + 1 + 1) (2 * i + 1)
                         then 2 * i + 1 + 1 else 2 * i + 1)"
    have unf: "heap_down lt xs i n =
        (if \<not> lt xs j i then xs else heap_down lt (swap xs i j) j n)"
      using False by (subst heap_down.simps) (simp add: Let_def j_def)
    have j: "j < n" "i < j" "0 < j" "par j = i"
      using False by (auto simp: j_def par_def)
    have best: "key (xs ! k) \<le> key (xs ! j)" if k: "k < n" "0 < k" "par k = i" for k
    proof -
      have lk: "lt xs (2 * i + 2) (2 * i + 1) \<longleftrightarrow>
          key (xs ! (2 * i + 1)) < key (xs ! (2 * i + 2))" if "2 * i + 2 < n"
        using that less.prems(1) by (intro lt_key) auto
      from k par_eq [of k i] have "k = 2 * i + 1 \<or> k = 2 * i + 2" by blast
      with k lk show ?thesis by (auto simp: j_def split: if_splits)
    qed
    have cmp: "lt xs j i \<longleftrightarrow> key (xs ! i) < key (xs ! j)"
      using j less.prems(1) by (intro lt_key) auto
    show ?thesis
    proof (cases "lt xs j i")
      case True
      have "down_at (swap xs i j) j n"
        using down_at_step [OF less.prems(3,1) j(4,3,1) best] True cmp by blast
      with less.hyps [of j "swap xs i j"] j less.prems(1)
      have "heap_upto (heap_down lt (swap xs i j) j n) n" by simp
      with True show ?thesis by (simp add: unf)
    next
      case False
      then have top: "key (xs ! j) \<le> key (xs ! i)" using cmp by auto
      have "key (xs ! k) \<le> key (xs ! par k)" if "k < n" "0 < k" for k
        using less.prems(3) that best [OF that] top
        by (cases "par k = i") (auto simp: down_at_def)
      with False show ?thesis by (simp add: unf heap_upto_def)
    qed
  qed
qed

section \<open>What the package promises\<close>

lemma is_heap_Nil [simp]: "is_heap []"
  by (simp add: is_heap_def heap_upto_def)

lemma is_heap_top:
  assumes "is_heap xs"
  shows "k < length xs \<Longrightarrow> key (xs ! k) \<le> key (xs ! 0)"
proof (induction k rule: less_induct)
  case (less k)
  show ?case
  proof (cases "k = 0")
    case False
    then have "par k < k" by (simp add: par_less)
    moreover have "key (xs ! k) \<le> key (xs ! par k)"
      using assms less.prems False by (simp add: is_heap_def heap_upto_def)
    ultimately show ?thesis using less.IH [of "par k"] less.prems by simp
  qed simp
qed

lemma Push_heap: "is_heap xs \<Longrightarrow> is_heap (heap_Push lt xs x)"
proof -
  assume h: "is_heap xs"
  have "up_at (xs @ [x]) (length xs)"
  proof -
    have "par k < length xs" if "k < length xs" for k
      using that by (simp add: par_less_trans)
    moreover have "par k \<noteq> length xs" if "k < Suc (length xs)" "0 < k" for k
      using that par_less [of k] by auto
    ultimately show ?thesis
      using h by (auto simp: up_at_def is_heap_def heap_upto_def nth_append less_Suc_eq)
  qed
  then show ?thesis unfolding heap_Push_def by (intro heap_up_heap) simp_all
qed

lemma mset_Push [simp]: "mset (heap_Push lt xs x) = add_mset x (mset xs)"
  by (simp add: heap_Push_def)

lemma Pop_heap:
  assumes h: "is_heap xs" and ne: "xs \<noteq> []" and pop: "heap_Pop lt xs = (x, ys)"
  shows "is_heap ys" and "mset xs = add_mset x (mset ys)"
    and "x = xs ! 0" and "y \<in> set xs \<Longrightarrow> key y \<le> key x"
proof -
  define n where "n = length xs - 1"
  define zs where "zs = heap_down lt (swap xs 0 n) 0 n"
  have len: "length xs = Suc n" using ne by (cases xs) (simp_all add: n_def)
  then have zlen: "length zs = Suc n" by (simp add: zs_def)
  then have zne: "zs \<noteq> []" by auto
  have x: "x = last zs" and ys: "ys = butlast zs"
    using pop by (simp_all add: heap_Pop_def zs_def n_def Let_def)
  have shape: "mset zs = mset xs" "zs ! n = xs ! 0"
    using heap_down_shape [of n "swap xs 0 n" lt 0] len by (simp_all add: zs_def nth_swap)
  show x0: "x = xs ! 0" using shape(2) x zlen zne by (simp add: last_conv_nth)
  show "mset xs = add_mset x (mset ys)"
    using shape(1) x ys zne by (metis append_butlast_last_id mset.simps(2) mset_rev rev_append
        rev_singleton_conv append_Cons append_Nil rev_rev_ident)
  have "down_at (swap xs 0 n) 0 n"
  proof -
    have "swap xs 0 n ! k = xs ! k" if "0 < k" "k < n" for k
      using that len by (simp add: nth_swap)
    moreover have "par k < n" if "k < n" for k
      using that by (rule par_less_trans)
    ultimately show ?thesis
      using h len by (simp add: down_at_def is_heap_def heap_upto_def)
  qed
  then have "heap_upto zs n" unfolding zs_def using len by (intro heap_down_heap) auto
  then have "heap_upto ys n"
    using zlen par_less_trans by (auto simp: heap_upto_def ys nth_butlast)
  then show "is_heap ys" using zlen ys by (simp add: is_heap_def)
  show "key y \<le> key x" if "y \<in> set xs"
    using that is_heap_top [OF h] x0 by (metis in_set_conv_nth)
qed

end

end
