(* ===== verification/InMem_Queue.thy ===== *)
theory InMem_Queue
  imports Task_Queue Go_Heap
begin

text \<open>
  \<^verbatim>\<open>internal/queue/inmem.go\<close>: the in-memory queue with its FIFO list, its priority heap and its
  list of delayed tasks. Each method is one critical section of the code (under \<^verbatim>\<open>mu\<close> or
  \<^verbatim>\<open>delayedMu\<close>) and so one function on the state. \<^verbatim>\<open>Pop\<close> releases the lock between its polls:
  its loop takes a script that gives, for each unsuccessful poll, the clock reading and what the
  other goroutines did to the queue while it slept.
\<close>

section \<open>State\<close>

record delayedItem =
  diTask :: Task
  diDue :: go_time

type_synonym priorityQueue = "Task list"

record InMemQueue =
  iqItems :: "Task list"
  iqPQ :: priorityQueue
  iqClosed :: bool
  iqDelayed :: "delayedItem list"

text \<open>The methods of \<^verbatim>\<open>heap.Interface\<close>; \<open>Swap\<close> is \<open>swap\<close>, \<^verbatim>\<open>Push\<close> and \<^verbatim>\<open>Pop\<close> append and cut off
  at the end, as \<open>heap_Push\<close> and \<open>heap_Pop\<close> do.\<close>

definition priorityQueue_Less :: "priorityQueue \<Rightarrow> nat \<Rightarrow> nat \<Rightarrow> bool" where
  "priorityQueue_Less pq i j \<longleftrightarrow> tPriority (pq ! i) > tPriority (pq ! j)"

definition NewInMemQueue :: "nat \<Rightarrow> InMemQueue" where
  "NewInMemQueue capacity = \<lparr>iqItems = [], iqPQ = [], iqClosed = False, iqDelayed = []\<rparr>"

section \<open>Operations\<close>

text \<open>One tick of the background loop: the due tasks move to the FIFO list in their order, the
  others stay. The loop has ended once the queue is closed.\<close>

fun drainDelayed :: "go_time \<Rightarrow> delayedItem list \<Rightarrow> Task list \<Rightarrow> Task list \<times> delayedItem list" where
  "drainDelayed now [] items = (items, [])"
| "drainDelayed now (d # ds) items =
     (if now > diDue d \<or> now = diDue d then drainDelayed now ds (items @ [diTask d])
      else let (items', remaining) = drainDelayed now ds items in (items', d # remaining))"

definition drainDelayedLoop_tick :: "go_time \<Rightarrow> InMemQueue \<Rightarrow> InMemQueue" where
  "drainDelayedLoop_tick now q =
     (if iqClosed q then q
      else let (items, remaining) = drainDelayed now (iqDelayed q) (iqItems q)
           in q\<lparr>iqItems := items, iqDelayed := remaining\<rparr>)"

definition popInternal :: "InMemQueue \<Rightarrow> Task option \<times> InMemQueue" where
  "popInternal q =
     (if length (iqPQ q) > 0
      then let (t, pq) = heap_Pop priorityQueue_Less (iqPQ q) in (Some t, q\<lparr>iqPQ := pq\<rparr>)
      else if length (iqItems q) > 0
      then (Some (iqItems q ! 0), q\<lparr>iqItems := drop 1 (iqItems q)\<rparr>)
      else (None, q))"

definition InMemQueue_Push :: "go_time \<Rightarrow> InMemQueue \<Rightarrow> Task \<Rightarrow> error option \<times> InMemQueue" where
  "InMemQueue_Push now q t = (None, q\<lparr>iqItems := iqItems q @ [t]\<rparr>)"

definition PopSleep :: "go_time \<Rightarrow> go_time \<Rightarrow> duration" where
  "PopSleep deadline now =
     (let remaining = deadline - now
      in if remaining > 10 * Millisecond then 10 * Millisecond else remaining)"

text \<open>\<open>None\<close>: the script ended before the loop did.\<close>

fun PopLoop :: "go_time \<Rightarrow> (go_time \<times> (InMemQueue \<Rightarrow> InMemQueue)) list \<Rightarrow> InMemQueue \<Rightarrow>
    (Task option \<times> InMemQueue) option" where
  "PopLoop deadline script q =
     (case popInternal q of
        (Some t, q') \<Rightarrow> Some (Some t, q')
      | (None, q') \<Rightarrow>
          (case script of
             [] \<Rightarrow> None
           | (now, others) # script' \<Rightarrow>
               if now > deadline then Some (None, q')
               else PopLoop deadline script' (others q')))"

declare PopLoop.simps [simp del]

text \<open>\<^verbatim>\<open>Pop\<close> while no other goroutine touches the queue (see \<open>PopLoop_quiet\<close>).\<close>

definition InMemQueue_Pop ::
    "go_time \<Rightarrow> InMemQueue \<Rightarrow> duration \<Rightarrow> Task option result \<times> InMemQueue" where
  "InMemQueue_Pop now q timeout = (case popInternal q of (t, q') \<Rightarrow> (Inr t, q'))"

definition InMemQueue_PushPriority ::
    "go_time \<Rightarrow> InMemQueue \<Rightarrow> Task \<Rightarrow> error option \<times> InMemQueue" where
  "InMemQueue_PushPriority now q t =
     (None, q\<lparr>iqPQ := heap_Push priorityQueue_Less (iqPQ q) t\<rparr>)"

definition InMemQueue_PushDelayed ::
    "go_time \<Rightarrow> InMemQueue \<Rightarrow> Task \<Rightarrow> duration \<Rightarrow> error option \<times> InMemQueue" where
  "InMemQueue_PushDelayed now q t delay =
     (None, q\<lparr>iqDelayed := iqDelayed q @ [\<lparr>diTask = t, diDue = now + delay\<rparr>]\<rparr>)"

definition InMemQueue_Ack :: "InMemQueue \<Rightarrow> string \<Rightarrow> error option \<times> InMemQueue" where
  "InMemQueue_Ack q uid = (None, q)"

definition InMemQueue_Size :: "InMemQueue \<Rightarrow> int result" where
  "InMemQueue_Size q =
     Inr (int (length (iqItems q) + length (iqPQ q) + length (iqDelayed q)))"

definition InMemQueue_Close :: "InMemQueue \<Rightarrow> error option \<times> InMemQueue" where
  "InMemQueue_Close q = (if iqClosed q then (None, q) else (None, q\<lparr>iqClosed := True\<rparr>))"

definition InMemTaskQueue :: "InMemQueue TaskQueue" where
  "InMemTaskQueue = \<lparr>
     q_Push = InMemQueue_Push,
     q_Pop = InMemQueue_Pop,
     q_PushPriority = InMemQueue_PushPriority,
     q_PushDelayed = InMemQueue_PushDelayed,
     q_Ack = InMemQueue_Ack,
     q_Size = InMemQueue_Size,
     q_Close = InMemQueue_Close\<rparr>"

section \<open>The heap of the queue\<close>

interpretation pq: heap_interface priorityQueue_Less tPriority
  by unfold_locales (simp add: priorityQueue_Less_def)

definition queue_inv :: "InMemQueue \<Rightarrow> bool" where
  "queue_inv q \<longleftrightarrow> pq.is_heap (iqPQ q)"

definition queue_ready :: "InMemQueue \<Rightarrow> Task multiset" where
  "queue_ready q = mset (iqPQ q) + mset (iqItems q)"

definition queue_waiting :: "InMemQueue \<Rightarrow> Task multiset" where
  "queue_waiting q = mset (map diTask (iqDelayed q))"

definition queue_tasks :: "InMemQueue \<Rightarrow> Task multiset" where
  "queue_tasks q = queue_ready q + queue_waiting q"

lemmas queue_views = queue_ready_def queue_waiting_def queue_tasks_def

lemmas queue_op_defs = InMemQueue_Push_def InMemQueue_PushPriority_def
  InMemQueue_PushDelayed_def InMemQueue_Pop_def InMemQueue_Ack_def InMemQueue_Size_def
  InMemQueue_Close_def

lemma drainDelayed_filter:
  "drainDelayed now ds items =
     (items @ map diTask (filter (\<lambda>d. diDue d \<le> now) ds), filter (\<lambda>d. \<not> diDue d \<le> now) ds)"
  by (induction ds arbitrary: items) auto

lemma drain_tick:
  "\<not> iqClosed q \<Longrightarrow> drainDelayedLoop_tick now q =
     q\<lparr>iqItems := iqItems q @ map diTask (filter (\<lambda>d. diDue d \<le> now) (iqDelayed q)),
       iqDelayed := filter (\<lambda>d. \<not> diDue d \<le> now) (iqDelayed q)\<rparr>"
  by (simp add: drainDelayedLoop_tick_def drainDelayed_filter)

lemma drain_closed: "iqClosed q \<Longrightarrow> drainDelayedLoop_tick now q = q"
  by (simp add: drainDelayedLoop_tick_def)

lemma mset_filter_split:
  "mset (map f (filter P xs)) + mset (map f (filter (\<lambda>x. \<not> P x) xs)) = mset (map f xs)"
  by (induction xs) auto

lemma drain_tasks [simp]: "queue_tasks (drainDelayedLoop_tick now q) = queue_tasks q"
  using mset_filter_split [of diTask "\<lambda>d. diDue d \<le> now" "iqDelayed q"]
  by (cases "iqClosed q")
    (simp_all add: drain_tick drain_closed queue_views add.assoc)

lemma drain_inv [simp]: "queue_inv (drainDelayedLoop_tick now q) = queue_inv q"
  by (cases "iqClosed q") (simp_all add: drain_tick drain_closed queue_inv_def)

text \<open>What one poll does, in terms of the abstract content.\<close>

lemma popInternal_spec:
  assumes "queue_inv q" and "popInternal q = (r, q')"
  shows "queue_inv q'" and "iqDelayed q' = iqDelayed q" and "iqClosed q' = iqClosed q"
    and "r = None \<longleftrightarrow> queue_ready q = {#}"
    and "r = None \<Longrightarrow> q' = q"
    and "r = Some t \<Longrightarrow> queue_ready q = add_mset t (queue_ready q')"
proof -
  consider (pq) "iqPQ q \<noteq> []" | (items) "iqPQ q = []" "iqItems q \<noteq> []"
    | (none) "iqPQ q = []" "iqItems q = []" by blast
  then have "queue_inv q' \<and> iqDelayed q' = iqDelayed q \<and> iqClosed q' = iqClosed q \<and>
      (r = None \<longleftrightarrow> queue_ready q = {#}) \<and> (r = None \<longrightarrow> q' = q) \<and>
      (\<forall>t. r = Some t \<longrightarrow> queue_ready q = add_mset t (queue_ready q'))"
  proof cases
    case pq
    obtain t pq' where pop: "heap_Pop priorityQueue_Less (iqPQ q) = (t, pq')" by fastforce
    with pq assms(2) have "r = Some t" "q' = q\<lparr>iqPQ := pq'\<rparr>" by (auto simp: popInternal_def)
    with pq.Pop_heap [OF _ pq pop] assms(1) pq show ?thesis
      by (auto simp: queue_inv_def queue_ready_def)
  next
    case items
    then obtain t ts where "iqItems q = t # ts" by (cases "iqItems q") auto
    with items assms show ?thesis by (auto simp: popInternal_def queue_inv_def queue_ready_def)
  next
    case none
    with assms show ?thesis by (auto simp: popInternal_def queue_inv_def queue_ready_def)
  qed
  then show "queue_inv q'" and "iqDelayed q' = iqDelayed q" and "iqClosed q' = iqClosed q"
    and "r = None \<longleftrightarrow> queue_ready q = {#}" and "r = None \<Longrightarrow> q' = q"
    and "r = Some t \<Longrightarrow> queue_ready q = add_mset t (queue_ready q')"
    by blast+
qed

lemma InMemTaskQueue_sel [simp]:
  "q_Push InMemTaskQueue = InMemQueue_Push"
  "q_Pop InMemTaskQueue = InMemQueue_Pop"
  "q_PushPriority InMemTaskQueue = InMemQueue_PushPriority"
  "q_PushDelayed InMemTaskQueue = InMemQueue_PushDelayed"
  "q_Size InMemTaskQueue = InMemQueue_Size"
  by (simp_all add: InMemTaskQueue_def)

abbreviation ready_uids :: "InMemQueue \<Rightarrow> string multiset" where
  "ready_uids q \<equiv> image_mset tTaskUID (queue_ready q)"

abbreviation waiting_uids :: "InMemQueue \<Rightarrow> string multiset" where
  "waiting_uids q \<equiv> image_mset tTaskUID (queue_waiting q)"

lemma Push_spec:
  assumes "queue_inv q" and "InMemQueue_Push now q t = (r, q')"
  shows "r = None" and "queue_inv q'" and "queue_ready q' = add_mset t (queue_ready q)"
    and "queue_waiting q' = queue_waiting q"
  using assms by (auto simp: InMemQueue_Push_def queue_inv_def queue_ready_def queue_waiting_def)

lemma PushPriority_spec:
  assumes "queue_inv q" and "InMemQueue_PushPriority now q t = (r, q')"
  shows "r = None" and "queue_inv q'" and "queue_ready q' = add_mset t (queue_ready q)"
    and "queue_waiting q' = queue_waiting q"
  using assms pq.Push_heap
  by (auto simp: InMemQueue_PushPriority_def queue_inv_def queue_ready_def queue_waiting_def)

lemma PushDelayed_spec:
  assumes "queue_inv q" and "InMemQueue_PushDelayed now q t d = (r, q')"
  shows "r = None" and "queue_inv q'" and "queue_ready q' = queue_ready q"
    and "queue_waiting q' = add_mset t (queue_waiting q)"
  using assms by (auto simp: InMemQueue_PushDelayed_def queue_inv_def queue_ready_def queue_waiting_def)

lemma Pop_spec:
  assumes "queue_inv q" and "InMemQueue_Pop now q d = (p, q')"
  obtains (some) t where "p = Inr (Some t)" "queue_inv q'"
      "queue_ready q = add_mset t (queue_ready q')" "queue_waiting q' = queue_waiting q"
    | (empty) "p = Inr None" "q' = q" "queue_inv q" "queue_ready q = {#}"
proof -
  obtain r where r: "popInternal q = (r, q')" "p = Inr r"
    using assms(2) by (auto simp: InMemQueue_Pop_def split: prod.splits)
  note spec = popInternal_spec [OF assms(1) r(1)]
  have "queue_waiting q' = queue_waiting q" using spec(2) by (simp add: queue_waiting_def)
  then show thesis
  proof (cases r)
    case None
    then show ?thesis using that(2) r(2) spec(4,5) assms(1) by blast
  next
    case (Some t)
    then show ?thesis using that(1) r(2) spec(1,6) \<open>queue_waiting q' = queue_waiting q\<close> by blast
  qed
qed

interpretation inmem: reliable_queue InMemTaskQueue queue_inv ready_uids waiting_uids queue_tasks
proof (unfold_locales, goal_cases)
  case (1 q now t r q')
  with Push_spec [of q now t r q'] show ?case by simp
next
  case (2 q now t r q')
  with PushPriority_spec [of q now t r q'] show ?case by simp
next
  case (3 q now t d r q')
  with PushDelayed_spec [of q now t d r q'] show ?case by simp
next
  case (4 q now d t q')
  then have "queue_inv q" and "InMemQueue_Pop now q d = (Inr (Some t), q')" by simp_all
  then show ?case by (cases rule: Pop_spec) auto
next
  case (5 q now d p q')
  then have "queue_inv q" and "InMemQueue_Pop now q d = (p, q')" by simp_all
  then show ?case by (cases rule: Pop_spec) auto
next
  case (6 q now t r q')
  with Push_spec [of q now t r q'] show ?case by (simp add: queue_tasks_def)
next
  case (7 q now t r q')
  with PushPriority_spec [of q now t r q'] show ?case by (simp add: queue_tasks_def)
next
  case (8 q now t d r q')
  with PushDelayed_spec [of q now t d r q'] show ?case by (simp add: queue_tasks_def)
next
  case (9 q now d p q')
  then have "queue_inv q" and "InMemQueue_Pop now q d = (p, q')" by simp_all
  then show ?case by (cases rule: Pop_spec) (auto simp: queue_tasks_def)
next
  case (10 q)
  show ?case by (simp add: InMemQueue_Size_def queue_views)
qed

section \<open>Runs of operations\<close>

text \<open>One critical section of the queue, with the clock reading it uses; \<open>OpDrain\<close> is the
  background loop, \<open>OpPoll\<close> one poll of a \<^verbatim>\<open>Pop\<close>.\<close>

datatype queue_op =
    OpPush Task
  | OpPushPriority Task
  | OpPushDelayed Task duration
  | OpDrain
  | OpPoll
  | OpAck string
  | OpClose

fun queue_step :: "InMemQueue \<Rightarrow> go_time \<times> queue_op \<Rightarrow> InMemQueue \<times> Task list" where
  "queue_step q (now, OpPush t) = (snd (InMemQueue_Push now q t), [])"
| "queue_step q (now, OpPushPriority t) = (snd (InMemQueue_PushPriority now q t), [])"
| "queue_step q (now, OpPushDelayed t d) = (snd (InMemQueue_PushDelayed now q t d), [])"
| "queue_step q (now, OpDrain) = (drainDelayedLoop_tick now q, [])"
| "queue_step q (now, OpPoll) =
     (case popInternal q of (r, q') \<Rightarrow> (q', case r of None \<Rightarrow> [] | Some t \<Rightarrow> [t]))"
| "queue_step q (now, OpAck uid) = (snd (InMemQueue_Ack q uid), [])"
| "queue_step q (now, OpClose) = (snd (InMemQueue_Close q), [])"

fun queue_run :: "InMemQueue \<Rightarrow> (go_time \<times> queue_op) list \<Rightarrow> InMemQueue \<times> Task list" where
  "queue_run q [] = (q, [])"
| "queue_run q (x # xs) =
     (let (q', out) = queue_step q x; (q'', out') = queue_run q' xs in (q'', out @ out'))"

fun op_pushed :: "queue_op \<Rightarrow> Task list" where
  "op_pushed (OpPush t) = [t]"
| "op_pushed (OpPushPriority t) = [t]"
| "op_pushed (OpPushDelayed t d) = [t]"
| "op_pushed _ = []"

lemma queue_step_tasks:
  assumes "queue_inv q" and "queue_step q (now, x) = (q', out)"
  shows "queue_inv q' \<and> mset out + queue_tasks q' = queue_tasks q + mset (op_pushed x)"
proof (cases x)
  case (OpPush t)
  with assms Push_spec [OF assms(1), of now t] show ?thesis
    by (cases "InMemQueue_Push now q t") (auto simp: queue_tasks_def)
next
  case (OpPushPriority t)
  with assms PushPriority_spec [OF assms(1), of now t] show ?thesis
    by (cases "InMemQueue_PushPriority now q t") (auto simp: queue_tasks_def)
next
  case (OpPushDelayed t d)
  with assms PushDelayed_spec [OF assms(1), of now t d] show ?thesis
    by (cases "InMemQueue_PushDelayed now q t d") (auto simp: queue_tasks_def)
next
  case OpDrain
  with assms show ?thesis by auto
next
  case OpPoll
  with assms(2) obtain r where pop: "popInternal q = (r, q')"
    and out: "out = (case r of None \<Rightarrow> [] | Some t \<Rightarrow> [t])"
    by (auto split: prod.splits)
  note spec = popInternal_spec [OF assms(1) pop]
  then have "queue_waiting q' = queue_waiting q" by (simp add: queue_waiting_def)
  with OpPoll out spec(1,5,6) show ?thesis by (cases r) (auto simp: queue_tasks_def)
next
  case (OpAck uid)
  with assms show ?thesis by (auto simp: InMemQueue_Ack_def)
next
  case OpClose
  with assms show ?thesis
    by (auto simp: InMemQueue_Close_def queue_inv_def queue_views split: if_splits)
qed

lemma queue_run_tasks:
  "queue_inv q \<Longrightarrow> queue_run q xs = (q', out) \<Longrightarrow>
     queue_inv q' \<and> mset out + queue_tasks q' = queue_tasks q + mset (concat (map (op_pushed \<circ> snd) xs))"
proof (induction xs arbitrary: q out)
  case (Cons x xs)
  obtain now y where x: "x = (now, y)" by (cases x)
  obtain q1 o1 where s: "queue_step q (now, y) = (q1, o1)" by fastforce
  obtain o2 where r: "queue_run q1 xs = (q', o2)" and out: "out = o1 @ o2"
    using Cons.prems(2) x s by (auto split: prod.splits)
  from queue_step_tasks [OF Cons.prems(1) s] Cons.IH [OF _ r] out x
  show ?case by (simp add: add.assoc)
qed simp

section \<open>The polling loop\<close>

lemma PopLoop_Nil:
  "PopLoop d [] q =
     (case popInternal q of (Some t, q') \<Rightarrow> Some (Some t, q') | (None, q') \<Rightarrow> None)"
  by (subst PopLoop.simps) (simp split: prod.split option.split)

lemma PopLoop_Cons:
  "PopLoop d ((now, others) # script) q =
     (case popInternal q of
        (Some t, q') \<Rightarrow> Some (Some t, q')
      | (None, q') \<Rightarrow> if now > d then Some (None, q') else PopLoop d script (others q'))"
  by (subst PopLoop.simps) (simp split: prod.split option.split)

lemma PopLoop_quiet:
  assumes "queue_inv q" and "\<forall>(t, f) \<in> set script. f = id" and "PopLoop deadline script q = Some p"
  shows "p = popInternal q"
  using assms(2,3)
proof (induction script)
  case Nil
  then show ?case by (auto simp: PopLoop_Nil split: prod.splits option.splits)
next
  case (Cons x script)
  obtain now f where x: "x = (now, f)" by (cases x)
  obtain r q' where pop: "popInternal q = (r, q')" by fastforce
  with popInternal_spec(5) [OF assms(1) pop] Cons x show ?case
    by (cases r) (auto simp: PopLoop_Cons split: if_splits)
qed

text \<open>The clock of a script: each reading comes at least the requested sleep after the one
  before it, and later than it.\<close>

fun clock_ok :: "go_time \<Rightarrow> (go_time \<times> (InMemQueue \<Rightarrow> InMemQueue)) list \<Rightarrow> bool" where
  "clock_ok deadline ((t, f) # (t', f') # script) \<longleftrightarrow>
     t' \<ge> t + PopSleep deadline t \<and> t' > t \<and> clock_ok deadline ((t', f') # script)"
| "clock_ok deadline _ \<longleftrightarrow> True"

lemma PopSleep_cases:
  "t \<le> deadline \<Longrightarrow> PopSleep deadline t = min (deadline - t) (10 * Millisecond)"
  by (simp add: PopSleep_def Let_def)

lemma PopLoop_past_deadline: "deadline < t \<Longrightarrow> PopLoop deadline ((t, f) # script) q \<noteq> None"
  by (simp add: PopLoop_Cons split: prod.split option.split)

lemma PopLoop_step:
  "(\<And>q. PopLoop deadline script q \<noteq> None) \<Longrightarrow> PopLoop deadline ((t, f) # script) q \<noteq> None"
  by (simp add: PopLoop_Cons split: prod.split option.split)

lemma PopLoop_at_deadline:
  assumes "deadline \<le> t" and "clock_ok deadline ((t, f) # script)" and "script \<noteq> []"
  shows "PopLoop deadline ((t, f) # script) q \<noteq> None"
proof (cases "deadline < t")
  case False
  obtain t' f' script' where s: "script = (t', f') # script'"
    using assms(3) by (cases script) auto
  with assms False have "deadline < t'" by simp
  then show ?thesis unfolding s by (intro PopLoop_step PopLoop_past_deadline)
qed (rule PopLoop_past_deadline)

lemma PopLoop_returns:
  "deadline - t \<le> int n * (10 * Millisecond) \<Longrightarrow> clock_ok deadline ((t, f) # script) \<Longrightarrow>
   n + 2 \<le> length ((t, f) # script) \<Longrightarrow> PopLoop deadline ((t, f) # script) q \<noteq> None"
proof (induction n arbitrary: t f script q)
  case 0
  then show ?case by (intro PopLoop_at_deadline) auto
next
  case (Suc n)
  obtain t' f' script' where s: "script = (t', f') # script'"
    using Suc.prems(3) by (cases script) auto
  show ?case
  proof (cases "deadline \<le> t")
    case True
    with Suc.prems(2) s show ?thesis by (intro PopLoop_at_deadline) auto
  next
    case False
    then have "t + min (deadline - t) (10 * Millisecond) \<le> t'"
      using Suc.prems(2) s by (simp add: PopSleep_cases)
    then have "deadline - t' \<le> int n * (10 * Millisecond)"
      using Suc.prems(1) False by (simp add: algebra_simps min_def Millisecond_def split: if_splits)
    moreover have "clock_ok deadline ((t', f') # script')" using Suc.prems(2) s by simp
    moreover have "n + 2 \<le> length ((t', f') # script')" using Suc.prems(3) s by simp
    ultimately show ?thesis unfolding s by (intro PopLoop_step Suc.IH)
  qed
qed

section \<open>Polling a queue empty\<close>

lemma queue_run_append:
  "queue_run q (xs @ ys) =
     (let (q', out) = queue_run q xs; (q'', out') = queue_run q' ys in (q'', out @ out'))"
  by (induction xs arbitrary: q) (auto simp: Let_def split: prod.split)

lemma run_pushes:
  "queue_run q (map (\<lambda>t. (now, OpPush t)) ts) = (q\<lparr>iqItems := iqItems q @ ts\<rparr>, [])"
  by (induction ts arbitrary: q) (simp_all add: InMemQueue_Push_def)

lemma run_priority_pushes:
  "\<exists>q'. queue_run q (map (\<lambda>t. (now, OpPushPriority t)) ts) = (q', []) \<and> iqItems q' = iqItems q \<and>
     mset (iqPQ q') = mset (iqPQ q) + mset ts \<and> (queue_inv q \<longrightarrow> queue_inv q')"
proof (induction ts arbitrary: q)
  case (Cons t ts)
  define q1 where "q1 = snd (InMemQueue_PushPriority now q t)"
  have "queue_inv q \<longrightarrow> queue_inv q1" "iqItems q1 = iqItems q"
    "mset (iqPQ q1) = add_mset t (mset (iqPQ q))"
    using pq.Push_heap by (simp_all add: q1_def InMemQueue_PushPriority_def queue_inv_def)
  with Cons.IH [of q1] show ?case by (auto simp: q1_def [symmetric])
qed simp

lemma run_polls_items:
  "iqPQ q = [] \<Longrightarrow> queue_run q (replicate (length (iqItems q)) (now, OpPoll)) =
     (q\<lparr>iqItems := []\<rparr>, iqItems q)"
proof (induction "iqItems q" arbitrary: q)
  case (Cons t ts)
  then have "popInternal q = (Some t, q\<lparr>iqItems := ts\<rparr>)"
    by (simp add: popInternal_def Cons.hyps(2) [symmetric])
  with Cons.hyps(1) [of "q\<lparr>iqItems := ts\<rparr>"] Cons.prems Cons.hyps(2) [symmetric]
  show ?case by simp
qed simp

lemma run_polls_pq:
  "queue_inv q \<Longrightarrow> \<exists>q' out. queue_run q (replicate (length (iqPQ q)) (now, OpPoll)) = (q', out) \<and>
     iqPQ q' = [] \<and> iqItems q' = iqItems q \<and> mset out = mset (iqPQ q) \<and>
     sorted_wrt (\<lambda>a b. tPriority b \<le> tPriority a) out"
proof (induction "length (iqPQ q)" arbitrary: q)
  case (Suc n)
  then have ne: "iqPQ q \<noteq> []" by auto
  obtain t pq' where pop: "heap_Pop priorityQueue_Less (iqPQ q) = (t, pq')" by fastforce
  note spec = pq.Pop_heap [OF Suc.prems [unfolded queue_inv_def] ne pop]
  let ?q1 = "q\<lparr>iqPQ := pq'\<rparr>"
  have poll: "popInternal q = (Some t, ?q1)" using ne pop by (simp add: popInternal_def)
  have "size (mset (iqPQ q)) = Suc (size (mset pq'))" using spec(2) by simp
  then have len: "n = length (iqPQ ?q1)" using Suc.hyps(2) by simp
  moreover have "queue_inv ?q1" using spec(1) by (simp add: queue_inv_def)
  ultimately obtain q' out where run: "queue_run ?q1 (replicate n (now, OpPoll)) = (q', out)"
      "iqPQ q' = []" "iqItems q' = iqItems q" "mset out = mset pq'"
      "sorted_wrt (\<lambda>a b. tPriority b \<le> tPriority a) out"
    using Suc.hyps(1) [of ?q1] by (metis InMemQueue.select_convs(1,2) InMemQueue.update_convs(2)
        InMemQueue.surjective)
  have "\<forall>b \<in> set out. tPriority b \<le> tPriority t"
  proof
    fix b assume "b \<in> set out"
    moreover have "set out = set pq'" using run(4) by (rule mset_eq_setD)
    moreover have "set (iqPQ q) = insert t (set pq')"
      using spec(2) by (metis set_mset_mset set_mset_add_mset_insert)
    ultimately have "b \<in> set (iqPQ q)" by simp
    then show "tPriority b \<le> tPriority t" using spec(4) by simp
  qed
  then show ?case
    using run spec(2) poll by (subst Suc.hyps(2) [symmetric]) (simp add: Let_def)
qed simp

section \<open>Properties\<close>

text \<open>
  C6. No task is lost, duplicated or invented: after any sequence of the queue's operations, in
  any interleaving with the background loop, what was popped together with what the queue holds
  is exactly what was pushed, and \<open>Size\<close> reports the difference.
\<close>

theorem queue_conserves_tasks:
  "case queue_run (NewInMemQueue capacity) xs of (q, popped) \<Rightarrow>
     mset popped + queue_tasks q = mset (concat (map (op_pushed \<circ> snd) xs)) \<and>
     InMemQueue_Size q = Inr (int (length (concat (map (op_pushed \<circ> snd) xs))) - int (length popped))"
proof -
  obtain q popped where run: "queue_run (NewInMemQueue capacity) xs = (q, popped)" by fastforce
  have "queue_inv (NewInMemQueue capacity)" "queue_tasks (NewInMemQueue capacity) = {#}"
    by (simp_all add: NewInMemQueue_def queue_inv_def queue_views)
  with queue_run_tasks [OF _ run]
  have tasks: "queue_inv q" "mset popped + queue_tasks q = mset (concat (map (op_pushed \<circ> snd) xs))"
    by simp_all
  then have "length popped + size (queue_tasks q) = length (concat (map (op_pushed \<circ> snd) xs))"
    by (metis size_mset size_union)
  moreover have "InMemQueue_Size q = Inr (int (size (queue_tasks q)))"
    by (simp add: InMemQueue_Size_def queue_views)
  ultimately show ?thesis using run tasks(2) by simp
qed

text \<open>
  C22. The order of delivery: after ordinary pushes of \<open>us\<close> and priority pushes of \<open>ts\<close>, polling
  the queue returns first the tasks of \<open>ts\<close>, each once and by descending priority, whatever the
  order they were pushed in, and then \<open>us\<close> in the order of their pushes.
\<close>

theorem queue_delivery_order:
  "\<exists>q out. queue_run (NewInMemQueue capacity)
       (map (\<lambda>t. (now, OpPush t)) us @ map (\<lambda>t. (now, OpPushPriority t)) ts @
        replicate (length ts) (now, OpPoll) @ replicate (length us) (now, OpPoll)) = (q, out @ us) \<and>
     mset out = mset ts \<and> sorted_wrt (\<lambda>a b. tPriority b \<le> tPriority a) out \<and>
     InMemQueue_Size q = Inr 0"
proof -
  define q0 where "q0 = (NewInMemQueue capacity)\<lparr>iqItems := us\<rparr>"
  have pushes: "queue_run (NewInMemQueue capacity) (map (\<lambda>t. (now, OpPush t)) us) = (q0, [])"
    by (simp add: run_pushes q0_def NewInMemQueue_def)
  have "queue_inv q0" by (simp add: q0_def NewInMemQueue_def queue_inv_def)
  then obtain q1 where prio: "queue_run q0 (map (\<lambda>t. (now, OpPushPriority t)) ts) = (q1, [])"
    and q1: "iqItems q1 = us" "mset (iqPQ q1) = mset ts" "queue_inv q1"
    using run_priority_pushes [of q0 now ts] by (auto simp: q0_def NewInMemQueue_def)
  have "length (iqPQ q1) = length ts" using q1(2) by (metis size_mset)
  with run_polls_pq [OF q1(3), of now] obtain q2 out where
    polls: "queue_run q1 (replicate (length ts) (now, OpPoll)) = (q2, out)"
      "iqPQ q2 = []" "iqItems q2 = us" "mset out = mset ts"
      "sorted_wrt (\<lambda>a b. tPriority b \<le> tPriority a) out"
    using q1 by auto
  have rest: "queue_run q2 (replicate (length us) (now, OpPoll)) = (q2\<lparr>iqItems := []\<rparr>, us)"
    using run_polls_items [OF polls(2), of now] polls(3) by simp
  let ?ops = "map (\<lambda>t. (now, OpPush t)) us @ map (\<lambda>t. (now, OpPushPriority t)) ts @
        replicate (length ts) (now, OpPoll) @ replicate (length us) (now, OpPoll)"
  have run: "queue_run (NewInMemQueue capacity) ?ops = (q2\<lparr>iqItems := []\<rparr>, out @ us)"
    using pushes prio polls(1) rest by (simp add: queue_run_append)
  have "concat (map (op_pushed \<circ> snd) (replicate n (now, OpPoll))) = []" for n
    by (induction n) auto
  moreover have "concat (map (\<lambda>t. [t]) zs) = zs" for zs :: "Task list"
    by (induction zs) auto
  ultimately have "mset (out @ us) + queue_tasks (q2\<lparr>iqItems := []\<rparr>) = mset us + mset ts"
    using queue_run_tasks [OF _ run]
    by (simp add: comp_def NewInMemQueue_def queue_inv_def queue_views)
  then have "queue_tasks (q2\<lparr>iqItems := []\<rparr>) = {#}" using polls(4) by simp
  then have "InMemQueue_Size (q2\<lparr>iqItems := []\<rparr>) = Inr 0"
    by (simp add: InMemQueue_Size_def queue_views)
  with run polls(4,5) show ?thesis by blast
qed

text \<open>
  One poll of \<open>Pop\<close> on a well-formed queue: it finds nothing only if both lists are empty
  (and then changes nothing); with a non-empty heap it takes out a task of maximal priority and
  leaves the FIFO list alone; otherwise it takes the head of the FIFO list.
\<close>

lemma popInternal_order:
  assumes "queue_inv q" and "popInternal q = (r, q')"
  shows "queue_inv q' \<and>
     (if iqPQ q \<noteq> [] then
        (\<exists>t. r = Some t \<and> (\<forall>u \<in> set (iqPQ q). tPriority u \<le> tPriority t) \<and>
             mset (iqPQ q) = add_mset t (mset (iqPQ q')) \<and> iqItems q' = iqItems q)
      else if iqItems q \<noteq> [] then r = Some (hd (iqItems q)) \<and> q' = q\<lparr>iqItems := tl (iqItems q)\<rparr>
      else r = None \<and> q' = q)"
proof (cases "iqPQ q = []")
  case True
  with assms show ?thesis
    by (cases "iqItems q") (auto simp: popInternal_def queue_inv_def)
next
  case False
  obtain t pq' where pop: "heap_Pop priorityQueue_Less (iqPQ q) = (t, pq')" by fastforce
  note spec = pq.Pop_heap [OF assms(1) [unfolded queue_inv_def] False pop]
  from False assms(2) pop have "r = Some t" "q' = q\<lparr>iqPQ := pq'\<rparr>" by (auto simp: popInternal_def)
  with spec False show ?thesis by (auto simp: queue_inv_def)
qed

lemma popInternal_order_witness:
  "\<exists>r q'. popInternal (NewInMemQueue 1) = (r, q') \<and> queue_inv (NewInMemQueue 1) \<and> r = None"
proof -
  have inv: "queue_inv (NewInMemQueue 1)" by (simp add: NewInMemQueue_def queue_inv_def)
  obtain r q' where pop: "popInternal (NewInMemQueue 1) = (r, q')" by fastforce
  from popInternal_order [OF inv pop] inv pop show ?thesis by (simp add: NewInMemQueue_def)
qed

text \<open>
  \<open>Pop\<close> returns: whatever the other goroutines do between its polls, and as long as the
  clock advances by at least each requested sleep, a \<^verbatim>\<open>Pop\<close> with a timeout of at most \<open>n\<close> times
  10 ms returns within \<open>n + 2\<close> clock readings; if nobody else touches the queue, its
  result is that of a single poll.
\<close>

lemma Pop_returns:
  assumes "timeout \<le> int n * (10 * Millisecond)" and "start \<le> t"
    and "clock_ok (start + timeout) ((t, f) # script)" and "n + 1 \<le> length script"
  shows "\<exists>p. PopLoop (start + timeout) ((t, f) # script) q = Some p \<and>
     (queue_inv q \<and> (\<forall>(t, g) \<in> set ((t, f) # script). g = id) \<longrightarrow> p = popInternal q)"
proof -
  have "PopLoop (start + timeout) ((t, f) # script) q \<noteq> None"
    using assms by (intro PopLoop_returns [of _ _ n]) auto
  then show ?thesis using PopLoop_quiet by blast
qed

lemma Pop_returns_witness:
  "\<exists>p. PopLoop (0 + 20000000) [(1, \<lambda>q. q), (10000002, drainDelayedLoop_tick 5), (20000003, id), (20000004, id)]
      (NewInMemQueue 1) = Some p"
proof -
  have c: "clock_ok (0 + 20000000) [(1, \<lambda>q. q), (10000002, drainDelayedLoop_tick 5), (20000003, id), (20000004, id)]"
    by (simp add: PopSleep_def Millisecond_def Let_def)
  have d: "(20000000::int) \<le> int 2 * (10 * Millisecond)" by (simp add: Millisecond_def)
  from Pop_returns [OF d _ c, of "NewInMemQueue 1"] show ?thesis by auto
qed

text \<open>
  A delayed task becomes ready exactly when its delay is over: on an open queue, a tick of
  the background loop at time \<open>t\<close> after \<open>PushDelayed\<close> at time \<open>now\<close> appends the task to the FIFO
  list if \<open>now + delay \<le> t\<close>, keeps it waiting otherwise, and treats every other delayed task as
  it would have without the push.
\<close>

lemma PushDelayed_due:
  "case InMemQueue_PushDelayed now q task delay of (r, q1) \<Rightarrow>
     r = None \<and>
     iqItems q1 = iqItems q \<and>
     (iqClosed q \<or>
      (let before = drainDelayedLoop_tick t q; after = drainDelayedLoop_tick t q1 in
         iqItems after = iqItems before @ (if now + delay \<le> t then [task] else []) \<and>
         iqDelayed after =
           iqDelayed before @ (if now + delay \<le> t then [] else [\<lparr>diTask = task, diDue = now + delay\<rparr>])))"
  by (cases "iqClosed q") (simp_all add: InMemQueue_PushDelayed_def drain_tick Let_def)

end
