(* ===== verification/Scheduler_Env.thy ===== *)
theory Scheduler_Env
  imports Task_Scheduler InMem_Queue
begin

text \<open>
  What holds of the scheduler: the parts of the state each handler leaves alone, the bounds a
  tick keeps (slots, CPU, memory), its termination and its conservation of tasks, retries and
  their backoff, the node selection, the exclusiveness of claims, the channels of the nodes.

  The client lemmas rest on the contracts \<open>task_store\<close> and \<open>task_queue\<close> alone, joined in the locale
  \<open>scheduler_env\<close>; it is interpreted on the store over the database in memory and the in-memory
  queue. The properties repeat the contracts as hypotheses, so they hold of every implementation.
\<close>

section \<open>Frames\<close>

definition sched_config where
  "sched_config s = (sStore s, sNodeMgr s, sTickInterval s, sMaxConcurrent s, sTotalCPU s,
     sTotalMemMB s, sRdb s, sQueue s, sEtcd s, sSchedulerID s, sLeaseID s)"

text \<open>What an observer sees that does not look at what a handler writes.\<close>

lemma storeUpdate_obs:
  assumes "\<And>s x. f (s\<lparr>sDB := x\<rparr>) = f s" and "storeUpdate now s t = (e, t', s1)"
  shows "f s1 = f s"
  using assms by (auto simp: storeUpdate_def split: prod.splits)

lemma countDaily_obs:
  assumes "\<And>s x. f (s\<lparr>sRedis := x\<rparr>) = f s"
  shows "f (countDaily now s c) = f s"
  using assms by (simp add: countDaily_def split: option.split)

lemma failTask_obs:
  assumes "\<And>s x. f (s\<lparr>sDB := x\<rparr>) = f s" and "\<And>s x. f (s\<lparr>sRedis := x\<rparr>) = f s"
    and "\<And>s x. f (s\<lparr>sQ := x\<rparr>) = f s" and "\<And>s x. f (s\<lparr>sPanicked := x\<rparr>) = f s"
  shows "f (failTask now s t msg) = f s"
  using storeUpdate_obs [of f, OF assms(1)] countDaily_obs [of f, OF assms(2)] assms(3,4)
  by (simp add: failTask_def Let_def split: option.split sum.split prod.split)

lemma completeTask_obs:
  assumes "\<And>s x. f (s\<lparr>sDB := x\<rparr>) = f s" and "\<And>s x. f (s\<lparr>sRedis := x\<rparr>) = f s"
    and "\<And>s x. f (s\<lparr>sQ := x\<rparr>) = f s" and "\<And>s x. f (s\<lparr>sPanicked := x\<rparr>) = f s"
  shows "f (completeTask now s t r) = f s"
  using storeUpdate_obs [of f, OF assms(1)] countDaily_obs [of f, OF assms(2)]
    failTask_obs [of f, OF assms]
  by (simp add: completeTask_def Let_def split: option.split sum.split prod.split)

lemma ClaimTask_obs:
  assumes "\<And>s x. f (s\<lparr>sEtcdState := x\<rparr>) = f s" and "ClaimTask s uid = (r, s1)"
  shows "f s1 = f s"
  using assms by (auto simp: ClaimTask_def split: option.splits prod.splits sum.splits)

lemma dispatchLocal_obs:
  assumes "\<And>s x. f (s\<lparr>sDB := x\<rparr>) = f s" and "\<And>s x. f (s\<lparr>sNextCtx := x\<rparr>) = f s"
    and "\<And>s x. f (s\<lparr>sCancelFuncs := x\<rparr>) = f s" and "\<And>s x. f (s\<lparr>sGoroutines := x\<rparr>) = f s"
  shows "f (dispatchLocal now s t) = f s"
  using storeUpdate_obs [of f, OF assms(1)] assms(2-4)
  by (simp add: dispatchLocal_def registerCancel_def spawnLocal_def
      split: option.split sum.split prod.split)

lemma getOrCreateNodeQueue_obs:
  assumes "\<And>s x. f (s\<lparr>sNodeTasks := x\<rparr>) = f s" and "getOrCreateNodeQueue s nid = (ch, s1)"
  shows "f s1 = f s"
  using assms by (auto simp: getOrCreateNodeQueue_def split: option.splits)

lemma dispatchRemote_obs:
  assumes "\<And>s x. f (s\<lparr>sDB := x\<rparr>) = f s" and "\<And>s x. f (s\<lparr>sNextCtx := x\<rparr>) = f s"
    and "\<And>s x. f (s\<lparr>sCancelFuncs := x\<rparr>) = f s" and "\<And>s x. f (s\<lparr>sGoroutines := x\<rparr>) = f s"
    and "\<And>s x. f (s\<lparr>sNodeTasks := x\<rparr>) = f s"
  shows "f (dispatchRemote now s t n) = f s"
  using storeUpdate_obs [of f, OF assms(1)] getOrCreateNodeQueue_obs [of f, OF assms(5)] assms(2-5)
  by (simp add: dispatchRemote_def registerCancel_def spawnLocal_def Let_def
      split: option.split sum.split prod.split)

lemma dispatch_obs:
  assumes "\<And>s x. f (s\<lparr>sDB := x\<rparr>) = f s" and "\<And>s x. f (s\<lparr>sNextCtx := x\<rparr>) = f s"
    and "\<And>s x. f (s\<lparr>sCancelFuncs := x\<rparr>) = f s" and "\<And>s x. f (s\<lparr>sGoroutines := x\<rparr>) = f s"
    and "\<And>s x. f (s\<lparr>sNodeTasks := x\<rparr>) = f s" and "\<And>s x. f (s\<lparr>sEtcdState := x\<rparr>) = f s"
  shows "f (dispatch sorting now s t) = f s"
  using storeUpdate_obs [of f, OF assms(1)] ClaimTask_obs [of f, OF assms(6)]
    dispatchLocal_obs [of f, OF assms(1-4)] dispatchRemote_obs [of f, OF assms(1-5)]
  by (simp add: dispatch_def Let_def split: option.split sum.split prod.split)

lemma countDaily_frame [sched_frame]:
  "sDB (countDaily now s c) = sDB s" "sQ (countDaily now s c) = sQ s"
  by (simp_all add: countDaily_obs)

lemma failTask_frame [sched_frame]:
  "sched_config (failTask now s t msg) = sched_config s"
  "sNodeTasks (failTask now s t msg) = sNodeTasks s"
  "sGoroutines (failTask now s t msg) = sGoroutines s"
  "sCancelFuncs (failTask now s t msg) = sCancelFuncs s"
  "sEtcdState (failTask now s t msg) = sEtcdState s"
  by (rule failTask_obs; simp add: sched_config_def)+

lemma completeTask_frame [sched_frame]:
  "sched_config (completeTask now s t r) = sched_config s"
  "sNodeTasks (completeTask now s t r) = sNodeTasks s"
  "sGoroutines (completeTask now s t r) = sGoroutines s"
  "sCancelFuncs (completeTask now s t r) = sCancelFuncs s"
  "sEtcdState (completeTask now s t r) = sEtcdState s"
  by (rule completeTask_obs; simp add: sched_config_def)+

lemma ClaimTask_frame:
  assumes "ClaimTask s uid = (r, s1)"
  shows "sched_config s1 = sched_config s" "sDB s1 = sDB s" "sQ s1 = sQ s"
    "sNodeTasks s1 = sNodeTasks s" "sGoroutines s1 = sGoroutines s"
    "sCancelFuncs s1 = sCancelFuncs s" "sPanicked s1 = sPanicked s"
  by (rule ClaimTask_obs [OF _ assms]; simp add: sched_config_def)+

lemma dispatchLocal_frame [sched_frame]:
  "sched_config (dispatchLocal now s t) = sched_config s"
  "sQ (dispatchLocal now s t) = sQ s"
  "sNodeTasks (dispatchLocal now s t) = sNodeTasks s"
  "sPanicked (dispatchLocal now s t) = sPanicked s"
  by (rule dispatchLocal_obs; simp add: sched_config_def)+

lemma dispatch_frame [sched_frame]:
  "sched_config (dispatch sorting now s t) = sched_config s"
  "sQ (dispatch sorting now s t) = sQ s"
  "sPanicked (dispatch sorting now s t) = sPanicked s"
  by (rule dispatch_obs; simp add: sched_config_def)+

section \<open>What the handlers write\<close>

text \<open>A limit of a task, which nothing the scheduler writes changes.\<close>

definition task_limit :: "(Task \<Rightarrow> int) \<Rightarrow> bool" where
  "task_limit load \<longleftrightarrow>
     (\<forall>t x. load (t\<lparr>tID := x\<rparr>) = load t) \<and> (\<forall>t x. load (t\<lparr>tStatus := x\<rparr>) = load t) \<and>
     (\<forall>t x. load (t\<lparr>tErrorMessage := x\<rparr>) = load t) \<and> (\<forall>t x. load (t\<lparr>tRetryCount := x\<rparr>) = load t) \<and>
     (\<forall>t x. load (t\<lparr>tAssignedNodeID := x\<rparr>) = load t) \<and> (\<forall>t x. load (t\<lparr>tStartedAt := x\<rparr>) = load t) \<and>
     (\<forall>t x. load (t\<lparr>tFinishedAt := x\<rparr>) = load t) \<and> (\<forall>t x. load (t\<lparr>tCreatedAt := x\<rparr>) = load t) \<and>
     (\<forall>t x. load (t\<lparr>tUpdatedAt := x\<rparr>) = load t)"

lemma task_limits [simp]: "task_limit tCPULimit" "task_limit tMemoryLimit" "task_limit (\<lambda>_. 1)"
  by (simp_all add: task_limit_def)

lemma task_limit_stored: "task_limit load \<Longrightarrow> load (stored_task f old t) = load t"
  by (simp add: task_limit_def stored_task_def)

text \<open>One \<^verbatim>\<open>Update\<close>, seen on the map of tasks: nothing, or the row of the task.\<close>

definition row_write ::
    "(go_time \<Rightarrow> go_time) \<Rightarrow> (string \<rightharpoonup> Task) \<Rightarrow> Task \<Rightarrow> (string \<rightharpoonup> Task) \<Rightarrow> bool" where
  "row_write rnd v t v' \<longleftrightarrow> v' = v \<or>
     (\<exists>old. v (tTaskUID t) = Some old \<and> v' = v(tTaskUID t \<mapsto> stored_task rnd old t))"

definition nonneg_limits :: "(Task \<Rightarrow> int) \<Rightarrow> (string \<rightharpoonup> Task) \<Rightarrow> bool" where
  "nonneg_limits load v \<longleftrightarrow> (\<forall>u x. v u = Some x \<longrightarrow> 0 \<le> load x)"

lemma nonneg_limits_1 [simp]: "nonneg_limits (\<lambda>_. 1) v"
  by (simp add: nonneg_limits_def)

lemma row_write_refl: "row_write rnd v t v"
  by (simp add: row_write_def)

lemma row_write_nonneg:
  "row_write rnd v t v' \<Longrightarrow> task_limit load \<Longrightarrow> 0 \<le> load t \<Longrightarrow> nonneg_limits load v \<Longrightarrow> nonneg_limits load v'"
  by (auto simp: row_write_def nonneg_limits_def task_limit_stored split: if_splits)

lemma row_write_allocated:
  assumes w: "row_write rnd v t v'" and load: "task_limit load" and pos: "0 \<le> load t" "nonneg_limits load v"
    and fin: "finite (running_set v)"
  shows "allocated load v' \<le>
    allocated load v + (if canon_status (tStatus t) = TaskStatusRunning then load t else 0)"
proof -
  have pos': "0 \<le> load (the (v w))" if "w \<in> running_set v" for w
    using that pos(2) by (auto simp: running_set_def nonneg_limits_def)
  from w consider "v' = v" | old where "v' = v(tTaskUID t \<mapsto> stored_task rnd old t)"
    by (auto simp: row_write_def)
  then show ?thesis
  proof cases
    case 1
    then show ?thesis using pos(1) by simp
  next
    case (2 old)
    let ?u = "tTaskUID t" and ?x = "stored_task rnd old t"
    show ?thesis
    proof (cases "canon_status (tStatus t) = TaskStatusRunning")
      case True
      then show ?thesis
        using allocated_upd [OF fin, of load ?x ?u] pos' pos(1)
        by (simp add: 2 task_limit_stored [OF load])
    next
      case False
      then have "running_set v' = running_set v - {?u}"
        by (simp add: 2 running_set_upd task_frame)
      moreover have "(\<Sum>w \<in> running_set v - {?u}. load (the (v' w))) =
          (\<Sum>w \<in> running_set v - {?u}. load (the (v w)))"
        by (rule sum.cong) (auto simp: 2)
      moreover have "(\<Sum>w \<in> running_set v - {?u}. load (the (v w))) \<le> allocated load v"
        unfolding allocated_def using fin pos' by (intro sum_mono2) auto
      ultimately show ?thesis using False by (simp add: allocated_def [of load v'])
    qed
  qed
qed

section \<open>The loop over the queue\<close>

text \<open>The ways an iteration goes, whatever the fuel that is left.\<close>

lemma tickLoop_cases [case_names stop run postpone]:
  obtains (stop) s1 where
      "\<And>fuel. tickLoop (Suc fuel) sorting now cpu mem slots s = Some (s1, [], [])"
      "s1 = s \<or> (sQueue s = None \<and> s1 = s\<lparr>sPanicked := True\<rparr>) \<or>
       (\<exists>Q p q1. sQueue s = Some Q \<and> q_Pop Q now (sQ s) (100 * Millisecond) = (p, q1) \<and>
          (\<forall>t. p \<noteq> Inr (Some t)) \<and> s1 = s\<lparr>sQ := q1\<rparr>)"
    | (run) Q t q1 where "0 < slots" "sQueue s = Some Q"
      "q_Pop Q now (sQ s) (100 * Millisecond) = (Inr (Some t), q1)" "canAllocate t cpu mem"
      "\<And>fuel. tickLoop (Suc fuel) sorting now cpu mem slots s =
         map_option (\<lambda>(s', ds, fs). (s', t # ds, fs))
           (tickLoop fuel sorting now (wrap64 (cpu - tCPULimit t)) (wrap64 (mem - tMemoryLimit t))
              (slots - 1) (dispatch sorting now (s\<lparr>sQ := q1\<rparr>) t))"
    | (postpone) Q t q1 where "0 < slots" "sQueue s = Some Q"
      "q_Pop Q now (sQ s) (100 * Millisecond) = (Inr (Some t), q1)" "\<not> canAllocate t cpu mem"
      "\<And>fuel. tickLoop (Suc fuel) sorting now cpu mem slots s =
         map_option (\<lambda>(s', ds, fs). (s', ds, t # fs))
           (tickLoop fuel sorting now cpu mem slots (s\<lparr>sQ := snd (q_PushDelayed Q now q1 t (1 * Second))\<rparr>))"
proof (cases "0 < slots \<and> \<not> sPanicked s")
  case False
  then have "tickLoop (Suc fuel) sorting now cpu mem slots s = Some (s, [], [])" for fuel by auto
  then show thesis using stop [of s] by blast
next
  case go: True
  show thesis
  proof (cases "sQueue s")
    case None
    then show thesis by (intro stop [of "s\<lparr>sPanicked := True\<rparr>"]) (use go in simp_all)
  next
    case (Some Q)
    obtain p q1 where pop: "q_Pop Q now (sQ s) (100 * Millisecond) = (p, q1)" by fastforce
    show thesis
    proof (cases "\<exists>t. p = Inr (Some t)")
      case True
      then obtain t where t: "p = Inr (Some t)" by blast
      note pop' = pop [unfolded t]
      show thesis
      proof (cases "canAllocate t cpu mem")
        case True
        show thesis by (rule run [OF _ Some pop' True]) (use True go Some pop' in simp_all)
      next
        case False
        show thesis by (rule postpone [OF _ Some pop' False]) (use False go Some pop' in simp_all)
      qed
    next
      case False
      have "tickLoop (Suc fuel) sorting now cpu mem slots s = Some (s\<lparr>sQ := q1\<rparr>, [], [])" for fuel
        using False go Some pop by (auto split: sum.split option.split)
      then show thesis by (rule stop) (use False Some pop in auto)
    qed
  qed
qed

lemma tickLoop_mono:
  "tickLoop fuel sorting now cpu mem slots s = Some r \<Longrightarrow> fuel \<le> fuel' \<Longrightarrow>
   tickLoop fuel' sorting now cpu mem slots s = Some r"
proof (induction fuel arbitrary: fuel' cpu mem slots s r)
  case (Suc fuel)
  then obtain f where f: "fuel' = Suc f" "fuel \<le> f" by (cases fuel') auto
  show ?case
  proof (cases rule: tickLoop_cases [of sorting now cpu mem slots s])
    case (stop s1)
    with Suc.prems f show ?thesis by (simp del: tickLoop.simps)
  next
    case (run Q t q1)
    from Suc.prems(1) obtain r' where "tickLoop fuel sorting now (wrap64 (cpu - tCPULimit t))
        (wrap64 (mem - tMemoryLimit t)) (slots - 1) (dispatch sorting now (s\<lparr>sQ := q1\<rparr>) t) = Some r'"
      "r = (\<lambda>(s', ds, fs). (s', t # ds, fs)) r'" unfolding run(5) by auto
    with Suc.IH [OF this(1) f(2)] show ?thesis unfolding f(1) run(5) by simp
  next
    case (postpone Q t q1)
    from Suc.prems(1) obtain r' where "tickLoop fuel sorting now cpu mem slots
        (s\<lparr>sQ := snd (q_PushDelayed Q now q1 t (1 * Second))\<rparr>) = Some r'"
      "r = (\<lambda>(s', ds, fs). (s', ds, t # fs)) r'" unfolding postpone(5) by auto
    with Suc.IH [OF this(1) f(2)] show ?thesis unfolding f(1) postpone(5) by simp
  qed
qed simp

text \<open>What the loop hands out stays within the slots and the resources it was given.\<close>

definition fits :: "(Task \<Rightarrow> int) \<Rightarrow> Task \<Rightarrow> int \<Rightarrow> bool" where
  "fits load t a \<longleftrightarrow> load t \<le> 0 \<or> load t \<le> a"

lemma canAllocate_iff:
  "canAllocate t cpu mem \<longleftrightarrow> fits tCPULimit t cpu \<and> fits tMemoryLimit t mem"
  by (auto simp: canAllocate_def fits_def)

lemma budget_step:
  assumes "fits load t a" "0 \<le> load t" "int64_range a"
  shows "load t + max 0 (wrap64 (a - load t)) \<le> max 0 a"
proof -
  have r: "int64_range (a - load t)"
    using assms by (cases "load t = 0") (auto simp: fits_def int64_range_def)
  show ?thesis
    using assms by (auto simp: wrap64_id [OF r] fits_def max_def)
qed

lemma tickLoop_budget:
  "tickLoop fuel sorting now cpu mem slots s = Some (s', ds, fs) \<Longrightarrow>
     int (length ds) \<le> max 0 slots \<and>
     (int64_range cpu \<longrightarrow> (\<forall>t \<in> set ds. 0 \<le> tCPULimit t) \<longrightarrow> sum_list (map tCPULimit ds) \<le> max 0 cpu) \<and>
     (int64_range mem \<longrightarrow> (\<forall>t \<in> set ds. 0 \<le> tMemoryLimit t) \<longrightarrow> sum_list (map tMemoryLimit ds) \<le> max 0 mem)"
proof (induction fuel arbitrary: cpu mem slots s ds fs)
  case (Suc fuel)
  show ?case
  proof (cases rule: tickLoop_cases [of sorting now cpu mem slots s])
    case (stop s1)
    with Suc.prems show ?thesis by (simp del: tickLoop.simps)
  next
    case (run Q t q1)
    obtain ds' where ds: "ds = t # ds'"
      and r: "tickLoop fuel sorting now (wrap64 (cpu - tCPULimit t)) (wrap64 (mem - tMemoryLimit t))
        (slots - 1) (dispatch sorting now (s\<lparr>sQ := q1\<rparr>) t) = Some (s', ds', fs)"
      using Suc.prems unfolding run(5) by auto
    from run(4) have w: "fits tCPULimit t cpu" "fits tMemoryLimit t mem"
      by (simp_all add: canAllocate_iff)
    have "int (length ds) \<le> max 0 slots" using Suc.IH [OF r] run(1) by (simp add: ds)
    moreover have "sum_list (map tCPULimit ds) \<le> max 0 cpu"
      if "int64_range cpu" "\<forall>t \<in> set ds. 0 \<le> tCPULimit t"
      using Suc.IH [OF r] budget_step [OF w(1) _ that(1)] that(2) by (simp add: ds)
    moreover have "sum_list (map tMemoryLimit ds) \<le> max 0 mem"
      if "int64_range mem" "\<forall>t \<in> set ds. 0 \<le> tMemoryLimit t"
      using Suc.IH [OF r] budget_step [OF w(2) _ that(1)] that(2) by (simp add: ds)
    ultimately show ?thesis by blast
  next
    case (postpone Q t q1)
    obtain fs' where "tickLoop fuel sorting now cpu mem slots
        (s\<lparr>sQ := snd (q_PushDelayed Q now q1 t (1 * Second))\<rparr>) = Some (s', ds, fs')"
      using Suc.prems unfolding postpone(5) by auto
    from Suc.IH [OF this] show ?thesis .
  qed
qed simp

section \<open>The environment of the scheduler\<close>

definition sched_ok :: "'db TaskStore \<Rightarrow> 'q TaskQueue \<Rightarrow> ('q \<Rightarrow> bool) \<Rightarrow>
    ('db, 'q, 'r, 'e) Scheduler \<Rightarrow> bool" where
  "sched_ok S Q qinv s \<longleftrightarrow> sStore s = S \<and> sQueue s = Some Q \<and> qinv (sQ s)"

lemma sched_configD:
  assumes "sched_config s' = sched_config s"
  shows "sStore s' = sStore s" "sQueue s' = sQueue s" "sMaxConcurrent s' = sMaxConcurrent s"
    "sTotalCPU s' = sTotalCPU s" "sTotalMemMB s' = sTotalMemMB s" "sEtcd s' = sEtcd s"
    "sSchedulerID s' = sSchedulerID s"
  using assms by (simp_all add: sched_config_def)

lemmas handler_config =
  failTask_frame(1) [THEN sched_configD(1)] failTask_frame(1) [THEN sched_configD(2)]
  failTask_frame(1) [THEN sched_configD(3)] failTask_frame(1) [THEN sched_configD(4)]
  failTask_frame(1) [THEN sched_configD(5)]
  dispatch_frame(1) [THEN sched_configD(1)] dispatch_frame(1) [THEN sched_configD(2)]
  dispatchLocal_frame(1) [THEN sched_configD(1)]
  completeTask_frame(1) [THEN sched_configD(1)]

locale scheduler_env = task_store S view rnd + task_queue Q qinv ready waiting
  for S :: "'db TaskStore" and view :: "'db \<Rightarrow> string \<rightharpoonup> Task" and rnd :: "go_time \<Rightarrow> go_time"
    and Q :: "'q TaskQueue" and qinv :: "'q \<Rightarrow> bool"
    and ready :: "'q \<Rightarrow> string multiset" and waiting :: "'q \<Rightarrow> string multiset"
begin

lemma storeUpdate_write:
  assumes "storeUpdate now s t = (r, t', s1)" and "sStore s = S"
  shows "t' = t\<lparr>tUpdatedAt := now\<rparr>" and "row_write rnd (view (sDB s)) t' (view (sDB s1))"
    and "s1 = s\<lparr>sDB := sDB s1\<rparr>"
proof -
  obtain db' where u: "ts_Update S now (sDB s) t = (r, t', db')" and s1: "s1 = s\<lparr>sDB := db'\<rparr>"
    using assms by (auto simp: storeUpdate_def split: prod.splits)
  show "t' = t\<lparr>tUpdatedAt := now\<rparr>" using update_task [OF u] .
  then show "row_write rnd (view (sDB s)) t' (view (sDB s1))"
    using update_ok [of now "sDB s" t t' db'] update_err [of now "sDB s" t _ t' db'] u s1
    by (cases r) (auto simp: row_write_def split: option.splits)
  show "s1 = s\<lparr>sDB := sDB s1\<rparr>" by (simp add: s1)
qed

lemma failTask_write:
  assumes ok: "sched_ok S Q qinv s"
  shows "\<exists>x. row_write rnd (view (sDB s)) x (view (sDB (failTask now s t msg))) \<and>
      tTaskUID x = tTaskUID t \<and> canon_status (tStatus x) \<noteq> TaskStatusRunning \<and>
      (\<forall>load. task_limit load \<longrightarrow> load x = load t)"
proof -
  have S: "sStore s = S" and Q: "sQueue s = Some Q" using ok by (simp_all add: sched_ok_def)
  show ?thesis
  proof (cases "CanRetry (t\<lparr>tErrorMessage := msg\<rparr>)")
    case True
    let ?x = "t\<lparr>tErrorMessage := msg, tRetryCount := tRetryCount t + 1, tStatus := TaskStatusPending,
        tFinishedAt := None\<rparr>"
    obtain r t' s1 where u: "storeUpdate now s ?x = (r, t', s1)" by (metis prod.collapse)
    note w = storeUpdate_write [OF u S]
    have "sDB (failTask now s t msg) = sDB s1"
      using True u by (auto simp: failTask_def Let_def split: option.split)
    with w(1,2) show ?thesis by (intro exI [of _ t']) (simp add: task_limit_def)
  next
    case False
    let ?t = "t\<lparr>tErrorMessage := msg, tFinishedAt := Some now\<rparr>"
    show ?thesis
    proof (cases rule: TransitionTo_cases [of ?t TaskStatusFailed now])
      case ok
      let ?x = "?t\<lparr>tStatus := TaskStatusFailed, tUpdatedAt := now\<rparr>"
      obtain r t' s1 where u: "storeUpdate now s ?x = (r, t', s1)" by (metis prod.collapse)
      note w = storeUpdate_write [OF u S]
      have "sDB (failTask now s t msg) = sDB s1"
        using False ok(2) u by (simp add: failTask_def Let_def sched_frame)
      with w(1,2) show ?thesis by (intro exI [of _ t']) (simp add: task_limit_def)
    next
      case (refused e)
      then have "failTask now s t msg = s" using False by (simp add: failTask_def Let_def)
      then show ?thesis
        by (intro exI [of _ "t\<lparr>tStatus := TaskStatusPending\<rparr>"]) (simp add: row_write_refl task_limit_def)
    qed
  qed
qed

lemma dispatchLocal_write:
  assumes S: "sStore s = S"
  shows "\<exists>x. row_write rnd (view (sDB s)) x (view (sDB (dispatchLocal now s t))) \<and>
      tTaskUID x = tTaskUID t \<and> (\<forall>load. task_limit load \<longrightarrow> load x = load t)"
proof (cases rule: TransitionTo_cases [of t TaskStatusRunning now])
  case ok
  let ?x = "t\<lparr>tStatus := TaskStatusRunning, tUpdatedAt := now, tStartedAt := Some now\<rparr>"
  obtain r t' s1 where u: "storeUpdate now s ?x = (r, t', s1)" by (metis prod.collapse)
  note w = storeUpdate_write [OF u S]
  have "sDB (dispatchLocal now s t) = sDB s1"
    using ok(2) u
    by (simp add: dispatchLocal_def registerCancel_def spawnLocal_def split: option.split)
  with w(1,2) show ?thesis by (intro exI [of _ t']) (simp add: task_limit_def)
next
  case (refused e)
  then show ?thesis
    by (intro exI [of _ t]) (simp add: dispatchLocal_def row_write_refl)
qed

lemma dispatchRemote_write:
  assumes S: "sStore s = S"
  shows "\<exists>x. row_write rnd (view (sDB s)) x (view (sDB (dispatchRemote now s t n))) \<and>
      tTaskUID x = tTaskUID t \<and> (\<forall>load. task_limit load \<longrightarrow> load x = load t)"
proof (cases rule: TransitionTo_cases [of t TaskStatusRunning now])
  case ok
  let ?x = "t\<lparr>tStatus := TaskStatusRunning, tUpdatedAt := now, tAssignedNodeID := nNodeID n,
      tStartedAt := Some now\<rparr>"
  obtain r t' s1 where u: "storeUpdate now s ?x = (r, t', s1)" by (metis prod.collapse)
  note w = storeUpdate_write [OF u S]
  have "sDB (dispatchRemote now s t n) = sDB s1"
    using ok(2) u
    by (auto simp: dispatchRemote_def registerCancel_def spawnLocal_def Let_def
        getOrCreateNodeQueue_def split: option.split)
  with w(1,2) show ?thesis by (intro exI [of _ t']) (simp add: task_limit_def)
next
  case (refused e)
  then show ?thesis
    by (intro exI [of _ t]) (simp add: dispatchRemote_def row_write_refl)
qed

text \<open>A dispatch writes at most twice, and only the second time a running task.\<close>

lemma dispatch_write:
  assumes S: "sStore s = S"
  shows "\<exists>x w y. row_write rnd (view (sDB s)) x w \<and>
      row_write rnd w y (view (sDB (dispatch sorting now s t))) \<and>
      canon_status (tStatus x) \<noteq> TaskStatusRunning \<and>
      tTaskUID x = tTaskUID t \<and> tTaskUID y = tTaskUID t \<and>
      (\<forall>load. task_limit load \<longrightarrow> load x = load t \<and> load y = load t)"
    (is "\<exists>x w y. ?P x w y")
proof -
  let ?p = "t\<lparr>tStatus := TaskStatusPending\<rparr>"
  obtain r s1 where c: "ClaimTask s (tTaskUID t) = (r, s1)" by fastforce
  note f = ClaimTask_frame [OF c]
  have S1: "sStore s1 = S" using f(1) S by (simp add: sched_config_def)
  have none: ?thesis if "sDB (dispatch sorting now s t) = sDB s"
    using that by (intro exI [of _ ?p] exI [of _ "view (sDB s)"])
      (simp add: row_write_refl task_limit_def)
  have place: "\<exists>y. row_write rnd (view (sDB s2)) y (view (sDB (case SelectNode sorting s2 a of
        Inl e \<Rightarrow> dispatchLocal now s2 a | Inr None \<Rightarrow> dispatchLocal now s2 a
      | Inr (Some node) \<Rightarrow> dispatchRemote now s2 a node))) \<and>
      tTaskUID y = tTaskUID a \<and> (\<forall>load. task_limit load \<longrightarrow> load y = load a)"
    if "sStore s2 = S" for s2 a
    using dispatchLocal_write [OF that] dispatchRemote_write [OF that]
    by (auto split: sum.split option.split)
  consider (skip) "\<not> (\<exists>b. r = Inr b \<and> b)" | (go) "r = Inr True" by (cases r) auto
  then show ?thesis
  proof cases
    case skip
    then have "dispatch sorting now s t = s1" by (auto simp: dispatch_def c split: sum.split)
    with none f(2) show ?thesis by simp
  next
    case go
    show ?thesis
    proof (cases "tStatus t = TaskStatusCreated")
      case True
      then have "TransitionTo now t TaskStatusPending = Inr (t\<lparr>tStatus := TaskStatusPending, tUpdatedAt := now\<rparr>)"
        by (simp add: TransitionTo_iff lifecycle.enqueue)
      moreover obtain r' x s2 where
        u: "storeUpdate now s1 (t\<lparr>tStatus := TaskStatusPending, tUpdatedAt := now\<rparr>) = (r', x, s2)"
        by (metis prod.collapse)
      note w = storeUpdate_write [OF u S1]
      have S2: "sStore s2 = S" by (subst w(3)) (simp add: S1)
      have x: "row_write rnd (view (sDB s)) x (view (sDB s2))" "tTaskUID x = tTaskUID t"
        "canon_status (tStatus x) \<noteq> TaskStatusRunning" "\<And>load. task_limit load \<Longrightarrow> load x = load t"
        using w(1,2) f(2) by (simp_all add: task_limit_def)
      show ?thesis
      proof (cases r')
        case (Some e)
        with True calculation go u have "dispatch sorting now s t = s2" by (simp add: dispatch_def c)
        with x show ?thesis by (intro exI [of _ x] exI [of _ "view (sDB s2)"]) (simp add: row_write_refl)
      next
        case None
        with True calculation go u have "dispatch sorting now s t = (case SelectNode sorting s2 x of
            Inl e \<Rightarrow> dispatchLocal now s2 x | Inr None \<Rightarrow> dispatchLocal now s2 x
          | Inr (Some node) \<Rightarrow> dispatchRemote now s2 x node)"
          by (simp add: dispatch_def c Let_def)
        with place [OF S2, of x] x show ?thesis by metis
      qed
    next
      case False
      with go have "dispatch sorting now s t = (case SelectNode sorting s1 t of
          Inl e \<Rightarrow> dispatchLocal now s1 t | Inr None \<Rightarrow> dispatchLocal now s1 t
        | Inr (Some node) \<Rightarrow> dispatchRemote now s1 t node)"
        by (simp add: dispatch_def c Let_def)
      with place [OF S1, of t] f(2) obtain y where
        "row_write rnd (view (sDB s)) y (view (sDB (dispatch sorting now s t)))"
        "tTaskUID y = tTaskUID t" "\<forall>load. task_limit load \<longrightarrow> load y = load t" by auto
      then show ?thesis
        by (intro exI [of _ ?p] exI [of _ "view (sDB s)"] exI [of _ y])
          (simp add: row_write_refl task_limit_def)
    qed
  qed
qed

text \<open>A failure pushes a copy of the task with one more retry, or nothing.\<close>

lemma failTask_queue:
  assumes ok: "sched_ok S Q qinv s"
  obtains (same) "sQ (failTask now s t msg) = sQ s"
    | (retry) x d where "CanRetry t" "tTaskUID x = tTaskUID t" "tRetryCount x = tRetryCount t + 1"
        "\<And>load. task_limit load \<Longrightarrow> load x = load t"
        "sQ (failTask now s t msg) = snd (q_PushDelayed Q now (sQ s) x d)"
proof (cases "CanRetry (t\<lparr>tErrorMessage := msg\<rparr>)")
  case True
  let ?x = "t\<lparr>tErrorMessage := msg, tRetryCount := tRetryCount t + 1, tStatus := TaskStatusPending,
      tFinishedAt := None\<rparr>"
  obtain r t' db where u: "ts_Update S now (sDB s) ?x = (r, t', db)" by (metis prod.collapse)
  from update_task [OF u] have "t' = ?x\<lparr>tUpdatedAt := now\<rparr>" .
  moreover have "CanRetry t" using True by (simp add: CanRetry_def)
  ultimately show thesis
    using True u ok that(1) that(2) [of t' "the (retryDelay (tRetryIntervalSec t') (tRetryCount t'))"]
    by (cases r; cases "retryDelay (tRetryIntervalSec t') (tRetryCount t')")
      (simp_all add: failTask_def storeUpdate_def Let_def sched_ok_def task_limit_def)
next
  case False
  with that(1) show thesis
    by (auto simp: failTask_def storeUpdate_def Let_def sched_frame split: sum.split prod.split)
qed

lemma failTask_ok:
  assumes ok: "sched_ok S Q qinv s"
  shows "sched_ok S Q qinv (failTask now s t msg)"
    and "ready (sQ (failTask now s t msg)) = ready (sQ s)"
proof -
  have "qinv (sQ s)" using ok by (simp add: sched_ok_def)
  then have "qinv (sQ (failTask now s t msg)) \<and> ready (sQ (failTask now s t msg)) = ready (sQ s)"
    by (cases rule: failTask_queue [OF ok, of now t msg])
      (auto simp: push_delayed_inv push_delayed_ready)
  then show "sched_ok S Q qinv (failTask now s t msg)"
    and "ready (sQ (failTask now s t msg)) = ready (sQ s)"
    using ok by (simp_all add: sched_ok_def handler_config)
qed

lemma failTask_allocated:
  assumes ok: "sched_ok S Q qinv s" and load: "task_limit load" "0 \<le> load t" "nonneg_limits load (view (sDB s))"
  shows "allocated load (view (sDB (failTask now s t msg))) \<le> allocated load (view (sDB s)) \<and>
    nonneg_limits load (view (sDB (failTask now s t msg)))"
proof -
  obtain x where x: "row_write rnd (view (sDB s)) x (view (sDB (failTask now s t msg)))"
    "canon_status (tStatus x) \<noteq> TaskStatusRunning" "load x = load t"
    using failTask_write [OF ok] load(1) by blast
  show ?thesis
    using row_write_allocated [OF x(1) load(1)] row_write_nonneg [OF x(1) load(1)] x(2,3) load(2,3)
    by simp
qed

lemma checkRunning_ok:
  assumes "sched_ok S Q qinv s" and "checkRunning now ts c m s = (c', m', s')"
  shows "sched_ok S Q qinv s' \<and> sched_config s' = sched_config s \<and> ready (sQ s') = ready (sQ s)"
  using assms
  by (induction now ts c m s rule: checkRunning.induct)
    (auto simp: failTask_ok sched_frame split: if_splits)

lemma checkRunning_allocated:
  assumes "task_limit load"
  shows "sched_ok S Q qinv s \<Longrightarrow> checkRunning now ts c m s = (c', m', s') \<Longrightarrow>
     \<forall>t \<in> set ts. 0 \<le> load t \<Longrightarrow> nonneg_limits load (view (sDB s)) \<Longrightarrow>
     allocated load (view (sDB s')) \<le> allocated load (view (sDB s)) \<and> nonneg_limits load (view (sDB s'))"
proof (induction now ts c m s rule: checkRunning.induct)
  case (2 now t ts c m s)
  show ?case
  proof (cases "sPanicked s")
    case True
    with 2 show ?thesis by simp
  next
    case False
    let ?s = "if timedOut now t then failTask now s t ''task timed out'' else s"
    have ok: "sched_ok S Q qinv ?s" using 2(2) by (simp add: failTask_ok)
    have first: "allocated load (view (sDB ?s)) \<le> allocated load (view (sDB s)) \<and>
        nonneg_limits load (view (sDB ?s))"
      using failTask_allocated [OF 2(2) assms, of t] 2(4,5) by simp
    from 2(1) [OF False ok] 2(3,4) first False have
      "allocated load (view (sDB s')) \<le> allocated load (view (sDB ?s)) \<and> nonneg_limits load (view (sDB s'))"
      by simp
    with first show ?thesis by linarith
  qed
qed simp

lemma dispatch_ok:
  "sched_ok S Q qinv (s\<lparr>sQ := q\<rparr>) \<Longrightarrow> sched_ok S Q qinv (dispatch sorting now (s\<lparr>sQ := q\<rparr>) t)"
  by (simp add: sched_ok_def sched_frame handler_config)

lemma dispatch_allocated:
  assumes S: "sStore s = S" and load: "task_limit load" "0 \<le> load t" "nonneg_limits load (view (sDB s))"
  shows "allocated load (view (sDB (dispatch sorting now s t))) \<le> allocated load (view (sDB s)) + load t \<and>
    nonneg_limits load (view (sDB (dispatch sorting now s t)))"
proof -
  obtain x w y where x: "row_write rnd (view (sDB s)) x w" "canon_status (tStatus x) \<noteq> TaskStatusRunning"
    and y: "row_write rnd w y (view (sDB (dispatch sorting now s t)))" and l: "load x = load t" "load y = load t"
    using dispatch_write [OF S] load(1) by blast
  have "running_set w \<subseteq> insert (tTaskUID x) (running_set (view (sDB s)))"
    using x(1) by (auto simp: row_write_def running_set_def split: if_splits)
  then have fin: "finite (running_set w)"
    by (rule finite_subset) simp
  have "allocated load w \<le> allocated load (view (sDB s))" "nonneg_limits load w"
    using row_write_allocated [OF x(1) load(1)] row_write_nonneg [OF x(1) load(1)] x(2) l load(2,3)
    by simp_all
  moreover have "allocated load (view (sDB (dispatch sorting now s t))) \<le> allocated load w + load t \<and>
      nonneg_limits load (view (sDB (dispatch sorting now s t)))"
    using row_write_allocated [OF y load(1)] row_write_nonneg [OF y load(1)] l load(2) fin
      \<open>nonneg_limits load w\<close> by (simp split: if_splits)
  ultimately show ?thesis by linarith
qed

lemma sched_ok_queue: "sched_ok S Q qinv s \<Longrightarrow> qinv q \<Longrightarrow> sched_ok S Q qinv (s\<lparr>sQ := q\<rparr>)"
  by (simp add: sched_ok_def)

text \<open>The loop ends within as many iterations as there were ready tasks, and one.\<close>

lemma tickLoop_terminates:
  "sched_ok S Q qinv s \<Longrightarrow> size (ready (sQ s)) < fuel \<Longrightarrow>
   \<exists>r. tickLoop fuel sorting now cpu mem slots s = Some r"
proof (induction fuel arbitrary: cpu mem slots s)
  case (Suc fuel)
  have q: "sQueue s = Some Q" "qinv (sQ s)" using Suc.prems by (simp_all add: sched_ok_def)
  show ?case
  proof (cases rule: tickLoop_cases [of sorting now cpu mem slots s])
    case (stop s1)
    then show ?thesis by blast
  next
    case (run Q' t q1)
    with q(1) have pop: "q_Pop Q now (sQ s) (100 * Millisecond) = (Inr (Some t), q1)" by simp
    have "size (ready q1) < fuel" using pop_decreases [OF q(2) pop] Suc.prems(2) by simp
    with Suc.IH [OF dispatch_ok [OF sched_ok_queue [OF Suc.prems(1) pop_inv [OF q(2) pop]]]]
    show ?thesis unfolding run(5) by (fastforce simp: sched_frame)
  next
    case (postpone Q' t q1)
    with q(1) have pop: "q_Pop Q now (sQ s) (100 * Millisecond) = (Inr (Some t), q1)" and "Q' = Q"
      by simp_all
    note i = pop_inv [OF q(2) pop]
    have "size (ready q1) < fuel" using pop_decreases [OF q(2) pop] Suc.prems(2) by simp
    then show ?thesis
      using Suc.IH [OF sched_ok_queue [OF Suc.prems(1) push_delayed_inv [OF i]]]
      unfolding postpone(5) \<open>Q' = Q\<close> by (fastforce simp: push_delayed_ready [OF i])
  qed
qed simp

lemma tickLoop_ok:
  "sched_ok S Q qinv s \<Longrightarrow> tickLoop fuel sorting now cpu mem slots s = Some (s', ds, fs) \<Longrightarrow>
   task_limit load \<Longrightarrow> nonneg_limits load (view (sDB s)) \<Longrightarrow> \<forall>t \<in> set ds. 0 \<le> load t \<Longrightarrow>
     allocated load (view (sDB s')) \<le> allocated load (view (sDB s)) + sum_list (map load ds)"
proof (induction fuel arbitrary: cpu mem slots s ds fs)
  case (Suc fuel)
  have q: "sStore s = S" "sQueue s = Some Q" "qinv (sQ s)" using Suc.prems(1) by (simp_all add: sched_ok_def)
  note okq = sched_ok_queue [OF Suc.prems(1)]
  show ?case
  proof (cases rule: tickLoop_cases [of sorting now cpu mem slots s])
    case (stop s1)
    then have "sDB s1 = sDB s" by auto
    with stop(1) Suc.prems(2) show ?thesis by (simp del: tickLoop.simps)
  next
    case (run Q' t q1)
    with q(2) have pop: "q_Pop Q now (sQ s) (100 * Millisecond) = (Inr (Some t), q1)" by simp
    obtain ds' where ds: "ds = t # ds'"
      and r: "tickLoop fuel sorting now (wrap64 (cpu - tCPULimit t)) (wrap64 (mem - tMemoryLimit t))
          (slots - 1) (dispatch sorting now (s\<lparr>sQ := q1\<rparr>) t) = Some (s', ds', fs)"
      using Suc.prems(2) unfolding run(5) by auto
    have "allocated load (view (sDB (dispatch sorting now (s\<lparr>sQ := q1\<rparr>) t))) \<le>
        allocated load (view (sDB s)) + load t \<and>
        nonneg_limits load (view (sDB (dispatch sorting now (s\<lparr>sQ := q1\<rparr>) t)))"
      using dispatch_allocated [of "s\<lparr>sQ := q1\<rparr>" load t sorting now] q(1) Suc.prems(3-5) ds by simp
    with Suc.IH [OF dispatch_ok [OF okq [OF pop_inv [OF q(3) pop]]] r Suc.prems(3)] Suc.prems(5)
    show ?thesis by (simp add: ds)
  next
    case (postpone Q' t q1)
    with q(2) have pop: "q_Pop Q now (sQ s) (100 * Millisecond) = (Inr (Some t), q1)" and "Q' = Q"
      by simp_all
    note i = push_delayed_inv [OF pop_inv [OF q(3) pop]]
    obtain fs' where r: "tickLoop fuel sorting now cpu mem slots
        (s\<lparr>sQ := snd (q_PushDelayed Q now q1 t (1 * Second))\<rparr>) = Some (s', ds, fs')"
      using Suc.prems(2) unfolding postpone(5) \<open>Q' = Q\<close> by auto
    from Suc.IH [OF okq [OF i] r Suc.prems(3)] Suc.prems(4,5) show ?thesis by simp
  qed
qed simp

lemma checkRunning_sums:
  assumes "checkRunning now ts c m s = (c', m', s')" "\<not> sPanicked s'"
    and "\<forall>t \<in> set ts. 0 \<le> tCPULimit t \<and> 0 \<le> tMemoryLimit t" "0 \<le> c" "0 \<le> m"
    and "int64_range (c + sum_list (map tCPULimit ts))" "int64_range (m + sum_list (map tMemoryLimit ts))"
  shows "c' = c + sum_list (map tCPULimit ts) \<and> m' = m + sum_list (map tMemoryLimit ts)"
  using assms
proof (induction now ts c m s rule: checkRunning.induct)
  case (2 now t ts c m s)
  have nn: "0 \<le> sum_list (map tCPULimit ts)" "0 \<le> sum_list (map tMemoryLimit ts)"
    using 2(4) by (auto intro!: sum_list_nonneg)
  have "int64_range (c + tCPULimit t)" "int64_range (m + tMemoryLimit t)"
    using 2(4-8) nn by (auto simp: int64_range_def)
  then have w: "wrap64 (c + tCPULimit t) = c + tCPULimit t" "wrap64 (m + tMemoryLimit t) = m + tMemoryLimit t"
    by (simp_all add: wrap64_id)
  have "\<not> sPanicked s" using 2(2,3) by (auto split: if_splits)
  from 2(1) [OF this] 2(2-8) this show ?case by (simp add: w add.assoc)
qed simp

text \<open>A tick reads the running tasks, and then is the two loops.\<close>

lemma tick_cases:
  assumes ok: "sched_ok S Q qinv s" and t: "tick fuel sorting now s = Some (s', ds, fs)"
  obtains (idle) "s' = s" "ds = []" "fs = []"
    | (work) running cpu mem s1 where "ts_GetRunningTasks S (sDB s) = Inr running"
      "checkRunning now running 0 0 s = (cpu, mem, s1)" "sched_ok S Q qinv s1"
      "sched_config s1 = sched_config s"
      "wrap64 (sMaxConcurrent s - int (length running)) \<le> 0 \<and> s' = s1 \<and> ds = [] \<and> fs = [] \<or>
       wrap64 (sMaxConcurrent s - int (length running)) > 0 \<and>
       tickLoop fuel sorting now (wrap64 (sTotalCPU s - cpu)) (wrap64 (sTotalMemMB s - mem))
         (wrap64 (sMaxConcurrent s - int (length running))) s1 = Some (s', ds, fs)"
proof -
  have S: "sStore s = S" using ok by (simp add: sched_ok_def)
  show thesis
  proof (cases "ts_GetRunningTasks S (sDB s)")
    case (Inl e)
    with t S idle show thesis by (simp add: tick_def)
  next
    case (Inr running)
    obtain cpu mem s1 where c: "checkRunning now running 0 0 s = (cpu, mem, s1)" by (metis prod.collapse)
    note ok1 = checkRunning_ok [OF ok c]
    then have "sMaxConcurrent s1 = sMaxConcurrent s" "sTotalCPU s1 = sTotalCPU s" "sTotalMemMB s1 = sTotalMemMB s"
      using sched_configD by blast+
    with t S Inr c ok1 show thesis
      by (intro work [OF Inr c]) (auto simp: tick_def Let_def split: if_splits)
  qed
qed

lemma tick_terminates:
  assumes ok: "sched_ok S Q qinv s" and fuel: "size (ready (sQ s)) < fuel"
  shows "\<exists>r. tick fuel sorting now s = Some r"
proof -
  have S: "sStore s = S" using ok by (simp add: sched_ok_def)
  show ?thesis
  proof (cases "ts_GetRunningTasks S (sDB s)")
    case (Inl e)
    with S show ?thesis by (simp add: tick_def)
  next
    case (Inr running)
    obtain cpu mem s1 where c: "checkRunning now running 0 0 s = (cpu, mem, s1)" by (metis prod.collapse)
    from checkRunning_ok [OF ok c] have "sched_ok S Q qinv s1" "size (ready (sQ s1)) < fuel"
      using fuel by simp_all
    from tickLoop_terminates [OF this] show ?thesis
      using S Inr c by (auto simp: tick_def Let_def)
  qed
qed

lemma tick_allocated:
  assumes ok: "sched_ok S Q qinv s" and t: "tick fuel sorting now s = Some (s', ds, fs)"
    and load: "task_limit load" "nonneg_limits load (view (sDB s))" "\<forall>t \<in> set ds. 0 \<le> load t"
  shows "allocated load (view (sDB s')) \<le> allocated load (view (sDB s)) + sum_list (map load ds)"
proof (cases rule: tick_cases [OF ok t, case_names idle work])
  case (work running cpu mem s1)
  have "\<forall>t \<in> set running. 0 \<le> load t"
    using running_ok [OF work(1)] load(2) by (auto simp: nonneg_limits_def)
  from checkRunning_allocated [OF load(1) ok work(2) this load(2)]
  have 1: "allocated load (view (sDB s1)) \<le> allocated load (view (sDB s))"
    "nonneg_limits load (view (sDB s1))" by simp_all
  from work(5) show ?thesis
  proof (elim disjE conjE)
    assume "tickLoop fuel sorting now (wrap64 (sTotalCPU s - cpu)) (wrap64 (sTotalMemMB s - mem))
      (wrap64 (sMaxConcurrent s - int (length running))) s1 = Some (s', ds, fs)"
    from tickLoop_ok [OF work(3) this load(1) 1(2) load(3)] 1(1) show ?thesis by linarith
  qed (use 1 in simp)
qed simp

lemma tick_slots:
  assumes ok: "sched_ok S Q qinv s" and t: "tick fuel sorting now s = Some (s', ds, fs)"
    and range: "0 \<le> sMaxConcurrent s" "int64_range (sMaxConcurrent s)"
      "int64_range (int (card (running_set (view (sDB s)))))"
  shows "int (card (running_set (view (sDB s')))) \<le>
      max (sMaxConcurrent s) (int (card (running_set (view (sDB s)))))"
proof -
  have card: "allocated (\<lambda>_. 1) v = int (card (running_set v))" for v :: "string \<rightharpoonup> Task"
    by (simp add: allocated_def)
  have ds: "int (length ds) \<le> max 0 (sMaxConcurrent s - int (card (running_set (view (sDB s)))))"
  proof (cases rule: tick_cases [OF ok t, case_names idle work])
    case (work running cpu mem s1)
    have "wrap64 (sMaxConcurrent s - int (length running)) =
        sMaxConcurrent s - int (card (running_set (view (sDB s))))"
      using range by (simp add: running_list(1) [OF work(1)] wrap64_id int64_range_def)
    with work(5) tickLoop_budget show ?thesis by fastforce
  qed simp
  from tick_allocated [OF ok t, of "\<lambda>_. 1"] ds show ?thesis
    by (simp add: card sum_list_triv) 
qed

end

text \<open>The same with a queue that keeps what it was given.\<close>

locale reliable_env = scheduler_env S view rnd Q qinv ready waiting +
    reliable_queue Q qinv ready waiting tasks
  for S :: "'db TaskStore" and view :: "'db \<Rightarrow> string \<rightharpoonup> Task" and rnd :: "go_time \<Rightarrow> go_time"
    and Q :: "'q TaskQueue" and qinv :: "'q \<Rightarrow> bool"
    and ready :: "'q \<Rightarrow> string multiset" and waiting :: "'q \<Rightarrow> string multiset"
    and tasks :: "'q \<Rightarrow> Task multiset"
begin

lemma push_delayed_tasks: "qinv q \<Longrightarrow> tasks (snd (q_PushDelayed Q now q t d)) = add_mset t (tasks q)"
  using push_delayed_ok by (metis prod.collapse)

lemma checkRunning_tasks:
  "sched_ok S Q qinv s \<Longrightarrow> checkRunning now ts c m s = (c', m', s') \<Longrightarrow>
   \<exists>retried. tasks (sQ s') = tasks (sQ s) + retried \<and>
     (\<forall>x \<in># retried. \<exists>t \<in> set ts. timedOut now t \<and> CanRetry t \<and> tTaskUID x = tTaskUID t \<and>
        tRetryCount x = tRetryCount t + 1 \<and> tCPULimit x = tCPULimit t \<and> tMemoryLimit x = tMemoryLimit t)"
proof (induction now ts c m s rule: checkRunning.induct)
  case (2 now t ts c m s)
  show ?case
  proof (cases "sPanicked s")
    case True
    with 2 show ?thesis by (intro exI [of _ "{#}"]) simp
  next
    case False
    let ?s = "if timedOut now t then failTask now s t ''task timed out'' else s"
    have ok: "sched_ok S Q qinv ?s" using 2(2) by (simp add: failTask_ok)
    have first: "\<exists>r. tasks (sQ ?s) = tasks (sQ s) + r \<and> (\<forall>x \<in># r. timedOut now t \<and> CanRetry t \<and>
        tTaskUID x = tTaskUID t \<and> tRetryCount x = tRetryCount t + 1 \<and>
        tCPULimit x = tCPULimit t \<and> tMemoryLimit x = tMemoryLimit t)"
    proof (cases "timedOut now t")
      case True
      show ?thesis
      proof (cases rule: failTask_queue [OF 2(2), of now t "''task timed out''"])
        case 1
        then show ?thesis by (intro exI [of _ "{#}"]) simp
      next
        case (2 x d)
        have "qinv (sQ s)" using \<open>sched_ok S Q qinv s\<close> by (simp add: sched_ok_def)
        with True 2 show ?thesis
          by (intro exI [of _ "{#x#}"]) (simp add: push_delayed_tasks)
      qed
    qed (intro exI [of _ "{#}"], simp)
    then obtain r where r: "tasks (sQ ?s) = tasks (sQ s) + r" "\<forall>x \<in># r. timedOut now t \<and> CanRetry t \<and>
        tTaskUID x = tTaskUID t \<and> tRetryCount x = tRetryCount t + 1 \<and>
        tCPULimit x = tCPULimit t \<and> tMemoryLimit x = tMemoryLimit t" by blast
    from 2(1) [OF False ok] 2(3) False obtain r' where r': "tasks (sQ s') = tasks (sQ ?s) + r'"
      "\<forall>x \<in># r'. \<exists>t \<in> set ts. timedOut now t \<and> CanRetry t \<and> tTaskUID x = tTaskUID t \<and>
        tRetryCount x = tRetryCount t + 1 \<and> tCPULimit x = tCPULimit t \<and> tMemoryLimit x = tMemoryLimit t"
      by auto
    with r show ?thesis by (intro exI [of _ "r + r'"]) auto
  qed
qed (intro exI [of _ "{#}"], simp)

lemma tickLoop_tasks:
  "sched_ok S Q qinv s \<Longrightarrow> tickLoop fuel sorting now cpu mem slots s = Some (s', ds, fs) \<Longrightarrow>
   tasks (sQ s) = mset ds + tasks (sQ s')"
proof (induction fuel arbitrary: cpu mem slots s ds fs)
  case (Suc fuel)
  have q: "sQueue s = Some Q" "qinv (sQ s)" using Suc.prems(1) by (simp_all add: sched_ok_def)
  note okq = sched_ok_queue [OF Suc.prems(1)]
  show ?case
  proof (cases rule: tickLoop_cases [of sorting now cpu mem slots s])
    case (stop s1)
    have "tasks (sQ s1) = tasks (sQ s)"
      using stop(2) q pop_ok [OF q(2)] by (fastforce split: sum.splits option.splits)
    with stop(1) Suc.prems(2) show ?thesis by (simp del: tickLoop.simps)
  next
    case (run Q' t q1)
    with q(1) have pop: "q_Pop Q now (sQ s) (100 * Millisecond) = (Inr (Some t), q1)" by simp
    obtain ds' where ds: "ds = t # ds'"
      and r: "tickLoop fuel sorting now (wrap64 (cpu - tCPULimit t)) (wrap64 (mem - tMemoryLimit t))
          (slots - 1) (dispatch sorting now (s\<lparr>sQ := q1\<rparr>) t) = Some (s', ds', fs)"
      using Suc.prems(2) unfolding run(5) by auto
    from Suc.IH [OF dispatch_ok [OF okq [OF pop_inv [OF q(2) pop]]] r] pop_ok [OF q(2) pop]
    show ?thesis by (simp add: ds sched_frame)
  next
    case (postpone Q' t q1)
    with q(1) have pop: "q_Pop Q now (sQ s) (100 * Millisecond) = (Inr (Some t), q1)" and "Q' = Q"
      by simp_all
    note i = push_delayed_inv [OF pop_inv [OF q(2) pop]]
    obtain fs' where r: "tickLoop fuel sorting now cpu mem slots
        (s\<lparr>sQ := snd (q_PushDelayed Q now q1 t (1 * Second))\<rparr>) = Some (s', ds, fs')"
      using Suc.prems(2) unfolding postpone(5) \<open>Q' = Q\<close> by auto
    from Suc.IH [OF okq [OF i] r] defer_tasks [OF q(2) pop prod.collapse [symmetric]]
    show ?thesis by simp
  qed
qed simp

lemma tick_tasks:
  assumes ok: "sched_ok S Q qinv s" and t: "tick fuel sorting now s = Some (s', ds, fs)"
  shows "\<exists>retried. tasks (sQ s) + retried = mset ds + tasks (sQ s') \<and>
    (\<forall>x \<in># retried. \<exists>r. view (sDB s) (tTaskUID x) = Some r \<and> tStatus r = TaskStatusRunning \<and>
       timedOut now r \<and> CanRetry r \<and> tRetryCount x = tRetryCount r + 1 \<and>
       tCPULimit x = tCPULimit r \<and> tMemoryLimit x = tMemoryLimit r)"
proof (cases rule: tick_cases [OF ok t, case_names idle work])
  case idle
  then show ?thesis by (intro exI [of _ "{#}"]) simp
next
  case (work running cpu mem s1)
  obtain retried where r: "tasks (sQ s1) = tasks (sQ s) + retried"
    "\<forall>x \<in># retried. \<exists>t \<in> set running. timedOut now t \<and> CanRetry t \<and> tTaskUID x = tTaskUID t \<and>
        tRetryCount x = tRetryCount t + 1 \<and> tCPULimit x = tCPULimit t \<and> tMemoryLimit x = tMemoryLimit t"
    using checkRunning_tasks [OF ok work(2)] by blast
  have "tasks (sQ s1) = mset ds + tasks (sQ s')"
    using work(5) tickLoop_tasks [OF work(3)] by auto
  moreover have "\<exists>r. view (sDB s) (tTaskUID x) = Some r \<and> tStatus r = TaskStatusRunning \<and>
       timedOut now r \<and> CanRetry r \<and> tRetryCount x = tRetryCount r + 1 \<and>
       tCPULimit x = tCPULimit r \<and> tMemoryLimit x = tMemoryLimit r" if "x \<in># retried" for x
    using r(2) that running_ok [OF work(1)] by fastforce
  ultimately show ?thesis using r(1) by metis
qed

lemma tick_resources:
  assumes ok: "sched_ok S Q qinv s" and t: "tick fuel sorting now s = Some (s', ds, fs)"
    and nn: "nonneg_limits tCPULimit (view (sDB s))" "nonneg_limits tMemoryLimit (view (sDB s))"
      "\<forall>t \<in># tasks (sQ s). 0 \<le> tCPULimit t \<and> 0 \<le> tMemoryLimit t"
    and cpu: "0 \<le> sTotalCPU s" "int64_range (sTotalCPU s)" "int64_range (allocated tCPULimit (view (sDB s)))"
    and mem: "0 \<le> sTotalMemMB s" "int64_range (sTotalMemMB s)" "int64_range (allocated tMemoryLimit (view (sDB s)))"
  shows "allocated tCPULimit (view (sDB s')) \<le> max (sTotalCPU s) (allocated tCPULimit (view (sDB s)))"
    and "allocated tMemoryLimit (view (sDB s')) \<le> max (sTotalMemMB s) (allocated tMemoryLimit (view (sDB s)))"
proof -
  obtain retried where r: "tasks (sQ s) + retried = mset ds + tasks (sQ s')"
    "\<forall>x \<in># retried. \<exists>r. view (sDB s) (tTaskUID x) = Some r \<and> tCPULimit x = tCPULimit r \<and> tMemoryLimit x = tMemoryLimit r"
    using tick_tasks [OF ok t] by blast
  have ds: "\<forall>t \<in> set ds. 0 \<le> tCPULimit t \<and> 0 \<le> tMemoryLimit t"
  proof
    fix x assume "x \<in> set ds"
    then have "x \<in># tasks (sQ s) + retried" using r(1) by simp
    then show "0 \<le> tCPULimit x \<and> 0 \<le> tMemoryLimit x"
      using nn r(2) by (fastforce simp: nonneg_limits_def)
  qed
  have pos: "0 \<le> allocated tCPULimit (view (sDB s))" "0 \<le> allocated tMemoryLimit (view (sDB s))"
    using nn by (auto simp: allocated_def nonneg_limits_def running_set_def intro!: sum_nonneg)
  have sums: "sum_list (map tCPULimit ds) \<le> max 0 (sTotalCPU s - allocated tCPULimit (view (sDB s))) \<and>
      sum_list (map tMemoryLimit ds) \<le> max 0 (sTotalMemMB s - allocated tMemoryLimit (view (sDB s)))"
  proof (cases "ds = []")
    case False
    show ?thesis
    proof (cases rule: tick_cases [OF ok t, case_names idle work])
      case (work running c m s1)
      have loop: "tickLoop fuel sorting now (wrap64 (sTotalCPU s - c)) (wrap64 (sTotalMemMB s - m))
         (wrap64 (sMaxConcurrent s - int (length running))) s1 = Some (s', ds, fs)"
        using work(5) False by auto
      then have np: "\<not> sPanicked s1" using False by (cases fuel) (auto split: if_splits)
      have "\<forall>t \<in> set running. 0 \<le> tCPULimit t \<and> 0 \<le> tMemoryLimit t"
        using running_ok [OF work(1)] nn(1,2) by (auto simp: nonneg_limits_def)
      from checkRunning_sums [OF work(2) np this]
      have c: "c = allocated tCPULimit (view (sDB s))" and m: "m = allocated tMemoryLimit (view (sDB s))"
        using cpu mem by (simp_all add: running_list(2) [OF work(1)])
      have w: "wrap64 (sTotalCPU s - c) = sTotalCPU s - c" "wrap64 (sTotalMemMB s - m) = sTotalMemMB s - m"
        unfolding c m using cpu mem pos by (auto simp: wrap64_id int64_range_def)
      have "int64_range (sTotalCPU s - c)" "int64_range (sTotalMemMB s - m)"
        using int64_range_wrap64 [of "sTotalCPU s - c"] int64_range_wrap64 [of "sTotalMemMB s - m"]
        by (simp_all only: w)
      with tickLoop_budget [OF loop] ds show ?thesis unfolding w by (simp add: c m)
    qed (use False in simp)
  qed simp
  show "allocated tCPULimit (view (sDB s')) \<le> max (sTotalCPU s) (allocated tCPULimit (view (sDB s)))"
    using tick_allocated [OF ok t _ nn(1)] ds sums by force
  show "allocated tMemoryLimit (view (sDB s')) \<le> max (sTotalMemMB s) (allocated tMemoryLimit (view (sDB s)))"
    using tick_allocated [OF ok t _ nn(2)] ds sums by force
qed

end

text \<open>The store over the database in memory and the in-memory queue are such an environment.\<close>

abbreviation mem_view :: "task_row list \<Rightarrow> string \<rightharpoonup> Task" where
  "mem_view \<equiv> task_db.task_view mem_rows"

interpretation sys: reliable_env "NewTaskStore mem_pg" mem_view "\<lambda>t. t" InMemTaskQueue queue_inv
    ready_uids waiting_uids queue_tasks
  by unfold_locales

end
