(* ===== verification/Task_Service.thy ===== *)
theory Task_Service
  imports Scheduler_Env
begin

text \<open>
  \<^verbatim>\<open>internal/service/task_service.go\<close>: creation with the duplicate check, lookup, listing,
  cancellation and re-run of tasks. The Redis client is a parameter: a record of the commands
  the file uses over its state.

  The lemmas give the effect of each operation on the table and on the queue, from the contracts
  of store and queue; the duplicate check rests on what Redis promises of \<^verbatim>\<open>SETNX\<close>.
\<close>

section \<open>State\<close>

record 'r redis_svc =
  rv_SetNX :: "'r \<Rightarrow> string \<Rightarrow> string \<Rightarrow> duration \<Rightarrow> bool result \<times> 'r"
  rv_Get :: "'r \<Rightarrow> string \<Rightarrow> string result"
  rv_HIncrBy :: "'r \<Rightarrow> string \<Rightarrow> string \<Rightarrow> int \<Rightarrow> 'r"
  rv_Publish :: "'r \<Rightarrow> string \<Rightarrow> string \<Rightarrow> error option \<times> 'r"
  rv_Date :: "go_time \<Rightarrow> string"

record CreateTaskRequest =
  cqName :: string
  cqCommand :: string
  cqWorkdir :: string
  cqEnv :: "string_map option"
  cqCPULimit :: int
  cqMemoryLimit :: int
  cqTimeoutSec :: int
  cqPriority :: int
  cqNodeSelector :: "string_map option"

record TaskListResult =
  tlTasks :: "Task list"
  tlTotal :: int
  tlPage :: int
  tlSize :: int

record ('db, 'q, 'r) TaskService =
  vStore :: "'db TaskStore"
  vDB :: 'db
  vRdb :: "'r redis_svc option"
  vRedis :: 'r
  vQueue :: "'q TaskQueue option"
  vQ :: 'q

definition NewTaskService ::
    "'db TaskStore \<Rightarrow> 'db \<Rightarrow> 'r redis_svc option \<Rightarrow> 'r \<Rightarrow> 'q TaskQueue option \<Rightarrow> 'q \<Rightarrow> ('db, 'q, 'r) TaskService" where
  "NewTaskService store db rdb r queue q =
     \<lparr>vStore = store, vDB = db, vRdb = rdb, vRedis = r, vQueue = queue, vQ = q\<rparr>"

section \<open>Creation\<close>

text \<open>The new task with the overrides of the request, and its idempotency key.\<close>

definition request_task :: "string \<Rightarrow> go_time \<Rightarrow> CreateTaskRequest \<Rightarrow> Task" where
  "request_task uuid now req =
     (let t0 = NewTask uuid now (cqName req) (cqCommand req);
          t1 = (if cqWorkdir req \<noteq> [] then t0\<lparr>tWorkdir := cqWorkdir req\<rparr> else t0);
          t2 = (case cqEnv req of Some env \<Rightarrow> t1\<lparr>tEnv := env\<rparr> | None \<Rightarrow> t1);
          t3 = (if cqCPULimit req > 0 then t2\<lparr>tCPULimit := cqCPULimit req\<rparr> else t2);
          t4 = (if cqMemoryLimit req > 0 then t3\<lparr>tMemoryLimit := cqMemoryLimit req\<rparr> else t3);
          t5 = (if cqTimeoutSec req > 0 then t4\<lparr>tTimeoutSec := cqTimeoutSec req\<rparr> else t4);
          t6 = (if cqPriority req > 0 then t5\<lparr>tPriority := cqPriority req\<rparr> else t5);
          t7 = (case cqNodeSelector req of Some sel \<Rightarrow> t6\<lparr>tNodeSelector := sel\<rparr> | None \<Rightarrow> t6)
      in SetIdempotencyKey t7)"

definition dedupKey :: "Task \<Rightarrow> string" where
  "dedupKey t = ''tasks:dedup:'' @ tIdempotencyKey t"

text \<open>The duplicate check: the UID of the existing task, if it says that there is one.\<close>

definition checkDuplicate ::
    "('db, 'q, 'r) TaskService \<Rightarrow> Task \<Rightarrow> string option \<times> ('db, 'q, 'r) TaskService" where
  "checkDuplicate s t =
     (case vRdb s of
        None \<Rightarrow> (None, s)
      | Some rdb \<Rightarrow>
          (case rv_SetNX rdb (vRedis s) (dedupKey t) (tTaskUID t) (5 * Minute) of
             (Inr False, r') \<Rightarrow>
               (Some (case rv_Get rdb r' (dedupKey t) of Inl e \<Rightarrow> [] | Inr v \<Rightarrow> v), s\<lparr>vRedis := r'\<rparr>)
           | (_, r') \<Rightarrow> (None, s\<lparr>vRedis := r'\<rparr>)))"

definition CreateTask ::
    "string \<Rightarrow> go_time \<Rightarrow> CreateTaskRequest \<Rightarrow> ('db, 'q, 'r) TaskService \<Rightarrow>
     Task result \<times> ('db, 'q, 'r) TaskService" where
  "CreateTask uuid now req s =
     (let task = request_task uuid now req in
      case checkDuplicate s task of
        (Some existingUID, s1) \<Rightarrow> (Inl (ErrDuplicateTask existingUID), s1)
      | (None, s1) \<Rightarrow>
          (case ts_Create (vStore s1) (vDB s1) task of
             (Inl e, db') \<Rightarrow> (Inl e, s1\<lparr>vDB := db'\<rparr>)
           | (Inr task, db') \<Rightarrow>
               (let s2 = s1\<lparr>vDB := db'\<rparr>;
                    s3 = (case vRdb s2 of
                        None \<Rightarrow> s2
                      | Some rdb \<Rightarrow> s2\<lparr>vRedis := rv_HIncrBy rdb (vRedis s2)
                            (''stats:daily:'' @ rv_Date rdb now) ''submitted'' 1\<rparr>);
                    s4 = (case vQueue s3 of
                        None \<Rightarrow> s3
                      | Some Q \<Rightarrow>
                          if tPriority task > 0 then s3\<lparr>vQ := snd (q_PushPriority Q now (vQ s3) task)\<rparr>
                          else s3\<lparr>vQ := snd (q_Push Q now (vQ s3) task)\<rparr>)
                in (Inr task, s4))))"

section \<open>The other operations\<close>

definition GetTask :: "('db, 'q, 'r) TaskService \<Rightarrow> string \<Rightarrow> Task result" where
  "GetTask s uid = ts_GetByUID (vStore s) (vDB s) uid"

definition ListTasks ::
    "('db, 'q, 'r) TaskService \<Rightarrow> string \<Rightarrow> int \<Rightarrow> int \<Rightarrow> TaskListResult result" where
  "ListTasks s status page size0 =
     (let page = (if page \<le> 0 then 1 else page);
          size0 = (if size0 \<le> 0 then 10 else size0)
      in case ts_List (vStore s) (vDB s) status page size0 of
           Inl e \<Rightarrow> Inl e
         | Inr (tasks, n) \<Rightarrow> Inr \<lparr>tlTasks = tasks, tlTotal = n, tlPage = page, tlSize = size0\<rparr>)"

definition CancelTask ::
    "go_time \<Rightarrow> ('db, 'q, 'r) TaskService \<Rightarrow> string \<Rightarrow> error option \<times> ('db, 'q, 'r) TaskService" where
  "CancelTask now s uid =
     (case ts_GetByUID (vStore s) (vDB s) uid of
        Inl e \<Rightarrow> (Some e, s)
      | Inr task \<Rightarrow>
          if IsTerminal (tStatus task) then (Some ErrAlreadyTerminal, s)
          else (case TransitionTo now task TaskStatusCanceled of
             Inl e \<Rightarrow> (Some e, s)
           | Inr task1 \<Rightarrow>
               (case ts_Update (vStore s) now (vDB s) task1 of
                  (Some e, _, db') \<Rightarrow> (Some e, s\<lparr>vDB := db'\<rparr>)
                | (None, _, db') \<Rightarrow>
                    (let s1 = s\<lparr>vDB := db'\<rparr> in
                     case vRdb s1 of
                       None \<Rightarrow> (None, s1)
                     | Some rdb \<Rightarrow>
                         (case rv_Publish rdb (vRedis s1) (''tasks:cancel:'' @ uid) ''canceled'' of
                            (Some e, r') \<Rightarrow> (Some (ErrWrap ''publish cancel event'' e), s1\<lparr>vRedis := r'\<rparr>)
                          | (None, r') \<Rightarrow> (None, s1\<lparr>vRedis := r'\<rparr>))))))"

definition RerunTask ::
    "string \<Rightarrow> go_time \<Rightarrow> ('db, 'q, 'r) TaskService \<Rightarrow> string \<Rightarrow> Task result \<times> ('db, 'q, 'r) TaskService" where
  "RerunTask uuid now s uid =
     (case ts_GetByUID (vStore s) (vDB s) uid of
        Inl e \<Rightarrow> (Inl e, s)
      | Inr original \<Rightarrow>
          CreateTask uuid now
            \<lparr>cqName = tName original, cqCommand = tCommand original, cqWorkdir = tWorkdir original,
             cqEnv = Some (tEnv original), cqCPULimit = tCPULimit original,
             cqMemoryLimit = tMemoryLimit original, cqTimeoutSec = tTimeoutSec original,
             cqPriority = tPriority original, cqNodeSelector = Some (tNodeSelector original)\<rparr> s)"

section \<open>Lemmas\<close>

lemma request_task_fields [simp]:
  "tTaskUID (request_task uuid now req) = uuid"
  "tStatus (request_task uuid now req) = TaskStatusCreated"
  "tCommand (request_task uuid now req) = cqCommand req"
  "tWorkdir (request_task uuid now req) = (if cqWorkdir req \<noteq> [] then cqWorkdir req else ''/tmp'')"
  "tEnv (request_task uuid now req) = (case cqEnv req of Some env \<Rightarrow> env | None \<Rightarrow> [])"
  "tPriority (request_task uuid now req) = max 0 (cqPriority req)"
  "tCPULimit (request_task uuid now req) = max 0 (cqCPULimit req)"
  "tMemoryLimit (request_task uuid now req) = max 0 (cqMemoryLimit req)"
  "tRetryCount (request_task uuid now req) = 0"
  "tMaxRetries (request_task uuid now req) = 3"
  by (simp_all add: request_task_def Let_def SetIdempotencyKey_def NewTask_def zeroTask_def split: option.split)

lemma request_task_key:
  "tIdempotencyKey (request_task uuid now req) =
     take 16 (hex (sha256 (bytes (cqCommand req @ (if cqWorkdir req \<noteq> [] then cqWorkdir req else ''/tmp'') @
       concat (map (\<lambda>k. k @ map_get (case cqEnv req of Some env \<Rightarrow> env | None \<Rightarrow> []) k)
         (sort (map fst (case cqEnv req of Some env \<Rightarrow> env | None \<Rightarrow> []))))))))"
  by (simp add: request_task_def Let_def SetIdempotencyKey_def idempotency_input_def NewTask_def
      zeroTask_def split: option.split)

lemma checkDuplicate_frame:
  assumes "checkDuplicate s t = (d, s1)"
  shows "vStore s1 = vStore s" "vDB s1 = vDB s" "vRdb s1 = vRdb s" "vQueue s1 = vQueue s" "vQ s1 = vQ s"
  using assms by (auto simp: checkDuplicate_def split: option.splits prod.splits sum.splits bool.splits)

text \<open>A task service whose store and queue keep their contracts.\<close>

definition service_ok :: "'db TaskStore \<Rightarrow> 'q TaskQueue \<Rightarrow> ('q \<Rightarrow> bool) \<Rightarrow> ('db, 'q, 'r) TaskService \<Rightarrow> bool" where
  "service_ok S Q qinv s \<longleftrightarrow> vStore s = S \<and> vQueue s = Some Q \<and> qinv (vQ s)"

text \<open>The branches of a creation.\<close>

lemma CreateTask_cases:
  obtains (duplicate) u s1 where "checkDuplicate s (request_task uuid now req) = (Some u, s1)"
      "CreateTask uuid now req s = (Inl (ErrDuplicateTask u), s1)"
    | (failed) s1 e db' where "checkDuplicate s (request_task uuid now req) = (None, s1)"
      "ts_Create (vStore s) (vDB s) (request_task uuid now req) = (Inl e, db')"
      "CreateTask uuid now req s = (Inl e, s1\<lparr>vDB := db'\<rparr>)"
    | (created) s1 t db' s' where "checkDuplicate s (request_task uuid now req) = (None, s1)"
      "ts_Create (vStore s) (vDB s) (request_task uuid now req) = (Inr t, db')"
      "CreateTask uuid now req s = (Inr t, s')" "vDB s' = db'"
      "vRedis s' = (case vRdb s of None \<Rightarrow> vRedis s1 | Some rdb \<Rightarrow>
         rv_HIncrBy rdb (vRedis s1) (''stats:daily:'' @ rv_Date rdb now) ''submitted'' 1)"
      "vQ s' = (case vQueue s of None \<Rightarrow> vQ s | Some Q \<Rightarrow>
         snd ((if tPriority t > 0 then q_PushPriority Q else q_Push Q) now (vQ s) t))"
      "vStore s' = vStore s" "vRdb s' = vRdb s" "vQueue s' = vQueue s"
proof -
  obtain d s1 where d: "checkDuplicate s (request_task uuid now req) = (d, s1)" by fastforce
  note same = checkDuplicate_frame [OF d]
  show thesis
  proof (cases d)
    case (Some u)
    with d duplicate show thesis by (simp add: CreateTask_def)
  next
    case None
    note d = d [unfolded None]
    obtain r db' where c: "ts_Create (vStore s) (vDB s) (request_task uuid now req) = (r, db')" by fastforce
    show thesis
    proof (cases r)
      case (Inl e)
      with c d same failed show thesis by (simp add: CreateTask_def)
    next
      case (Inr t)
      show thesis
        by (rule created [OF d, of t db' "snd (CreateTask uuid now req s)"])
          (use c d same Inr in \<open>simp_all add: CreateTask_def Let_def split: option.split\<close>)
    qed
  qed
qed

section \<open>Creation: table and queue\<close>

lemma CreateTask_stores_and_queues_env:
  assumes "task_store S view rnd" and "reliable_queue Q qinv ready waiting tasks"
    and "service_ok S Q qinv s"
    and "CreateTask uuid now req s = (r, s')"
  shows "case r of
      Inl e \<Rightarrow> view (vDB s') = view (vDB s) \<and> vQ s' = vQ s
    | Inr t \<Rightarrow> (\<exists>i. t = (request_task uuid now req)\<lparr>tID := i\<rparr>) \<and> view (vDB s) uuid = None \<and>
        view (vDB s') = (view (vDB s))(uuid \<mapsto> created_task rnd t) \<and>
        tasks (vQ s') = add_mset t (tasks (vQ s)) \<and> service_ok S Q qinv s'"
proof (cases rule: CreateTask_cases [of s uuid now req])
  case (duplicate u s1)
  with checkDuplicate_frame [OF duplicate(1)] assms(4) show ?thesis by auto
next
  case (failed s1 e db')
  note f = checkDuplicate_frame [OF failed(1)]
  have "view db' = view (vDB s)"
    using failed(2) assms(1,3) task_store.create_err by (fastforce simp: service_ok_def)
  then show ?thesis using failed(3) assms(4) f by auto
next
  case (created s1 t db' s'')
  have S: "vStore s = S" "vQueue s = Some Q" "qinv (vQ s)" using assms(3) by (simp_all add: service_ok_def)
  have e: "r = Inr t" "s'' = s'" using created(3) assms(4) by simp_all
  note c = task_store.create_ok [OF assms(1) created(2) [unfolded S(1)]]
  obtain o' q' where p: "(if tPriority t > 0 then q_PushPriority Q else q_Push Q) now (vQ s) t = (o', q')"
    by fastforce
  have q: "qinv q' \<and> tasks q' = add_mset t (tasks (vQ s))"
  proof (cases "tPriority t > 0")
    case True
    with p have "q_PushPriority Q now (vQ s) t = (o', q')" by simp
    with task_queue.push_priority [OF reliable_queue.axioms(1) [OF assms(2)] S(3)]
      reliable_queue.push_priority_ok [OF assms(2) S(3)] show ?thesis by blast
  next
    case False
    with p have "q_Push Q now (vQ s) t = (o', q')" by simp
    with task_queue.push [OF reliable_queue.axioms(1) [OF assms(2)] S(3)]
      reliable_queue.push_ok [OF assms(2) S(3)] show ?thesis by blast
  qed
  have "vQ s' = q'" using created(6) S p by (simp add: e)
  with c q created(4,7,9) S show ?thesis by (simp add: e service_ok_def)
qed

text \<open>
  C7. A creation that returns a task has stored it and queued it, once each: the table has gained a
  row under its UID, which was free, with the fields of the request over the defaults, status
  created and no results, and the queue has gained the task; a creation that returns an error,
  a duplicate or a failed insert, has changed neither.
\<close>

theorem CreateTask_stores_and_queues:
  assumes "task_store S view rnd" and "reliable_queue Q qinv ready waiting tasks"
    and "service_ok S Q qinv s"
    and "CreateTask uuid now req s = (r, s')"
  shows "case r of
      Inl e \<Rightarrow> view (vDB s') = view (vDB s) \<and> vQ s' = vQ s
    | Inr t \<Rightarrow> (\<exists>i. t = (request_task uuid now req)\<lparr>tID := i\<rparr>) \<and> view (vDB s) uuid = None \<and>
        view (vDB s') = (view (vDB s))(uuid \<mapsto> created_task rnd t) \<and>
        tasks (vQ s') = add_mset t (tasks (vQ s)) \<and> service_ok S Q qinv s'"
  by (rule CreateTask_stores_and_queues_env [OF assms])

section \<open>Creation: duplicates\<close>

text \<open>What Redis promises while no key expires: \<^verbatim>\<open>SETNX\<close> writes a free key and says so, refuses a
  taken one, and no command removes a key.\<close>

definition setnx_laws :: "'r redis_svc \<Rightarrow> ('r \<Rightarrow> string \<rightharpoonup> string) \<Rightarrow> bool" where
  "setnx_laws R keys \<longleftrightarrow>
     (\<forall>r k v d x r'. rv_SetNX R r k v d = (x, r') \<longrightarrow> keys r \<subseteq>\<^sub>m keys r' \<and>
        (x = Inr True \<longrightarrow> keys r k = None \<and> keys r' k = Some v) \<and>
        (x = Inr False \<longrightarrow> keys r k \<noteq> None)) \<and>
     (\<forall>r k f n. keys r \<subseteq>\<^sub>m keys (rv_HIncrBy R r k f n))"

text \<open>No \<^verbatim>\<open>SETNX\<close> comes back with an error.\<close>

definition setnx_up :: "'r redis_svc \<Rightarrow> bool" where
  "setnx_up R \<longleftrightarrow> (\<forall>r k v d. \<exists>b. fst (rv_SetNX R r k v d) = Inr b)"

fun create_run ::
    "(string \<times> go_time \<times> CreateTaskRequest) list \<Rightarrow> ('db, 'q, 'r) TaskService \<Rightarrow> Task result list" where
  "create_run [] s = []"
| "create_run ((uuid, now, req) # xs) s =
     (case CreateTask uuid now req s of (r, s') \<Rightarrow> r # create_run xs s')"

lemma map_le_some: "m \<subseteq>\<^sub>m m' \<Longrightarrow> m k \<noteq> None \<Longrightarrow> m' k \<noteq> None"
  by (metis domIff map_le_def)

lemma checkDuplicate_keys:
  assumes laws: "setnx_laws R keys" and up: "setnx_up R" and R: "vRdb s = Some R"
    and c: "checkDuplicate s t = (d, s1)"
  shows "keys (vRedis s) \<subseteq>\<^sub>m keys (vRedis s1)"
    and "d = None \<longleftrightarrow> keys (vRedis s) (dedupKey t) = None"
    and "keys (vRedis s1) (dedupKey t) \<noteq> None"
proof -
  obtain b r' where b: "rv_SetNX R (vRedis s) (dedupKey t) (tTaskUID t) (5 * Minute) = (Inr b, r')"
    using up unfolding setnx_up_def by (metis prod.collapse)
  have l: "keys (vRedis s) \<subseteq>\<^sub>m keys r'"
    "b \<Longrightarrow> keys (vRedis s) (dedupKey t) = None \<and> keys r' (dedupKey t) = Some (tTaskUID t)"
    "\<not> b \<Longrightarrow> keys (vRedis s) (dedupKey t) \<noteq> None"
    using laws b unfolding setnx_laws_def by blast+
  have r: "vRedis s1 = r'" "d = None \<longleftrightarrow> b"
    using c b R by (cases b; auto simp: checkDuplicate_def)+
  show "keys (vRedis s) \<subseteq>\<^sub>m keys (vRedis s1)" using l(1) r(1) by simp
  show "d = None \<longleftrightarrow> keys (vRedis s) (dedupKey t) = None" using l(2,3) r(2) by blast
  show "keys (vRedis s1) (dedupKey t) \<noteq> None"
    using l map_le_some [OF l(1)] r(1) by (cases b) auto
qed

lemma CreateTask_keys:
  assumes store: "task_store (vStore s) view rnd" and laws: "setnx_laws R keys" and up: "setnx_up R"
    and R: "vRdb s = Some R" and c: "CreateTask uuid now req s = (r, s')"
  shows "keys (vRedis s) \<subseteq>\<^sub>m keys (vRedis s') \<and> vRdb s' = Some R \<and> vStore s' = vStore s"
    and "r = Inr t \<Longrightarrow> keys (vRedis s) (dedupKey t) = None \<and> keys (vRedis s') (dedupKey t) \<noteq> None"
proof -
  have hincr: "keys r1 \<subseteq>\<^sub>m keys (rv_HIncrBy R r1 k f n)" for r1 k f n
    using laws by (simp add: setnx_laws_def)
  let ?t = "request_task uuid now req"
  obtain d s1 where d: "checkDuplicate s ?t = (d, s1)" by fastforce
  note k = checkDuplicate_keys [OF laws up R d]
  have f: "vRdb s1 = Some R" "vStore s1 = vStore s"
    using checkDuplicate_frame [OF d] R by simp_all
  have main: "(keys (vRedis s) \<subseteq>\<^sub>m keys (vRedis s') \<and> vRdb s' = Some R \<and> vStore s' = vStore s) \<and>
      (r = Inr t \<longrightarrow> keys (vRedis s) (dedupKey t) = None \<and> keys (vRedis s') (dedupKey t) \<noteq> None)"
  proof (cases rule: CreateTask_cases [of s uuid now req])
    case (duplicate u s2)
    with d k f c show ?thesis by auto
  next
    case (failed s2 e db')
    with d k f c show ?thesis by auto
  next
    case (created s2 t' db' s'')
    have e: "s2 = s1" "d = None" "s'' = s'" "r = Inr t'" using created(1,3) d c by simp_all
    have key: "dedupKey t' = dedupKey ?t"
      using task_store.create_ok [OF store created(2)] by (auto simp: dedupKey_def)
    have red: "vRedis s' = rv_HIncrBy R (vRedis s1) (''stats:daily:'' @ rv_Date R now) ''submitted'' 1"
      using created(5) R by (simp add: e)
    have "keys (vRedis s1) \<subseteq>\<^sub>m keys (vRedis s')" unfolding red by (rule hincr)
    then have "keys (vRedis s) \<subseteq>\<^sub>m keys (vRedis s')"
      using map_le_trans [OF k(1)] by blast
    moreover have "keys (vRedis s) (dedupKey t') = None" "keys (vRedis s1) (dedupKey t') \<noteq> None"
      using k(2,3) e(2) key by simp_all
    moreover have "keys (vRedis s') (dedupKey t') \<noteq> None"
      using map_le_some [OF \<open>keys (vRedis s1) \<subseteq>\<^sub>m keys (vRedis s')\<close>] calculation(3) by blast
    ultimately show ?thesis using created(7,8) R e(3,4) by auto
  qed
  from main show "keys (vRedis s) \<subseteq>\<^sub>m keys (vRedis s') \<and> vRdb s' = Some R \<and> vStore s' = vStore s" by blast
  from main show "r = Inr t \<Longrightarrow> keys (vRedis s) (dedupKey t) = None \<and> keys (vRedis s') (dedupKey t) \<noteq> None" by blast
qed

lemma create_run_count:
  assumes laws: "setnx_laws R keys" and up: "setnx_up R"
  shows "task_store (vStore s) view rnd \<Longrightarrow> vRdb s = Some R \<Longrightarrow>
    length (filter (\<lambda>r. \<exists>t. r = Inr t \<and> dedupKey t = k) (create_run xs s)) \<le>
      (if keys (vRedis s) k = None then 1 else 0)"
proof (induction xs arbitrary: s)
  case (Cons x xs)
  obtain uuid now req where x: "x = (uuid, now, req)" by (cases x)
  obtain r s' where c: "CreateTask uuid now req s = (r, s')" by fastforce
  note m = CreateTask_keys [OF Cons.prems(1) laws up Cons.prems(2) c]
  from Cons.IH [of s'] m(1) Cons.prems(1) have IH:
    "length (filter (\<lambda>r. \<exists>t. r = Inr t \<and> dedupKey t = k) (create_run xs s')) \<le>
      (if keys (vRedis s') k = None then 1 else 0)" by simp
  show ?case
  proof (cases "\<exists>t. r = Inr t \<and> dedupKey t = k")
    case True
    then obtain t where t: "r = Inr t" "dedupKey t = k" by blast
    from m(2) [OF t(1)] t(2) have "keys (vRedis s) k = None" "keys (vRedis s') k \<noteq> None" by simp_all
    with IH True show ?thesis by (simp add: x c)
  next
    case False
    then have "create_run (x # xs) s = r # create_run xs s'" "\<not> (\<exists>t. r = Inr t \<and> dedupKey t = k)"
      by (simp_all add: x c)
    then have "length (filter (\<lambda>r. \<exists>t. r = Inr t \<and> dedupKey t = k) (create_run (x # xs) s)) =
        length (filter (\<lambda>r. \<exists>t. r = Inr t \<and> dedupKey t = k) (create_run xs s'))" by simp
    with IH map_le_some [OF m(1) [THEN conjunct1], of k] show ?thesis by (auto split: if_splits)
  qed
qed simp

text \<open>
  C23. No duplicates: as long as Redis answers and no key expires, of any sequence of creations at
  most one succeeds for each idempotency key.
\<close>

theorem CreateTask_no_duplicates:
  assumes "task_store (vStore s) view rnd" and "setnx_laws R keys" and "setnx_up R"
    and "vRdb s = Some R"
  shows "length (filter (\<lambda>r. \<exists>t. r = Inr t \<and> tIdempotencyKey t = k) (create_run xs s)) \<le> 1"
  using create_run_count [OF assms(2,3,1,4), of "''tasks:dedup:'' @ k" xs]
  by (auto simp: dedupKey_def split: if_splits)

text \<open>A Redis that never fails, for the witnesses.\<close>

definition mem_redis :: "(string \<times> string) list redis_svc" where
  "mem_redis = \<lparr>
     rv_SetNX = (\<lambda>r k v d. if map_of r k = None then (Inr True, (k, v) # r) else (Inr False, r)),
     rv_Get = (\<lambda>r k. case map_of r k of None \<Rightarrow> Inl ErrRedisNil | Some v \<Rightarrow> Inr v),
     rv_HIncrBy = (\<lambda>r k f n. r),
     rv_Publish = (\<lambda>r c m. (None, r)),
     rv_Date = (\<lambda>t. ''2024-01-01'')\<rparr>"

lemma mem_redis_laws: "setnx_laws mem_redis map_of" "setnx_up mem_redis"
  by (auto simp: setnx_laws_def setnx_up_def mem_redis_def map_le_def split: if_splits)

definition demo_service :: "(task_row list, InMemQueue, (string \<times> string) list) TaskService" where
  "demo_service = NewTaskService (NewTaskStore mem_pg) [] (Some mem_redis) []
     (Some InMemTaskQueue) (NewInMemQueue 10)"

definition demo_request :: "string \<Rightarrow> CreateTaskRequest" where
  "demo_request cmd = \<lparr>cqName = ''n'', cqCommand = cmd, cqWorkdir = [], cqEnv = None, cqCPULimit = 0,
     cqMemoryLimit = 0, cqTimeoutSec = 0, cqPriority = 0, cqNodeSelector = None\<rparr>"

lemma demo_service_ok: "service_ok (NewTaskStore mem_pg) InMemTaskQueue queue_inv demo_service"
  by (simp add: service_ok_def demo_service_def NewTaskService_def queue_inv_def NewInMemQueue_def)

text \<open>The first creation of the demo, with its hash left symbolic.\<close>

lemma demo_create:
  obtains t s' where "CreateTask ''a'' 1 (demo_request cmd) demo_service = (Inr t, s')"
    "t = (request_task ''a'' 1 (demo_request cmd))\<lparr>tID := 1\<rparr>"
    "vRedis s' = [(dedupKey t, ''a'')]" "service_ok (NewTaskStore mem_pg) InMemTaskQueue queue_inv s'"
    "vRdb s' = Some mem_redis"
proof -
  obtain r s' where c: "CreateTask ''a'' 1 (demo_request cmd) demo_service = (r, s')" by fastforce
  obtain t where r: "r = Inr t" "t = (request_task ''a'' 1 (demo_request cmd))\<lparr>tID := 1\<rparr>"
    using c by (auto simp: CreateTask_def Let_def checkDuplicate_def demo_service_def NewTaskService_def
        mem_redis_def NewTaskStore_def TaskStore_Create_def json_Marshal_def mem_pg_def)
  have "vRedis s' = [(dedupKey t, ''a'')]" "vRdb s' = Some mem_redis"
    using c by (auto simp: r CreateTask_def Let_def checkDuplicate_def demo_service_def NewTaskService_def
        mem_redis_def NewTaskStore_def TaskStore_Create_def json_Marshal_def mem_pg_def dedupKey_def)
  moreover have "service_ok (NewTaskStore mem_pg) InMemTaskQueue queue_inv s'"
    using CreateTask_stores_and_queues_env [OF mem.st.task_store_axioms inmem.reliable_queue_axioms
        demo_service_ok c] r(1) by simp
  ultimately show thesis using that c r by blast
qed

section \<open>Witnesses and further properties\<close>

theorem CreateTask_stores_and_queues_witness:
  "\<exists>t s'. CreateTask ''a'' 1 (demo_request ''ls'') demo_service = (Inr t, s') \<and>
     mem_view (vDB s') ''a'' = Some (created_task (\<lambda>t. t) t) \<and> queue_tasks (vQ s') = {#t#}"
proof -
  obtain t s' where c: "CreateTask ''a'' 1 (demo_request ''ls'') demo_service = (Inr t, s')"
    by (rule demo_create)
  have "queue_tasks (vQ demo_service) = {#}"
    by (simp add: demo_service_def NewTaskService_def NewInMemQueue_def queue_views)
  with CreateTask_stores_and_queues [OF mem.st.task_store_axioms inmem.reliable_queue_axioms
      demo_service_ok c] c show ?thesis by auto
qed

theorem CreateTask_no_duplicates_witness:
  "length (filter (\<lambda>r. \<exists>t. r = Inr t
        \<and> tIdempotencyKey t = tIdempotencyKey (request_task ''a'' 1 (demo_request ''ls'')))
     (create_run [(''a'', 1, demo_request ''ls''), (''b'', 2, demo_request ''ls'')] demo_service)) \<le> 1"
  by (rule CreateTask_no_duplicates [OF _ mem_redis_laws])
    (use mem.st.task_store_axioms in \<open>simp_all add: demo_service_def NewTaskService_def\<close>)

text \<open>A request is a duplicate exactly when its key is taken; the table and the queue then stay.\<close>

lemma CreateTask_duplicate:
  assumes "setnx_laws R keys" and "setnx_up R" and "vRdb s = Some R"
    and "keys (vRedis s) (dedupKey (request_task uuid now req)) \<noteq> None"
  shows "\<exists>u s1. CreateTask uuid now req s = (Inl (ErrDuplicateTask u), s1) \<and> vDB s1 = vDB s \<and> vQ s1 = vQ s"
proof -
  obtain d s1 where d: "checkDuplicate s (request_task uuid now req) = (d, s1)" by fastforce
  from checkDuplicate_keys(2) [OF assms(1-3) d] assms(4) obtain u where "d = Some u" by (cases d) auto
  moreover have "vDB s1 = vDB s" "vQ s1 = vQ s"
    using checkDuplicate_frame [OF d] by simp_all
  ultimately show ?thesis using d by (simp add: CreateTask_def)
qed

text \<open>
  A re-run is refused while the key of its original lives: for a task created through the
  service with a non-empty working directory, \<open>RerunTask\<close> computes the same idempotency key, so
  within the five minutes after the creation it always fails as a duplicate of the task it is
  meant to repeat, and nothing is stored or queued.
\<close>

lemma RerunTask_refused:
  assumes "setnx_laws R keys" and "setnx_up R" and "vRdb s = Some R"
    and "ts_GetByUID (vStore s) (vDB s) uid = Inr t"
    and "tWorkdir t \<noteq> []" and "tIdempotencyKey t = tIdempotencyKey (SetIdempotencyKey t)"
    and "keys (vRedis s) (dedupKey t) \<noteq> None"
  shows "\<exists>u s1. RerunTask uuid now s uid = (Inl (ErrDuplicateTask u), s1) \<and> vDB s1 = vDB s \<and> vQ s1 = vQ s"
proof -
  let ?req = "\<lparr>cqName = tName t, cqCommand = tCommand t, cqWorkdir = tWorkdir t, cqEnv = Some (tEnv t),
    cqCPULimit = tCPULimit t, cqMemoryLimit = tMemoryLimit t, cqTimeoutSec = tTimeoutSec t,
    cqPriority = tPriority t, cqNodeSelector = Some (tNodeSelector t)\<rparr>"
  have "tIdempotencyKey (request_task uuid now ?req) = tIdempotencyKey (SetIdempotencyKey t)"
    using assms(5) by (simp add: request_task_key SetIdempotencyKey_def idempotency_input_def)
  then have "dedupKey (request_task uuid now ?req) = dedupKey t"
    by (simp add: dedupKey_def assms(6))
  then have "keys (vRedis s) (dedupKey (request_task uuid now ?req)) \<noteq> None" using assms(7) by simp
  from CreateTask_duplicate [OF assms(1-3) this] assms(4) show ?thesis by (simp add: RerunTask_def)
qed

lemma RerunTask_refused_witness:
  "\<exists>t s' u s1. CreateTask ''a'' 1 (demo_request ''ls'') demo_service = (Inr t, s') \<and>
     RerunTask ''b'' 2 s' ''a'' = (Inl (ErrDuplicateTask u), s1)"
proof -
  obtain t s' where c: "CreateTask ''a'' 1 (demo_request ''ls'') demo_service = (Inr t, s')"
    and t: "t = (request_task ''a'' 1 (demo_request ''ls''))\<lparr>tID := 1\<rparr>"
    and r: "vRedis s' = [(dedupKey t, ''a'')]"
    and ok: "service_ok (NewTaskStore mem_pg) InMemTaskQueue queue_inv s'" and R: "vRdb s' = Some mem_redis"
    by (rule demo_create)
  let ?x = "created_task (\<lambda>t. t) t"
  have v: "mem_view (vDB s') ''a'' = Some ?x"
    using CreateTask_stores_and_queues_env [OF mem.st.task_store_axioms inmem.reliable_queue_axioms
        demo_service_ok c] by simp
  have S: "vStore s' = NewTaskStore mem_pg" using ok by (simp add: service_ok_def)
  have g: "ts_GetByUID (vStore s') (vDB s') ''a'' = Inr ?x"
    using v by (auto simp: S NewTaskStore_def TaskStore_GetByUID_def mem_pg_def mem.task_view_def)
  have w: "tWorkdir ?x \<noteq> []" by (simp add: created_task_def t)
  have k: "tIdempotencyKey ?x = tIdempotencyKey (SetIdempotencyKey ?x)"
    by (simp add: created_task_def t request_task_key SetIdempotencyKey_def idempotency_input_def)
  have "map_of (vRedis s') (dedupKey ?x) \<noteq> None" by (simp add: r created_task_def dedupKey_def)
  from RerunTask_refused [OF mem_redis_laws R g w k this, of "''b''" 2] c show ?thesis by blast
qed

text \<open>
  The key is taken before the insert and never given back: a creation whose insert fails has
  stored nothing, but the next creation of the same job is refused as a duplicate, of a task that
  does not exist, for as long as the key lives.
\<close>

lemma failed_create_blocks:
  assumes "task_store (vStore s) view rnd" and "setnx_laws R keys" and "setnx_up R"
    and "vRdb s = Some R" and "CreateTask uuid now req s = (Inl e, s1)"
    and "ts_Create (vStore s) (vDB s) (request_task uuid now req) = (Inl e, db')"
  shows "view (vDB s1) = view (vDB s) \<and>
     (\<exists>u s2. CreateTask uuid' now' req s1 = (Inl (ErrDuplicateTask u), s2) \<and> vDB s2 = vDB s1)"
proof -
  let ?t = "request_task uuid now req"
  obtain d s0 where d: "checkDuplicate s ?t = (d, s0)" by fastforce
  note k = checkDuplicate_keys [OF assms(2-4) d]
  note same = checkDuplicate_frame [OF d]
  have s1: "vRedis s1 = vRedis s0 \<and> vRdb s1 = Some R \<and> view (vDB s1) = view (vDB s)"
  proof (cases d)
    case None
    with d assms(5,6) same have "s1 = s0\<lparr>vDB := db'\<rparr>" "vRdb s0 = Some R" by (auto simp: CreateTask_def assms(4))
    with same task_store.create_err [OF assms(1,6)] show ?thesis by simp
  next
    case (Some u)
    with d assms(4,5) same show ?thesis by (auto simp: CreateTask_def)
  qed
  have "dedupKey (request_task uuid' now' req) = dedupKey ?t"
    by (simp add: dedupKey_def request_task_key)
  with k(3) s1 have "keys (vRedis s1) (dedupKey (request_task uuid' now' req)) \<noteq> None" by simp
  from CreateTask_duplicate [OF assms(2,3) _ this] s1 show ?thesis by blast
qed

text \<open>A table that already has a row of the UID makes the insert fail.\<close>

definition demo_taken :: "(task_row list, InMemQueue, (string \<times> string) list) TaskService" where
  "demo_taken = demo_service\<lparr>vDB := snd (TaskStore_Create mem_pg [] (NewTask ''a'' 0 ''x'' ''y''))\<rparr>"

lemma failed_create_blocks_witness:
  "\<exists>s1 u s2. CreateTask ''a'' 1 (demo_request ''ls'') demo_taken = (Inl (ErrOther ''duplicate key''), s1) \<and>
     CreateTask ''b'' 2 (demo_request ''ls'') s1 = (Inl (ErrDuplicateTask u), s2)"
proof -
  let ?e = "ErrOther ''duplicate key''"
  have db: "vDB demo_taken = [(task_columns (NewTask ''a'' 0 ''x'' ''y'') (Encoded []) (Encoded []))\<lparr>r_id := 1\<rparr>]"
    by (simp add: demo_taken_def TaskStore_Create_def json_Marshal_def mem_pg_def task_columns_def
        NewTask_def zeroTask_def)
  have sel: "vStore demo_taken = NewTaskStore mem_pg" "vRdb demo_taken = Some mem_redis" "vRedis demo_taken = []"
    by (simp_all add: demo_taken_def demo_service_def NewTaskService_def)
  have cr: "ts_Create (vStore demo_taken) (vDB demo_taken) (request_task ''a'' 1 (demo_request ''ls'')) =
      (Inl ?e, vDB demo_taken)"
    unfolding sel db by (simp add: NewTaskStore_def TaskStore_Create_def json_Marshal_def mem_pg_def mem_rows_Cons
        task_columns_def NewTask_def)
  obtain s0 where d: "checkDuplicate demo_taken (request_task ''a'' 1 (demo_request ''ls'')) = (None, s0)"
    by (simp add: checkDuplicate_def sel mem_redis_def)
  note f = checkDuplicate_frame [OF d]
  from d cr f obtain s1 where c: "CreateTask ''a'' 1 (demo_request ''ls'') demo_taken = (Inl ?e, s1)"
    by (simp add: CreateTask_def)
  have st: "task_store (vStore demo_taken) mem_view (\<lambda>t. t)"
    using mem.st.task_store_axioms by (simp add: sel)
  from failed_create_blocks [OF st mem_redis_laws sel(2) c cr, of "''b''" 2] c show ?thesis by blast
qed

section \<open>Cancellation\<close>



end
