(* ===== verification/System_Moves.thy ===== *)
theory System_Moves
  imports Task_Service
begin

text \<open>
  What the whole server may do to tasks, as an abstract machine: its state is the table of
  tasks, the multiset of queued copies and the set of copies in flight (in the goroutines of the
  scheduler and in the channels of the nodes). \<open>quiet\<close> has the moves that start nothing, \<open>launch\<close> takes a
  copy out of the queue. \<^verbatim>\<open>System_Run\<close> shows that every handler of the server is a sequence of such
  moves; here are the invariants of the machine: \<open>typed_sys\<close>, in which the fields of every task
  fit its status, and \<open>no_task_lost\<close>, in which every row that waits has a copy in the queue.
\<close>

section \<open>Types of tasks\<close>

text \<open>The fields that depend on the status, by status.\<close>

definition status_fields :: "Task \<Rightarrow> bool" where
  "status_fields t = (case tStatus t of
     TaskStatusCreated \<Rightarrow> tStartedAt t = None \<and> tFinishedAt t = None \<and> tExitCode t = None \<and> tRetryCount t = 0
   | TaskStatusPending \<Rightarrow> tFinishedAt t = None
   | TaskStatusRunning \<Rightarrow> tStartedAt t \<noteq> None \<and> tFinishedAt t = None
   | TaskStatusSuccess \<Rightarrow> tStartedAt t \<noteq> None \<and> tFinishedAt t \<noteq> None \<and> tExitCode t \<noteq> None
   | TaskStatusFailed \<Rightarrow> tStartedAt t \<noteq> None \<and> tFinishedAt t \<noteq> None
   | TaskStatusCanceled \<Rightarrow> tFinishedAt t = None
   | TaskStatusOther _ \<Rightarrow> False)"

definition typed_task :: "Task \<Rightarrow> bool" where
  "typed_task t \<longleftrightarrow> status_fields t \<and> 0 \<le> tCPULimit t \<and> 0 \<le> tMemoryLimit t \<and> 0 < tTimeoutSec t \<and>
     0 \<le> tPriority t \<and> 0 \<le> tRetryCount t \<and> tRetryCount t \<le> tMaxRetries t"

definition waits :: "Task \<Rightarrow> bool" where
  "waits t \<longleftrightarrow> tStatus t = TaskStatusCreated \<or> tStatus t = TaskStatusPending"

section \<open>The moves\<close>

type_synonym sys = "(string \<rightharpoonup> Task) \<times> Task multiset \<times> Task set"

text \<open>A copy with the output of a run, and what becomes of it.\<close>

definition with_output :: "Task \<Rightarrow> string \<Rightarrow> string \<Rightarrow> Task" where
  "with_output c stdout stderr = c\<lparr>tStdout := stdout, tStderr := stderr\<rparr>"

definition retried :: "go_time \<Rightarrow> string \<Rightarrow> Task \<Rightarrow> Task" where
  "retried now msg t = t\<lparr>tErrorMessage := msg, tRetryCount := tRetryCount t + 1,
     tStatus := TaskStatusPending, tFinishedAt := None, tUpdatedAt := now\<rparr>"

definition failed :: "go_time \<Rightarrow> string \<Rightarrow> Task \<Rightarrow> Task" where
  "failed now msg t = t\<lparr>tErrorMessage := msg, tFinishedAt := Some now, tStatus := TaskStatusFailed,
     tUpdatedAt := now\<rparr>"

definition succeeded :: "go_time \<Rightarrow> int \<Rightarrow> Task \<Rightarrow> Task" where
  "succeeded now code t = t\<lparr>tFinishedAt := Some now, tExitCode := Some code, tStatus := TaskStatusSuccess,
     tUpdatedAt := now\<rparr>"

definition cancelled :: "go_time \<Rightarrow> Task \<Rightarrow> Task" where
  "cancelled now t = t\<lparr>tStatus := TaskStatusCanceled, tUpdatedAt := now\<rparr>"

definition admitted :: "go_time \<Rightarrow> Task \<Rightarrow> Task" where
  "admitted now t = t\<lparr>tStatus := TaskStatusPending, tUpdatedAt := now\<rparr>"

definition started :: "go_time \<Rightarrow> string \<Rightarrow> Task \<Rightarrow> Task" where
  "started now node t = t\<lparr>tStatus := TaskStatusRunning, tAssignedNodeID := node,
     tStartedAt := Some now, tUpdatedAt := now\<rparr>"

lemmas outcome_defs = retried_def failed_def succeeded_def cancelled_def admitted_def started_def with_output_def

lemma outcome_uid [simp]:
  "tTaskUID (retried now msg t) = tTaskUID t" "tTaskUID (failed now msg t) = tTaskUID t"
  "tTaskUID (succeeded now code t) = tTaskUID t" "tTaskUID (cancelled now t) = tTaskUID t"
  "tTaskUID (admitted now t) = tTaskUID t" "tTaskUID (started now node t) = tTaskUID t"
  "tTaskUID (with_output t a b) = tTaskUID t" "tTaskUID (stored_task rnd old t) = tTaskUID t"
  "tTaskUID (created_task rnd t) = tTaskUID t"
  by (simp_all add: outcome_defs stored_task_def created_task_def)

definition copies :: "(string \<rightharpoonup> Task) \<Rightarrow> Task set \<Rightarrow> Task set" where
  "copies v f = ran v \<union> f"

text \<open>\<open>c\<close> ranges over the copies a handler may hold: rows it has just read, and tasks in flight.\<close>

inductive quiet :: "(go_time \<Rightarrow> go_time) \<Rightarrow> sys \<Rightarrow> sys \<Rightarrow> bool" for rnd where
  create: "v uuid = None \<Longrightarrow> t = (request_task uuid now req)\<lparr>tID := i\<rparr> \<Longrightarrow>
    quiet rnd (v, q, f) (v(uuid \<mapsto> created_task rnd t), add_mset t q, f)"
| retry: "c \<in> copies v f \<Longrightarrow> CanRetry c \<Longrightarrow> v (tTaskUID c) = Some old \<Longrightarrow>
    x = retried now msg (with_output c a b) \<Longrightarrow>
    quiet rnd (v, q, f) (v(tTaskUID c \<mapsto> stored_task rnd old x), add_mset x q, f)"
| fail: "c \<in> copies v f \<Longrightarrow> \<not> CanRetry c \<Longrightarrow> tStatus c = TaskStatusRunning \<Longrightarrow> v (tTaskUID c) = Some old \<Longrightarrow>
    x = failed now msg (with_output c a b) \<Longrightarrow>
    quiet rnd (v, q, f) (v(tTaskUID c \<mapsto> stored_task rnd old x), q, f)"
| succeed: "c \<in> copies v f \<Longrightarrow> tStatus c = TaskStatusRunning \<Longrightarrow> v (tTaskUID c) = Some old \<Longrightarrow>
    x = succeeded now code (with_output c a b) \<Longrightarrow>
    quiet rnd (v, q, f) (v(tTaskUID c \<mapsto> stored_task rnd old x), q, f)"
| cancel: "v u = Some c \<Longrightarrow> lifecycle (tStatus c) TaskStatusCanceled \<Longrightarrow>
    quiet rnd (v, q, f) (v(u \<mapsto> stored_task rnd c (cancelled now c)), q, f)"
| leave: "f' \<subseteq> f \<Longrightarrow> quiet rnd (v, q, f) (v, q, f')"

text \<open>Without a faultless store and the claim of the task, a copy may be dropped on the way.\<close>

inductive launch :: "(go_time \<Rightarrow> go_time) \<Rightarrow> bool \<Rightarrow> sys \<Rightarrow> sys \<Rightarrow> bool" for rnd faultless where
  start: "t \<in># q \<Longrightarrow> waits t \<Longrightarrow> v (tTaskUID t) = Some old \<Longrightarrow> x = started now node t \<Longrightarrow>
    launch rnd faultless (v, q, f) (v(tTaskUID t \<mapsto> stored_task rnd old x), q - {#t#}, insert x f)"
| drop_copy: "\<not> faultless \<Longrightarrow> t \<in># q \<Longrightarrow> launch rnd faultless (v, q, f) (v, q - {#t#}, f)"
| drop_admitted: "\<not> faultless \<Longrightarrow> t \<in># q \<Longrightarrow> tStatus t = TaskStatusCreated \<Longrightarrow> v (tTaskUID t) = Some old \<Longrightarrow>
    launch rnd faultless (v, q, f)
      (v(tTaskUID t \<mapsto> stored_task rnd old (admitted now t)), q - {#t#}, f)"

definition sys_move :: "(go_time \<Rightarrow> go_time) \<Rightarrow> bool \<Rightarrow> sys \<Rightarrow> sys \<Rightarrow> bool" where
  "sys_move rnd faultless a b \<longleftrightarrow> quiet rnd a b \<or> launch rnd faultless a b"

section \<open>The type invariant\<close>

fun typed_sys :: "sys \<Rightarrow> bool" where
  "typed_sys (v, q, f) \<longleftrightarrow>
     (\<forall>u x. v u = Some x \<longrightarrow> tTaskUID x = u \<and> typed_task x) \<and>
     (\<forall>t. t \<in># q \<longrightarrow> typed_task t \<and> waits t \<and> v (tTaskUID t) \<noteq> None) \<and>
     (\<forall>t \<in> f. typed_task t \<and> tStatus t = TaskStatusRunning \<and> v (tTaskUID t) \<noteq> None)"

declare typed_sys.simps [simp del]

lemma typed_sysD:
  assumes "typed_sys (v, q, f)"
  shows "v u = Some x \<Longrightarrow> tTaskUID x = u" "v u = Some x \<Longrightarrow> typed_task x"
    "t \<in># q \<Longrightarrow> typed_task t" "t \<in># q \<Longrightarrow> waits t" "t \<in># q \<Longrightarrow> v (tTaskUID t) \<noteq> None"
    "t \<in> f \<Longrightarrow> typed_task t" "t \<in> f \<Longrightarrow> tStatus t = TaskStatusRunning" "t \<in> f \<Longrightarrow> v (tTaskUID t) \<noteq> None"
  using assms unfolding typed_sys.simps by blast+

lemma typed_request: "typed_task ((request_task uuid now req)\<lparr>tID := i\<rparr>)"
  by (auto simp: typed_task_def status_fields_def request_task_def Let_def SetIdempotencyKey_def
      NewTask_def zeroTask_def split: option.split)

lemma typed_created: "typed_task t \<Longrightarrow> tStatus t = TaskStatusCreated \<Longrightarrow> typed_task (created_task rnd t)"
  by (simp add: typed_task_def status_fields_def created_task_def)

lemma typed_stored: "typed_task t \<Longrightarrow> typed_task (stored_task rnd old t)"
  by (cases "tStatus t") (simp_all add: typed_task_def status_fields_def stored_task_def)

text \<open>Each outcome of a typed copy is typed.\<close>

lemma typed_outcomes:
  assumes "typed_task c"
  shows "CanRetry c \<Longrightarrow> typed_task (retried now msg (with_output c a b))"
    and "tStatus c = TaskStatusRunning \<Longrightarrow> typed_task (failed now msg (with_output c a b))"
    and "tStatus c = TaskStatusRunning \<Longrightarrow> typed_task (succeeded now code (with_output c a b))"
    and "lifecycle (tStatus c) TaskStatusCanceled \<Longrightarrow> typed_task (cancelled now c)"
    and "waits c \<Longrightarrow> typed_task (admitted now c)"
    and "waits c \<Longrightarrow> typed_task (started now node c)"
  using assms
  by (auto simp: outcome_defs typed_task_def status_fields_def CanRetry_def waits_def
      split: TaskStatus.splits elim!: lifecycle.cases)

lemma outcome_status [simp]:
  "tStatus (retried now msg t) = TaskStatusPending" "tStatus (failed now msg t) = TaskStatusFailed"
  "tStatus (succeeded now code t) = TaskStatusSuccess" "tStatus (cancelled now t) = TaskStatusCanceled"
  "tStatus (admitted now t) = TaskStatusPending" "tStatus (started now node t) = TaskStatusRunning"
  by (simp_all add: outcome_defs)

lemma copies_typed: "typed_sys (v, q, f) \<Longrightarrow> c \<in> copies v f \<Longrightarrow> typed_task c"
  by (auto simp: copies_def ran_def dest: typed_sysD)

text \<open>Writing a row keeps the type of the state, as do queueing a waiting copy, starting one and forgetting copies.\<close>

lemma typed_write:
  assumes t: "typed_sys (v, q, f)" and x: "typed_task x" "tTaskUID x = u"
  shows "typed_sys (v(u \<mapsto> x), q, f)"
  unfolding typed_sys.simps using typed_sysD [OF t] x by simp

lemma typed_queue:
  assumes t: "typed_sys (v, q, f)" and x: "typed_task x" "waits x" "v (tTaskUID x) \<noteq> None"
  shows "typed_sys (v, add_mset x q, f)"
  unfolding typed_sys.simps using typed_sysD [OF t] x by auto

lemma typed_start:
  assumes t: "typed_sys (v, q, f)"
    and x: "typed_task x" "tStatus x = TaskStatusRunning" "v (tTaskUID x) \<noteq> None"
  shows "typed_sys (v, q, insert x f)"
  unfolding typed_sys.simps using typed_sysD [OF t] x by auto

lemma typed_forget:
  assumes t: "typed_sys (v, q, f)" and "q' \<subseteq># q" "f' \<subseteq> f"
  shows "typed_sys (v, q', f')"
  unfolding typed_sys.simps
  using typed_sysD [OF t] mset_subset_eqD [OF assms(2)] subsetD [OF assms(3)] by simp

lemma quiet_typed: "quiet rnd s s' \<Longrightarrow> typed_sys s \<Longrightarrow> typed_sys s'"
proof (induction rule: quiet.induct)
  case (create v uuid t now req i q f)
  have t: "typed_task t" "waits t" "tTaskUID t = uuid" "tStatus t = TaskStatusCreated"
    unfolding create(2) using typed_request by (simp_all add: waits_def)
  have "tTaskUID (created_task rnd t) = uuid" by (simp add: t(3))
  note typed_write [OF create(3) typed_created [OF t(1,4)] this]
  from typed_queue [OF this t(1,2)] show ?case by (simp add: t)
next
  case (retry c v f old x now msg a b q)
  have x: "typed_task x" "waits x" "tTaskUID x = tTaskUID c"
    using typed_outcomes(1) [OF copies_typed [OF retry(5,1)] retry(2)] by (simp_all add: retry(4) waits_def)
  have "typed_sys (v(tTaskUID c \<mapsto> stored_task rnd old x), q, f)"
    using typed_write [OF retry(5) typed_stored [OF x(1)]] x(3) by simp
  from typed_queue [OF this x(1,2)] show ?case by (simp add: x(3))
next
  case (fail c v f old x now msg a b q)
  have "typed_task x" using typed_outcomes(2) [OF copies_typed [OF fail(6,1)] fail(3)] by (simp add: fail(5))
  from typed_write [OF fail(6) typed_stored [OF this]] show ?case by (simp add: fail(5))
next
  case (succeed c v f old x now code a b q)
  have "typed_task x" using typed_outcomes(3) [OF copies_typed [OF succeed(5,1)] succeed(2)] by (simp add: succeed(4))
  from typed_write [OF succeed(5) typed_stored [OF this]] show ?case by (simp add: succeed(4))
next
  case (cancel v u c now q f)
  have "typed_task c" "tTaskUID c = u" using typed_sysD(1,2) [OF cancel(3,1)] by blast+
  from typed_write [OF cancel(3) typed_stored [OF typed_outcomes(4) [OF this(1) cancel(2)]]] this(2)
  show ?case by simp
next
  case (leave f' f v q)
  then show ?case by (simp add: typed_forget)
qed

lemma launch_typed: "launch rnd faultless s s' \<Longrightarrow> typed_sys s \<Longrightarrow> typed_sys s'"
proof (induction rule: launch.induct)
  case (start t q v old x now node f)
  have x: "typed_task x" "tTaskUID x = tTaskUID t" "tStatus x = TaskStatusRunning"
    using typed_outcomes(6) [OF typed_sysD(3) [OF start(5,1)] start(2)] by (simp_all add: start(4))
  have "typed_sys (v(tTaskUID t \<mapsto> stored_task rnd old x), q - {#t#}, f)"
    using typed_write [OF typed_forget [OF start(5) diff_subset_eq_self order_refl] typed_stored [OF x(1)]] x(2)
    by simp
  from typed_start [OF this x(1,3)] show ?case by (simp add: x(2))
next
  case (drop_copy t q v f)
  then show ?case by (simp add: typed_forget)
next
  case (drop_admitted t q v old f now)
  have "typed_task (admitted now t)"
    using typed_outcomes(5) [OF typed_sysD(3) [OF drop_admitted(5,2)]] drop_admitted(3) by (simp add: waits_def)
  from typed_write [OF typed_forget [OF drop_admitted(5) diff_subset_eq_self order_refl] typed_stored [OF this]]
  show ?case by simp
qed

lemma move_typed: "sys_move rnd faultless s s' \<Longrightarrow> typed_sys s \<Longrightarrow> typed_sys s'"
  unfolding sys_move_def using quiet_typed launch_typed by blast

section \<open>No task is lost\<close>

fun no_task_lost :: "sys \<Rightarrow> bool" where
  "no_task_lost (v, q, f) \<longleftrightarrow> (\<forall>u x. v u = Some x \<longrightarrow> waits x \<longrightarrow> u \<in># image_mset tTaskUID q)"

lemma waits_stored [simp]:
  "\<not> waits (stored_task rnd old (failed now msg t))" "\<not> waits (stored_task rnd old (succeeded now code t))"
  "\<not> waits (stored_task rnd old (cancelled now t))" "\<not> waits (stored_task rnd old (started now node t))"
  by (simp_all add: waits_def task_frame)

lemma quiet_no_task_lost: "quiet rnd s s' \<Longrightarrow> no_task_lost s \<Longrightarrow> no_task_lost s'"
  by (induction rule: quiet.induct) simp_all

lemma launch_no_task_lost: "launch rnd True s s' \<Longrightarrow> no_task_lost s \<Longrightarrow> no_task_lost s'"
proof (induction rule: launch.induct)
  case (start t q v old x now node f)
  then have "add_mset t (q - {#t#}) = q" by simp
  then have "image_mset tTaskUID q = add_mset (tTaskUID t) (image_mset tTaskUID (q - {#t#}))"
    by (metis image_mset_add_mset)
  then have "u \<in># image_mset tTaskUID (q - {#t#})" if "u \<in># image_mset tTaskUID q" "u \<noteq> tTaskUID t" for u
    using that by simp
  with start(4,5) show ?case by (simp del: set_image_mset)
qed simp_all

lemma move_no_task_lost: "sys_move rnd True s s' \<Longrightarrow> no_task_lost s \<Longrightarrow> no_task_lost s'"
  unfolding sys_move_def using quiet_no_task_lost launch_no_task_lost by blast

section \<open>Running tasks\<close>

lemma quiet_running: "quiet rnd s s' \<Longrightarrow> running_set (fst s') \<subseteq> running_set (fst s)"
  by (induction rule: quiet.induct)
    (auto simp: running_set_def stored_task_def created_task_def split: if_splits)

end
