(* ===== verification/Scheduler_Props.thy ===== *)
theory Scheduler_Props
  imports Scheduler_Env
begin

text \<open>
  The properties of the scheduler, stated for every store and queue that meet the contracts; the
  witnesses run the scheduler over the database in memory and the in-memory queue.
\<close>

section \<open>A small instance\<close>

definition demo_task :: "string \<Rightarrow> Task" where
  "demo_task uid = (NewTask uid 5 ''n'' ''c'')\<lparr>tCPULimit := 2, tMemoryLimit := 512, tMaxRetries := 1\<rparr>"

definition demo_sched :: "(task_row list, InMemQueue, unit, unit) Scheduler" where
  "demo_sched = NewScheduler (NewTaskStore mem_pg)
     (snd (TaskStore_Create mem_pg (snd (TaskStore_Create mem_pg [] (demo_task ''a''))) (demo_task ''b'')))
     Second 4 None () (Some InMemTaskQueue)
     (snd (InMemQueue_Push 6 (snd (InMemQueue_Push 6 (NewInMemQueue 10) (demo_task ''a''))) (demo_task ''b'')))
     None () 0 ''0123456789'' 3"

lemma demo_ok: "sched_ok (NewTaskStore mem_pg) InMemTaskQueue queue_inv demo_sched"
  by (simp add: sched_ok_def demo_sched_def NewScheduler_def queue_inv_def InMemQueue_Push_def
      NewInMemQueue_def)

lemma demo_tick: "map_option (\<lambda>(s, ds, fs). (map tTaskUID ds, map tTaskUID fs, iqItems (sQ s)))
    (tick 3 sortSlice 9 demo_sched) = Some ([''a''], [''b''], [])"
  by code_simp

lemma demo_tickE:
  obtains s' ds fs where "tick 3 sortSlice 9 demo_sched = Some (s', ds, fs)"
    "map tTaskUID ds = [''a'']" "map tTaskUID fs = [''b'']"
  using demo_tick by fastforce

lemma demo_idle: "ts_GetRunningTasks (NewTaskStore mem_pg) (sDB demo_sched) = Inr []"
  by code_simp

lemmas demo_running = mem.st.running_list [OF demo_idle]

lemma demo_limits:
  "nonneg_limits tCPULimit (mem_view (sDB demo_sched))" "nonneg_limits tMemoryLimit (mem_view (sDB demo_sched))"
proof -
  have rows: "list_all (\<lambda>r. 0 \<le> r_cpu_limit r \<and> 0 \<le> r_memory_limit r) (sDB demo_sched)" by code_simp
  have "0 \<le> tCPULimit x \<and> 0 \<le> tMemoryLimit x" if "mem_view (sDB demo_sched) u = Some x" for u x
    using that rows mem_rows_Some [of "sDB demo_sched" u]
    by (auto simp: mem.task_view_def scanTask_def list_all_iff)
  then show "nonneg_limits tCPULimit (mem_view (sDB demo_sched))"
    "nonneg_limits tMemoryLimit (mem_view (sDB demo_sched))"
    by (auto simp: nonneg_limits_def)
qed

lemma demo_config: "sMaxConcurrent demo_sched = 4" "sTotalCPU demo_sched = 3" "sTotalMemMB demo_sched = 8192"
  by (simp_all add: demo_sched_def NewScheduler_def)

section \<open>The tick\<close>

lemma tick_mono:
  "tick fuel sorting now s = Some r \<Longrightarrow> fuel \<le> fuel' \<Longrightarrow> tick fuel' sorting now s = Some r"
  by (auto simp: tick_def Let_def split: sum.splits prod.splits if_splits elim: tickLoop_mono)

text \<open>
  C19. A tick always ends: over every store and queue that meet their contracts, more iterations
  of the queue loop than there are ready tasks are never needed, and the result does not depend
  on how many more are allowed (a task that does not fit goes to the delayed tasks, so it cannot
  come back within the tick).
\<close>

theorem tick_returns:
  assumes "task_store S view rnd" and "task_queue Q qinv ready waiting"
    and "sched_ok S Q qinv s"
  shows "\<exists>r. \<forall>fuel > size (ready (sQ s)). tick fuel sorting now s = Some r"
proof -
  have env: "scheduler_env S view rnd Q qinv ready waiting"
    using assms(1,2) by (rule scheduler_env.intro)
  from scheduler_env.tick_terminates [OF env assms(3) lessI] obtain r
    where "tick (Suc (size (ready (sQ s)))) sorting now s = Some r" by blast
  then show ?thesis using tick_mono Suc_leI by blast
qed

theorem tick_returns_witness:
  "size (ready_uids (sQ demo_sched)) = 2 \<and>
   (\<exists>r. \<forall>fuel > size (ready_uids (sQ demo_sched)). tick fuel sortSlice 9 demo_sched = Some r)"
proof
  show "size (ready_uids (sQ demo_sched)) = 2"
    by (simp add: demo_sched_def NewScheduler_def queue_ready_def InMemQueue_Push_def NewInMemQueue_def)
  show "\<exists>r. \<forall>fuel > size (ready_uids (sQ demo_sched)). tick fuel sortSlice 9 demo_sched = Some r"
    by (rule tick_returns [OF mem.st.task_store_axioms inmem.task_queue_axioms demo_ok])
qed

text \<open>
  The concurrency limit: a tick never makes more tasks run than \<^verbatim>\<open>max_concurrent_tasks\<close> allows,
  whatever is in the queue, whichever updates of the store fail, and whether the tasks run
  locally or remotely; where more are running already it starts none on top.
\<close>

lemma tick_respects_slots:
  assumes "task_store S view rnd" and "task_queue Q qinv ready waiting"
    and "sched_ok S Q qinv s" and "tick fuel sorting now s = Some (s', ds, fs)"
    and "0 \<le> sMaxConcurrent s" and "int64_range (sMaxConcurrent s)"
    and "int64_range (int (card (running_set (view (sDB s)))))"
  shows "int (card (running_set (view (sDB s')))) \<le>
    max (sMaxConcurrent s) (int (card (running_set (view (sDB s)))))"
proof -
  have env: "scheduler_env S view rnd Q qinv ready waiting"
    using assms(1,2) by (rule scheduler_env.intro)
  from scheduler_env.tick_slots [OF env assms(3-7)] show ?thesis .
qed

lemma tick_respects_slots_witness:
  "\<exists>s' ds fs. tick 3 sortSlice 9 demo_sched = Some (s', ds, fs) \<and> map tTaskUID ds = [''a''] \<and>
     card (running_set (mem_view (sDB s'))) \<le> 4"
proof -
  obtain s' ds fs where t: "tick 3 sortSlice 9 demo_sched = Some (s', ds, fs)" "map tTaskUID ds = [''a'']"
    by (rule demo_tickE)
  have "int (card (running_set (mem_view (sDB s')))) \<le> max (sMaxConcurrent demo_sched)
      (int (card (running_set (mem_view (sDB demo_sched)))))"
    by (rule tick_respects_slots [OF mem.st.task_store_axioms inmem.task_queue_axioms demo_ok t(1)])
      (simp_all add: demo_config int64_range_def flip: demo_running(1))
  with t show ?thesis by (auto simp: demo_config simp flip: demo_running(1))
qed

text \<open>
  C9. The resource limits: with a queue that keeps its tasks, and limits that are not negative, a
  tick never starts tasks beyond the CPUs and the memory of the scheduler: what all running
  tasks ask for stays within the total, or within what was already allocated before the tick.
\<close>

theorem tick_respects_resources:
  assumes "task_store S view rnd" and "reliable_queue Q qinv ready waiting tasks"
    and "sched_ok S Q qinv s" and "tick fuel sorting now s = Some (s', ds, fs)"
    and "nonneg_limits tCPULimit (view (sDB s))" and "nonneg_limits tMemoryLimit (view (sDB s))"
    and "\<forall>t \<in># tasks (sQ s). 0 \<le> tCPULimit t \<and> 0 \<le> tMemoryLimit t"
    and "0 \<le> sTotalCPU s" and "int64_range (sTotalCPU s)"
    and "int64_range (allocated tCPULimit (view (sDB s)))"
    and "0 \<le> sTotalMemMB s" and "int64_range (sTotalMemMB s)"
    and "int64_range (allocated tMemoryLimit (view (sDB s)))"
  shows "allocated tCPULimit (view (sDB s')) \<le> max (sTotalCPU s) (allocated tCPULimit (view (sDB s))) \<and>
     allocated tMemoryLimit (view (sDB s')) \<le> max (sTotalMemMB s) (allocated tMemoryLimit (view (sDB s)))"
proof -
  have "scheduler_env S view rnd Q qinv ready waiting"
    using assms(1) reliable_queue.axioms(1) [OF assms(2)] by (rule scheduler_env.intro)
  then have env: "reliable_env S view rnd Q qinv ready waiting tasks"
    using assms(2) by (rule reliable_env.intro)
  from reliable_env.tick_resources [OF env assms(3-13)] show ?thesis by blast
qed

theorem tick_respects_resources_witness:
  "\<exists>s' ds fs. tick 3 sortSlice 9 demo_sched = Some (s', ds, fs) \<and>
     map tTaskUID ds = [''a''] \<and> map tTaskUID fs = [''b''] \<and>
     allocated tCPULimit (mem_view (sDB s')) \<le> 3"
proof -
  obtain s' ds fs where t: "tick 3 sortSlice 9 demo_sched = Some (s', ds, fs)" "map tTaskUID ds = [''a'']"
    "map tTaskUID fs = [''b'']" by (rule demo_tickE)
  have alloc: "allocated load (mem_view (sDB demo_sched)) = 0" for load
    using demo_running(2) [of load] by simp
  have "\<forall>t \<in># queue_tasks (sQ demo_sched). 0 \<le> tCPULimit t \<and> 0 \<le> tMemoryLimit t"
    by (simp add: demo_sched_def NewScheduler_def queue_views InMemQueue_Push_def NewInMemQueue_def
        demo_task_def)
  from tick_respects_resources [OF mem.st.task_store_axioms inmem.reliable_queue_axioms demo_ok t(1)
      demo_limits this]
  have "allocated tCPULimit (mem_view (sDB s')) \<le> 3"
    by (simp add: demo_config alloc int64_range_def)
  with t show ?thesis by (intro exI conjI)
qed

text \<open>
  A tick loses no task and invents none: with a queue that keeps its tasks, every task that
  was queued is afterwards either among those handed to \<open>dispatch\<close> or still in the queue, and
  what else the queue holds are the running tasks that timed out with retries left, one more
  retry counted.
\<close>

lemma tick_conserves_tasks:
  assumes "task_store S view rnd" and "reliable_queue Q qinv ready waiting tasks"
    and "sched_ok S Q qinv s" and "tick fuel sorting now s = Some (s', ds, fs)"
  shows "\<exists>retried. tasks (sQ s) + retried = mset ds + tasks (sQ s') \<and>
    (\<forall>x \<in># retried. \<exists>r. view (sDB s) (tTaskUID x) = Some r \<and> tStatus r = TaskStatusRunning \<and>
       timedOut now r \<and> CanRetry r \<and> tRetryCount x = tRetryCount r + 1)"
proof -
  have "scheduler_env S view rnd Q qinv ready waiting"
    using assms(1) reliable_queue.axioms(1) [OF assms(2)] by (rule scheduler_env.intro)
  then have env: "reliable_env S view rnd Q qinv ready waiting tasks"
    using assms(2) by (rule reliable_env.intro)
  from reliable_env.tick_tasks [OF env assms(3,4)] show ?thesis by blast
qed

lemma tick_conserves_tasks_witness:
  "\<exists>s' ds fs. tick 3 sortSlice 9 demo_sched = Some (s', ds, fs) \<and>
     (\<exists>retried. queue_tasks (sQ demo_sched) + retried = mset ds + queue_tasks (sQ s'))"
proof -
  obtain s' ds fs where t: "tick 3 sortSlice 9 demo_sched = Some (s', ds, fs)"
    by (rule demo_tickE)
  from tick_conserves_tasks [OF mem.st.task_store_axioms inmem.reliable_queue_axioms demo_ok t] t
  show ?thesis by blast
qed

end
