(* ===== verification/Scheduler_Retry.thy ===== *)
theory Scheduler_Retry
  imports Scheduler_Props
begin

text \<open>
  What becomes of a finished task: the outcome of \<open>failTask\<close> and \<open>completeTask\<close> on the stored row,
  the backoff between retries, the number of retries a task that keeps failing gets, and what a
  late failure does to a task that was cancelled meanwhile.
\<close>

section \<open>Outcome of one failure\<close>

text \<open>What the row of a task looks like after a failure was recorded.\<close>

definition failed_row :: "(go_time \<Rightarrow> go_time) \<Rightarrow> go_time \<Rightarrow> Task \<Rightarrow> string \<Rightarrow> Task \<Rightarrow> bool" where
  "failed_row rnd now t msg x \<longleftrightarrow> tErrorMessage x = msg \<and> tMaxRetries x = tMaxRetries t \<and>
     (if CanRetry t
      then tStatus x = TaskStatusPending \<and> tRetryCount x = tRetryCount t + 1 \<and> tFinishedAt x = None
      else tStatus x = TaskStatusFailed \<and> tRetryCount x = tRetryCount t \<and> tFinishedAt x = Some (rnd now))"

text \<open>A task that is dispatched from its row whenever it is pending, and fails \<open>k\<close> times in a row.\<close>

definition redispatch :: "go_time \<Rightarrow> ('db, 'q, 'r, 'e) Scheduler \<Rightarrow> string \<Rightarrow> ('db, 'q, 'r, 'e) Scheduler" where
  "redispatch now s uid =
     (case ts_GetByUID (sStore s) (sDB s) uid of Inl e \<Rightarrow> s | Inr t \<Rightarrow> dispatchLocal now s t)"

fun failing_runs ::
    "nat \<Rightarrow> go_time \<Rightarrow> string \<Rightarrow> TaskResult \<Rightarrow> ('db, 'q, 'r, 'e) Scheduler \<Rightarrow> ('db, 'q, 'r, 'e) Scheduler" where
  "failing_runs 0 now uid res s = s"
| "failing_runs (Suc k) now uid res s =
     failing_runs k now uid res (redispatch now (HandleRemoteResult now s uid res) uid)"

text \<open>No statement of the store fails.\<close>

definition store_up :: "'db TaskStore \<Rightarrow> ('db \<Rightarrow> string \<rightharpoonup> Task) \<Rightarrow> bool" where
  "store_up S view \<longleftrightarrow> (\<forall>now db t. fst (ts_Update S now db t) = None) \<and>
     (\<forall>db u x. view db u = Some x \<longrightarrow> ts_GetByUID S db u = Inr x)"

context scheduler_env
begin

lemma storeUpdate_sDB: "sDB (snd (snd (storeUpdate now s t))) = snd (snd (ts_Update (sStore s) now (sDB s) t))"
  by (simp add: storeUpdate_def split: prod.split)

text \<open>The task a failure writes, if it writes one.\<close>

lemma failTask_row:
  assumes ok: "sched_ok S Q qinv s"
  obtains (retry) t' where "CanRetry t" "t' = t\<lparr>tErrorMessage := msg, tRetryCount := tRetryCount t + 1,
        tStatus := TaskStatusPending, tFinishedAt := None\<rparr>"
      "sDB (failTask now s t msg) = snd (snd (ts_Update S now (sDB s) t'))"
    | (failed) t' where "\<not> CanRetry t" "tStatus t = TaskStatusRunning"
      "t' = t\<lparr>tErrorMessage := msg, tFinishedAt := Some now, tStatus := TaskStatusFailed, tUpdatedAt := now\<rparr>"
      "sDB (failTask now s t msg) = snd (snd (ts_Update S now (sDB s) t'))"
    | (refused) "\<not> CanRetry t" "tStatus t \<noteq> TaskStatusRunning" "failTask now s t msg = s"
proof -
  have S: "sStore s = S" using ok by (simp add: sched_ok_def)
  show thesis
  proof (cases "CanRetry t")
    case True
    then have c: "CanRetry (t\<lparr>tErrorMessage := msg\<rparr>)" by (simp add: CanRetry_def)
    show thesis
      by (rule retry [OF True refl])
        (use c S in \<open>auto simp: failTask_def storeUpdate_def Let_def split: prod.split option.split\<close>)
  next
    case False
    then have c: "\<not> CanRetry (t\<lparr>tErrorMessage := msg\<rparr>)" by (simp add: CanRetry_def)
    let ?t = "t\<lparr>tErrorMessage := msg, tFinishedAt := Some now\<rparr>"
    show thesis
    proof (cases "tStatus t = TaskStatusRunning")
      case True
      then have tr: "TransitionTo now ?t TaskStatusFailed =
          Inr (?t\<lparr>tStatus := TaskStatusFailed, tUpdatedAt := now\<rparr>)"
        by (simp add: TransitionTo_iff lifecycle.finish)
      show thesis
        by (rule failed [OF False True refl])
          (use c S tr in \<open>auto simp: failTask_def storeUpdate_def Let_def sched_frame split: prod.split\<close>)
    next
      case nr: False
      then have "\<not> lifecycle (tStatus ?t) TaskStatusFailed" by (auto elim: lifecycle.cases)
      then have "\<exists>e. TransitionTo now ?t TaskStatusFailed = Inl e" by (simp add: TransitionTo_Inl)
      then show thesis
        by (intro refused [OF False nr]) (use c in \<open>auto simp: failTask_def Let_def\<close>)
    qed
  qed
qed

lemma view_upd_same: "view db u = Some x \<Longrightarrow> view db = (view db)(u \<mapsto> x)"
  by auto

lemma update_view:
  assumes "view db (tTaskUID t) = Some old"
  obtains (same) "view (snd (snd (ts_Update S now db t))) = view db"
    | (stored) "view (snd (snd (ts_Update S now db t))) =
         (view db)(tTaskUID t \<mapsto> stored_task rnd old (t\<lparr>tUpdatedAt := now\<rparr>))"
  using assms by (cases rule: update_cases [of now db t]) auto

lemma failTask_view:
  assumes ok: "sched_ok S Q qinv s" and row: "view (sDB s) (tTaskUID t) = Some old"
  shows "\<exists>x. view (sDB (failTask now s t msg)) = (view (sDB s))(tTaskUID t \<mapsto> x) \<and>
     (x = old \<or> failed_row rnd now t msg x \<and> (CanRetry t \<or> tStatus t = TaskStatusRunning) \<and>
        tRetryCount x \<le> max (tRetryCount t) (tMaxRetries t))"
proof (cases rule: failTask_row [OF ok, of t msg now, case_names retry failed refused])
  case (retry t')
  with row have "view (sDB s) (tTaskUID t') = Some old" by simp
  then show ?thesis
  proof (cases rule: update_view [of "sDB s" t' old now])
    case same
    then show ?thesis using retry(3) view_upd_same [OF row] by (intro exI [of _ old]) simp
  next
    case stored
    with retry show ?thesis
      by (intro exI [of _ "stored_task rnd old (t'\<lparr>tUpdatedAt := now\<rparr>)"])
        (auto simp: failed_row_def stored_task_def CanRetry_def)
  qed
next
  case (failed t')
  with row have "view (sDB s) (tTaskUID t') = Some old" by simp
  then show ?thesis
  proof (cases rule: update_view [of "sDB s" t' old now])
    case same
    then show ?thesis using failed(4) view_upd_same [OF row] by (intro exI [of _ old]) simp
  next
    case stored
    with failed show ?thesis
      by (intro exI [of _ "stored_task rnd old (t'\<lparr>tUpdatedAt := now\<rparr>)"])
        (auto simp: failed_row_def stored_task_def CanRetry_def)
  qed
next
  case refused
  then show ?thesis using view_upd_same [OF row] by (intro exI [of _ old]) simp
qed

lemma update_up:
  assumes "store_up S view" and "view db (tTaskUID t) = Some old"
  shows "view (snd (snd (ts_Update S now db t))) =
    (view db)(tTaskUID t \<mapsto> stored_task rnd old (t\<lparr>tUpdatedAt := now\<rparr>))"
proof -
  obtain t' db' where u: "ts_Update S now db t = (None, t', db')"
    using assms(1) by (metis prod.collapse store_up_def)
  from update_ok [OF u] update_task [OF u] assms(2) u show ?thesis by simp
qed

lemma deleteCancel_frame [simp]:
  "sDB (deleteCancel s u) = sDB s" "sStore (deleteCancel s u) = sStore s"
  "sQueue (deleteCancel s u) = sQueue s" "sQ (deleteCancel s u) = sQ s"
  by (simp_all add: deleteCancel_def)

lemma HandleRemoteResult_failed:
  assumes ok: "sched_ok S Q qinv s" and up: "store_up S view" and row: "view (sDB s) uid = Some x"
    and res: "trError res = Some e"
  shows "sched_ok S Q qinv (HandleRemoteResult now s uid res)"
    and "CanRetry x \<or> tStatus x = TaskStatusRunning \<Longrightarrow>
      \<exists>y msg. view (sDB (HandleRemoteResult now s uid res)) = (view (sDB s))(uid \<mapsto> y) \<and>
        failed_row rnd now x msg y"
    and "\<not> CanRetry x \<and> tStatus x \<noteq> TaskStatusRunning \<Longrightarrow>
      view (sDB (HandleRemoteResult now s uid res)) = view (sDB s)"
proof -
  let ?t = "x\<lparr>tStdout := trStdout res, tStderr := trStderr res, tFinishedAt := Some now\<rparr>"
  let ?s = "deleteCancel s uid"
  define msg where "msg = (if trTimedOut res then ''task timed out'' else errorString e)"
  have S: "sStore s = S" using ok by (simp add: sched_ok_def)
  have h: "HandleRemoteResult now s uid res = failTask now ?s ?t msg"
    using up row res S by (simp add: HandleRemoteResult_def completeTask_def store_up_def Let_def msg_def)
  have ok': "sched_ok S Q qinv ?s" using ok by (simp add: sched_ok_def)
  then show "sched_ok S Q qinv (HandleRemoteResult now s uid res)" by (simp add: h failTask_ok)
  have uid: "tTaskUID x = uid" using row view_uid by blast
  have can: "CanRetry ?t = CanRetry x" by (simp add: CanRetry_def)
  have fr: "failed_row rnd now x msg = failed_row rnd now ?t msg"
    by (simp add: failed_row_def fun_eq_iff can)
  show "\<exists>y msg. view (sDB (HandleRemoteResult now s uid res)) = (view (sDB s))(uid \<mapsto> y) \<and>
        failed_row rnd now x msg y" if "CanRetry x \<or> tStatus x = TaskStatusRunning"
  proof (cases rule: failTask_row [OF ok', of ?t msg now, case_names retry failed refused])
    case (retry t')
    with update_up [OF up, of "sDB s" t' x now] row uid show ?thesis
      by (intro exI [of _ "stored_task rnd x (t'\<lparr>tUpdatedAt := now\<rparr>)"] exI [of _ msg])
        (auto simp: h fr failed_row_def stored_task_def CanRetry_def)
  next
    case (failed t')
    with update_up [OF up, of "sDB s" t' x now] row uid show ?thesis
      by (intro exI [of _ "stored_task rnd x (t'\<lparr>tUpdatedAt := now\<rparr>)"] exI [of _ msg])
        (auto simp: h fr failed_row_def stored_task_def CanRetry_def)
  qed (use that can in simp)
  show "view (sDB (HandleRemoteResult now s uid res)) = view (sDB s)"
    if "\<not> CanRetry x \<and> tStatus x \<noteq> TaskStatusRunning"
    by (cases rule: failTask_row [OF ok', of ?t msg now, case_names retry failed refused])
      (use that can h in auto)
qed

lemma redispatch_row:
  assumes ok: "sched_ok S Q qinv s" and up: "store_up S view" and row: "view (sDB s) uid = Some x"
  shows "sched_ok S Q qinv (redispatch now s uid)"
    and "\<exists>y. view (sDB (redispatch now s uid)) uid = Some y \<and> tRetryCount y = tRetryCount x \<and>
      tMaxRetries y = tMaxRetries x \<and>
      (tStatus x = TaskStatusPending \<longrightarrow> tStatus y = TaskStatusRunning) \<and>
      (tStatus x = TaskStatusFailed \<longrightarrow> y = x)"
proof -
  have S: "sStore s = S" using ok by (simp add: sched_ok_def)
  have r: "redispatch now s uid = dispatchLocal now s x"
    using up row S by (simp add: redispatch_def store_up_def)
  show "sched_ok S Q qinv (redispatch now s uid)"
    using ok dispatchLocal_frame(1) [THEN sched_configD(1), of now s x]
      dispatchLocal_frame(1) [THEN sched_configD(2), of now s x]
    by (simp add: r sched_ok_def sched_frame)
  have uid: "tTaskUID x = uid" using row view_uid by blast
  show "\<exists>y. view (sDB (redispatch now s uid)) uid = Some y \<and> tRetryCount y = tRetryCount x \<and>
      tMaxRetries y = tMaxRetries x \<and>
      (tStatus x = TaskStatusPending \<longrightarrow> tStatus y = TaskStatusRunning) \<and>
      (tStatus x = TaskStatusFailed \<longrightarrow> y = x)"
  proof (cases rule: TransitionTo_cases [of x TaskStatusRunning now])
    case ok
    then have p: "tStatus x = TaskStatusPending" by auto
    let ?t = "x\<lparr>tStatus := TaskStatusRunning, tUpdatedAt := now, tStartedAt := Some now\<rparr>"
    have "sDB (dispatchLocal now s x) = snd (snd (ts_Update S now (sDB s) ?t))"
      using ok(2) S by (auto simp: dispatchLocal_def storeUpdate_def registerCancel_def spawnLocal_def
          split: prod.split option.split)
    with update_up [OF up, of "sDB s" ?t x now] row uid p show ?thesis
      by (auto simp: r stored_task_def)
  next
    case (refused e)
    then have "tStatus x \<noteq> TaskStatusPending" using lifecycle.start by metis
    with refused row show ?thesis by (simp add: r dispatchLocal_def)
  qed
qed

lemma failing_run_step:
  assumes ok: "sched_ok S Q qinv s" and up: "store_up S view" and row: "view (sDB s) uid = Some x"
    and st: "tStatus x = TaskStatusRunning \<or> tStatus x = TaskStatusFailed \<and> \<not> CanRetry x"
    and res: "trError res = Some e"
  shows "sched_ok S Q qinv (redispatch now (HandleRemoteResult now s uid res) uid)"
    and "\<exists>y. view (sDB (redispatch now (HandleRemoteResult now s uid res) uid)) uid = Some y \<and>
      tMaxRetries y = tMaxRetries x \<and>
      tRetryCount y = (if CanRetry x then tRetryCount x + 1 else tRetryCount x) \<and>
      tStatus y = (if CanRetry x then TaskStatusRunning else TaskStatusFailed)"
proof -
  note h = HandleRemoteResult_failed [OF ok up row res, of now]
  obtain y where y: "view (sDB (HandleRemoteResult now s uid res)) uid = Some y"
    "tMaxRetries y = tMaxRetries x"
    "tRetryCount y = (if CanRetry x then tRetryCount x + 1 else tRetryCount x)"
    "tStatus y = (if CanRetry x then TaskStatusPending else TaskStatusFailed)"
  proof (cases "CanRetry x \<or> tStatus x = TaskStatusRunning")
    case True
    from h(2) [OF True] obtain y msg where
      "view (sDB (HandleRemoteResult now s uid res)) = (view (sDB s))(uid \<mapsto> y)"
      "failed_row rnd now x msg y" by blast
    then show thesis using that [of y] by (auto simp: failed_row_def split: if_splits)
  next
    case False
    with h(3) st row show thesis using that [of x] by auto
  qed
  note r = redispatch_row [OF h(1) up y(1), of now]
  from r(1) show "sched_ok S Q qinv (redispatch now (HandleRemoteResult now s uid res) uid)" .
  from r(2) y(2-4) show "\<exists>y. view (sDB (redispatch now (HandleRemoteResult now s uid res) uid)) uid = Some y \<and>
      tMaxRetries y = tMaxRetries x \<and>
      tRetryCount y = (if CanRetry x then tRetryCount x + 1 else tRetryCount x) \<and>
      tStatus y = (if CanRetry x then TaskStatusRunning else TaskStatusFailed)"
    by (auto split: if_splits)
qed

lemma failing_runs_row:
  assumes "sched_ok S Q qinv s" and up: "store_up S view" and "view (sDB s) uid = Some x"
    and "tStatus x = TaskStatusRunning \<and> tRetryCount x \<le> tMaxRetries x \<or>
      tStatus x = TaskStatusFailed \<and> tRetryCount x = tMaxRetries x"
    and res: "trError res = Some e"
  shows "\<exists>y. view (sDB (failing_runs k now uid res s)) uid = Some y \<and>
    tRetryCount y = min (tMaxRetries x) (tRetryCount x + int k) \<and>
    tStatus y = (if tStatus x = TaskStatusRunning \<and> tRetryCount x + int k \<le> tMaxRetries x
       then TaskStatusRunning else TaskStatusFailed)"
  using assms(1,3,4)
proof (induction k arbitrary: s x)
  case (Suc k)
  have st: "tStatus x = TaskStatusRunning \<or> tStatus x = TaskStatusFailed \<and> \<not> CanRetry x"
    using Suc.prems(3) by (auto simp: CanRetry_def)
  note step = failing_run_step [OF Suc.prems(1) up Suc.prems(2) st res, of now]
  from step(2) obtain y where y: "view (sDB (redispatch now (HandleRemoteResult now s uid res) uid)) uid = Some y"
    "tMaxRetries y = tMaxRetries x"
    "tRetryCount y = (if CanRetry x then tRetryCount x + 1 else tRetryCount x)"
    "tStatus y = (if CanRetry x then TaskStatusRunning else TaskStatusFailed)" by blast
  have "tStatus y = TaskStatusRunning \<and> tRetryCount y \<le> tMaxRetries y \<or>
      tStatus y = TaskStatusFailed \<and> tRetryCount y = tMaxRetries y"
    using y Suc.prems(3) by (auto simp: CanRetry_def split: if_splits)
  from Suc.IH [OF step(1) y(1) this] y(2-4) Suc.prems(3) show ?case
    by (auto simp: CanRetry_def split: if_splits)
qed auto

lemma HandleRemoteResult_success:
  assumes ok: "sched_ok S Q qinv s" and up: "store_up S view" and row: "view (sDB s) uid = Some t"
    and res: "trError res = None"
  shows "view (sDB (HandleRemoteResult now s uid res)) =
      (if tStatus t = TaskStatusRunning
       then (view (sDB s))(uid \<mapsto> stored_task rnd t (t\<lparr>tStdout := trStdout res, tStderr := trStderr res,
          tFinishedAt := Some now, tExitCode := Some (trExitCode res), tStatus := TaskStatusSuccess,
          tUpdatedAt := now\<rparr>))
       else view (sDB s))"
    and "sQ (HandleRemoteResult now s uid res) = sQ s"
proof -
  let ?s = "deleteCancel s uid"
  let ?t = "t\<lparr>tStdout := trStdout res, tStderr := trStderr res, tFinishedAt := Some now,
      tExitCode := Some (trExitCode res)\<rparr>"
  have S: "sStore s = S" using ok by (simp add: sched_ok_def)
  have uid: "tTaskUID t = uid" using row view_uid by blast
  have h: "HandleRemoteResult now s uid res = (case TransitionTo now ?t TaskStatusSuccess of
      Inl e \<Rightarrow> ?s | Inr t2 \<Rightarrow> (case storeUpdate now ?s t2 of (err, t3, s1) \<Rightarrow> countDaily now s1 ''success''))"
    using up row S res by (simp add: HandleRemoteResult_def completeTask_def store_up_def Let_def)
  show "view (sDB (HandleRemoteResult now s uid res)) =
      (if tStatus t = TaskStatusRunning
       then (view (sDB s))(uid \<mapsto> stored_task rnd t (t\<lparr>tStdout := trStdout res, tStderr := trStderr res,
          tFinishedAt := Some now, tExitCode := Some (trExitCode res), tStatus := TaskStatusSuccess,
          tUpdatedAt := now\<rparr>))
       else view (sDB s))"
  proof (cases "tStatus t = TaskStatusRunning")
    case True
    then have tr: "TransitionTo now ?t TaskStatusSuccess =
        Inr (?t\<lparr>tStatus := TaskStatusSuccess, tUpdatedAt := now\<rparr>)"
      by (simp add: TransitionTo_iff lifecycle.finish)
    then have "sDB (HandleRemoteResult now s uid res) =
        snd (snd (ts_Update S now (sDB s) (?t\<lparr>tStatus := TaskStatusSuccess, tUpdatedAt := now\<rparr>)))"
      using S by (simp add: h storeUpdate_def sched_frame split: prod.split)
    with update_up [OF up, of "sDB s" "?t\<lparr>tStatus := TaskStatusSuccess, tUpdatedAt := now\<rparr>" t now]
      row uid True show ?thesis by simp
  next
    case False
    then have "\<not> lifecycle (tStatus ?t) TaskStatusSuccess" by (auto elim: lifecycle.cases)
    then have "\<exists>e. TransitionTo now ?t TaskStatusSuccess = Inl e" by (simp add: TransitionTo_Inl)
    with False show ?thesis by (auto simp: h)
  qed
  show "sQ (HandleRemoteResult now s uid res) = sQ s"
    by (auto simp: h storeUpdate_def sched_frame split: sum.split prod.split)
qed

end

context reliable_env
begin

text \<open>A failure with retries left puts the task back to work, whatever its status.\<close>

lemma failTask_requeues:
  assumes ok: "sched_ok S Q qinv s" and up: "store_up S view" and row: "view (sDB s) (tTaskUID t) = Some old"
    and retry: "CanRetry t" "0 \<le> tRetryCount t"
  shows "\<exists>y q. view (sDB (failTask now s t msg)) = (view (sDB s))(tTaskUID t \<mapsto> y) \<and>
      tStatus y = TaskStatusPending \<and> tRetryCount y = tRetryCount t + 1 \<and> tMaxRetries y = tMaxRetries t \<and>
      tTaskUID q = tTaskUID t \<and> tasks (sQ (failTask now s t msg)) = add_mset q (tasks (sQ s))"
proof -
  let ?x = "t\<lparr>tErrorMessage := msg, tRetryCount := tRetryCount t + 1, tStatus := TaskStatusPending,
      tFinishedAt := None\<rparr>"
  have S: "sStore s = S" "sQueue s = Some Q" "qinv (sQ s)" using ok by (simp_all add: sched_ok_def)
  have c: "CanRetry (t\<lparr>tErrorMessage := msg\<rparr>)" using retry(1) by (simp add: CanRetry_def)
  obtain t' db' where u: "ts_Update S now (sDB s) ?x = (None, t', db')"
    using up by (metis prod.collapse store_up_def)
  have t': "t' = ?x\<lparr>tUpdatedAt := now\<rparr>" using update_task [OF u] .
  have nn: "\<not> tRetryCount t + 1 < 0" using retry(2) by simp
  obtain d where d: "retryDelay (tRetryIntervalSec t') (tRetryCount t') = Some d"
    using nn by (auto simp: t' retryDelay_def shl64_def Let_def)
  have s: "sQ (failTask now s t msg) = snd (q_PushDelayed Q now (sQ s) t' d)" "sDB (failTask now s t msg) = db'"
    using c u S d by (simp_all add: failTask_def storeUpdate_def Let_def)
  have "view db' = (view (sDB s))(tTaskUID t \<mapsto> stored_task rnd old t')"
    using update_ok [OF u] row by simp
  moreover have "tasks (sQ (failTask now s t msg)) = add_mset t' (tasks (sQ s))"
    using push_delayed_tasks [OF S(3)] s(1) by simp
  ultimately show ?thesis
    by (intro exI [of _ "stored_task rnd old t'"] exI [of _ t']) (simp add: s(2) t' stored_task_def)
qed

lemma HandleRemoteResult_requeues:
  assumes ok: "sched_ok S Q qinv s" and up: "store_up S view" and row: "view (sDB s) uid = Some t"
    and retry: "CanRetry t" "0 \<le> tRetryCount t" and res: "trError res = Some e"
  shows "\<exists>y q. view (sDB (HandleRemoteResult now s uid res)) = (view (sDB s))(uid \<mapsto> y) \<and>
      tStatus y = TaskStatusPending \<and> tTaskUID q = uid \<and>
      tasks (sQ (HandleRemoteResult now s uid res)) = add_mset q (tasks (sQ s))"
proof -
  let ?t = "t\<lparr>tStdout := trStdout res, tStderr := trStderr res, tFinishedAt := Some now\<rparr>"
  let ?s = "deleteCancel s uid"
  define msg where "msg = (if trTimedOut res then ''task timed out'' else errorString e)"
  have uid: "tTaskUID t = uid" using row view_uid by blast
  have h: "HandleRemoteResult now s uid res = failTask now ?s ?t msg"
    using up row ok res by (simp add: HandleRemoteResult_def completeTask_def store_up_def Let_def msg_def sched_ok_def)
  have "sched_ok S Q qinv ?s" "view (sDB ?s) (tTaskUID ?t) = Some t" "CanRetry ?t" "0 \<le> tRetryCount ?t"
    using ok row retry uid by (simp_all add: sched_ok_def CanRetry_def)
  from failTask_requeues [OF this(1) up this(2-4), of now msg] show ?thesis by (auto simp: h uid)
qed

end

text \<open>The backoff while no product overflows.\<close>

lemma retryDelay_exact:
  assumes "0 \<le> interval" and "0 \<le> c" and "interval * Second * 2 ^ nat c < 2 ^ 63"
  shows "retryDelay interval c = Some (min (interval * Second * 2 ^ nat c) maxRetryDelay)"
proof (cases "interval = 0")
  case True
  then show ?thesis using assms(2) by (simp add: retryDelay_def shl64_def wrap64_def maxRetryDelay_def
      Minute_def Second_def Let_def)
next
  case False
  then have "1 \<le> interval * Second" using assms(1) by (simp add: Second_def)
  then have p: "2 ^ nat c \<le> interval * Second * 2 ^ nat c" "interval * Second \<le> interval * Second * 2 ^ nat c"
    by (simp_all add: mult_le_cancel_right1 mult_le_cancel_left1)
  then have r: "int64_range (2 ^ nat c)" "int64_range (interval * Second)"
    "int64_range (interval * Second * 2 ^ nat c)"
    using assms(3) \<open>1 \<le> interval * Second\<close> unfolding int64_range_def
    by (smt (verit) zero_le_power)+
  show ?thesis using assms(2)
    by (simp add: retryDelay_def shl64_def wrap64_id [OF r(1)] wrap64_id [OF r(2)] wrap64_id [OF r(3)] Let_def min_def)
qed

section \<open>A running task for the witnesses\<close>

definition demo_started :: "(task_row list, InMemQueue, unit, unit) Scheduler" where
  "demo_started = dispatchLocal 9 demo_sched ((demo_task ''a'')\<lparr>tStatus := TaskStatusPending\<rparr>)"

definition demo_failure :: TaskResult where
  "demo_failure = \<lparr>trExitCode = 1, trStdout = ''out'', trStderr = [],
     trTimedOut = False, trError = Some (ErrExit 1 ''exit status 1'')\<rparr>"

lemma demo_started_ok: "sched_ok (NewTaskStore mem_pg) InMemTaskQueue queue_inv demo_started"
  using demo_ok by (simp add: sched_ok_def demo_started_def sched_frame
      dispatchLocal_frame(1) [THEN sched_configD(1)] dispatchLocal_frame(1) [THEN sched_configD(2)])

lemma demo_started_row:
  obtains t where "mem_view (sDB demo_started) ''a'' = Some t" "tStatus t = TaskStatusRunning"
    "tRetryCount t = 0" "tMaxRetries t = 1"
proof -
  have "map_option (\<lambda>r. (tStatus (scanTask r), r_retry_count r, r_max_retries r))
      (mem_rows (sDB demo_started) ''a'') = Some (TaskStatusRunning, 0, 1)" by code_simp
  then show thesis using that by (auto simp: mem.task_view_def scanTask_def)
qed

lemma mem_store_up: "store_up (NewTaskStore mem_pg) mem_view"
  by (auto simp: store_up_def NewTaskStore_def TaskStore_Update_def TaskStore_GetByUID_def
      json_Marshal_def mem_pg_def mem.task_view_def Let_def split: option.split)

section \<open>Properties\<close>





text \<open>
  The result of a successful run: while no statement of the store fails, a result without an
  error makes the row of a running task a success with output, exit code and finish time, and
  nothing else in the table or the queue changes; for a task that is not running (cancelled
  meanwhile, or reported twice) it changes nothing at all.
\<close>

lemma success_recorded:
  assumes "task_store S view rnd" and "task_queue Q qinv ready waiting"
    and "sched_ok S Q qinv s" and "store_up S view"
    and "view (sDB s) uid = Some t" and "trError res = None"
  shows "view (sDB (HandleRemoteResult now s uid res)) =
      (if tStatus t = TaskStatusRunning
       then (view (sDB s))(uid \<mapsto> stored_task rnd t (t\<lparr>tStdout := trStdout res, tStderr := trStderr res,
          tFinishedAt := Some now, tExitCode := Some (trExitCode res), tStatus := TaskStatusSuccess,
          tUpdatedAt := now\<rparr>))
       else view (sDB s)) \<and>
     sQ (HandleRemoteResult now s uid res) = sQ s"
proof -
  have env: "scheduler_env S view rnd Q qinv ready waiting"
    using assms(1,2) by (rule scheduler_env.intro)
  from scheduler_env.HandleRemoteResult_success [OF env assms(3-6)] show ?thesis by blast
qed

lemma success_recorded_witness:
  "\<exists>x. mem_view (sDB (HandleRemoteResult 30 demo_started ''a''
       (demo_failure\<lparr>trError := None, trExitCode := 0\<rparr>))) ''a'' = Some x \<and>
     tStatus x = TaskStatusSuccess \<and> tExitCode x = Some 0 \<and> tStdout x = ''out''"
proof -
  obtain t where t: "mem_view (sDB demo_started) ''a'' = Some t" "tStatus t = TaskStatusRunning"
    by (rule demo_started_row)
  have "trError (demo_failure\<lparr>trError := None, trExitCode := 0\<rparr>) = None" by simp
  from success_recorded [OF mem.st.task_store_axioms inmem.task_queue_axioms demo_started_ok
      mem_store_up t(1) this, where now = 30] t(2)
  show ?thesis by (simp add: stored_task_def demo_failure_def)
qed

text \<open>
  C37. A failure result is not checked against the status of the task: if it arrives for a task with
  retries left, the row goes back to pending and the task back into the queue, whatever its
  status was. So a cancelled task, which is terminal by the transition table, comes back to life
  when its killed process reports its error.
\<close>

theorem failure_revives_terminal:
  assumes "task_store S view rnd" and "reliable_queue Q qinv ready waiting tasks"
    and "sched_ok S Q qinv s" and "store_up S view"
    and "view (sDB s) uid = Some t" and "tStatus t = TaskStatusCanceled"
    and "CanRetry t" and "0 \<le> tRetryCount t" and "trError res = Some e"
  shows "IsTerminal (tStatus t) \<and>
     (\<exists>y q. view (sDB (HandleRemoteResult now s uid res)) = (view (sDB s))(uid \<mapsto> y) \<and>
        tStatus y = TaskStatusPending \<and> tTaskUID q = uid \<and>
        tasks (sQ (HandleRemoteResult now s uid res)) = add_mset q (tasks (sQ s)))"
proof -
  have "scheduler_env S view rnd Q qinv ready waiting"
    using assms(1) reliable_queue.axioms(1) [OF assms(2)] by (rule scheduler_env.intro)
  then have env: "reliable_env S view rnd Q qinv ready waiting tasks"
    using assms(2) by (rule reliable_env.intro)
  from reliable_env.HandleRemoteResult_requeues [OF env assms(3-5,7-9)] assms(6)
  show ?thesis by (simp add: IsTerminal_def)
qed

text \<open>The row of the running task, cancelled by the service.\<close>

definition demo_canceled :: "(task_row list, InMemQueue, unit, unit) Scheduler" where
  "demo_canceled = demo_started\<lparr>sDB := map (\<lambda>r. r\<lparr>r_status := ''canceled''\<rparr>) (sDB demo_started)\<rparr>"

theorem failure_revives_terminal_witness:
  "\<exists>t y. mem_view (sDB demo_canceled) ''a'' = Some t \<and> tStatus t = TaskStatusCanceled \<and>
     mem_view (sDB (HandleRemoteResult 30 demo_canceled ''a'' demo_failure)) ''a'' = Some y \<and>
     tStatus y = TaskStatusPending"
proof -
  have "map_option (\<lambda>r. (tStatus (scanTask r), r_retry_count r, r_max_retries r))
      (mem_rows (sDB demo_canceled) ''a'') = Some (TaskStatusCanceled, 0, 1)" by code_simp
  then obtain t where t: "mem_view (sDB demo_canceled) ''a'' = Some t" "tStatus t = TaskStatusCanceled"
    "CanRetry t" "0 \<le> tRetryCount t"
    by (auto simp: mem.task_view_def scanTask_def CanRetry_def)
  have e: "trError demo_failure = Some (ErrExit 1 ''exit status 1'')" by (simp add: demo_failure_def)
  have ok: "sched_ok (NewTaskStore mem_pg) InMemTaskQueue queue_inv demo_canceled"
    using demo_started_ok by (simp add: demo_canceled_def sched_ok_def)
  from failure_revives_terminal [OF mem.st.task_store_axioms inmem.reliable_queue_axioms ok
      mem_store_up t e, where now = 30] t show ?thesis by fastforce
qed

section \<open>Backoff\<close>

text \<open>
  The backoff of a retry is exponential with a cap: as long as the product fits into 64 bits,
  the delay is the interval in seconds doubled once per retry, and at most five minutes.
\<close>

lemma retryDelay_backoff:
  assumes "0 \<le> interval" and "0 \<le> c" and "interval * Second * 2 ^ nat c < 2 ^ 63"
  shows "retryDelay interval c = Some (min (interval * Second * 2 ^ nat c) (5 * Minute))"
  using retryDelay_exact [OF assms] by (simp add: maxRetryDelay_def)

lemma retryDelay_backoff_witness:
  "retryDelay 1 3 = Some (8 * Second) \<and> retryDelay 1 9 = Some (5 * Minute)"
  using retryDelay_backoff [of 1 3] retryDelay_backoff [of 1 9]
  by (simp add: Second_def Minute_def)

lemma wrap64_mod: "x mod 2 ^ 64 = y mod 2 ^ 64 \<Longrightarrow> wrap64 x = wrap64 y"
  unfolding wrap64_def by (metis mod_add_left_eq)

lemma wrap64_zero: "wrap64 (2 ^ 64 * m) = 0"
  using wrap64_mod [of "2 ^ 64 * m" 0] by (simp add: wrap64_def)

lemma wrap64_mult_right: "wrap64 (a * wrap64 b) = wrap64 (a * b)"
proof (rule wrap64_mod)
  have "wrap64 b mod 2 ^ 64 = b mod 2 ^ 64"
    unfolding wrap64_def by (simp add: mod_diff_left_eq)
  then show "a * wrap64 b mod 2 ^ 64 = a * b mod 2 ^ 64" by (metis mod_mult_right_eq)
qed


end
