(* ===== verification/Scheduler_Dispatch.thy ===== *)
theory Scheduler_Dispatch
  imports Scheduler_Retry
begin

text \<open>
  Where a task goes: the choice of the node, the claims through etcd that keep two schedulers from
  dispatching the same task, and the bounded channel each node is served from.
\<close>

section \<open>Node selection\<close>

lemma filterNodes_filter: "filterNodes t ns acc = acc @ filter (nodeFits t) ns"
  by (induction t ns acc rule: filterNodes.induct) simp_all

definition sorts_by_usage :: "(Node list \<Rightarrow> Node list) \<Rightarrow> bool" where
  "sorts_by_usage sorting \<longleftrightarrow>
     (\<forall>ns. mset (sorting ns) = mset ns \<and> sorted (map nCPUUsagePct (sorting ns)))"

lemma sortSlice_sorts: "sorts_by_usage sortSlice"
  by (simp add: sorts_by_usage_def sortSlice_def)

lemma hd_sorting:
  assumes "sorts_by_usage sorting" and "ns \<noteq> []"
  shows "hd (sorting ns) \<in> set ns" and "m \<in> set ns \<Longrightarrow> nCPUUsagePct (hd (sorting ns)) \<le> nCPUUsagePct m"
proof -
  have m: "mset (sorting ns) = mset ns" and s: "sorted (map nCPUUsagePct (sorting ns))"
    using assms(1) by (simp_all add: sorts_by_usage_def)
  then have set: "set (sorting ns) = set ns" by (metis set_mset_mset)
  with assms(2) obtain x xs where x: "sorting ns = x # xs" by (cases "sorting ns") auto
  then show "hd (sorting ns) \<in> set ns" using set by force
  show "nCPUUsagePct (hd (sorting ns)) \<le> nCPUUsagePct m" if "m \<in> set ns"
    using that s set x by force
qed

text \<open>
  The node selection in its three layers: without a node manager it selects nothing and reports
  no error; it reports that no label matches exactly when there is no candidate, and a lack of
  resources exactly when there are candidates but the task fits on none; otherwise it selects a
  candidate the task fits on, and one whose reported CPU usage is least among all of those,
  however the sort breaks ties.
\<close>

lemma SelectNode_best:
  assumes "sorts_by_usage sorting"
  shows "case SelectNode sorting s t of
      Inr None \<Rightarrow> sNodeMgr s = None
    | Inl e \<Rightarrow> (\<exists>find. sNodeMgr s = Some find \<and>
        (e = ErrNoNodeMatching \<and> find (tNodeSelector t) = [] \<or>
         e = ErrNoNodeResources \<and> find (tNodeSelector t) \<noteq> [] \<and>
           (\<forall>n \<in> set (find (tNodeSelector t)). \<not> nodeFits t n)))
    | Inr (Some n) \<Rightarrow> (\<exists>find. sNodeMgr s = Some find \<and> n \<in> set (find (tNodeSelector t)) \<and>
        nodeFits t n \<and>
        (\<forall>m \<in> set (find (tNodeSelector t)). nodeFits t m \<longrightarrow> nCPUUsagePct n \<le> nCPUUsagePct m))"
proof (cases "sNodeMgr s")
  case None
  then show ?thesis by (simp add: SelectNode_def)
next
  case (Some find)
  let ?fit = "filter (nodeFits t) (find (tNodeSelector t))"
  show ?thesis
  proof (cases "?fit = []")
    case True
    with Some show ?thesis
      by (auto simp: SelectNode_def filterNodes_filter Let_def filter_empty_conv)
  next
    case False
    then have "SelectNode sorting s t = Inr (Some (hd (sorting ?fit)))"
      using Some by (auto simp: SelectNode_def filterNodes_filter Let_def)
    with Some hd_sorting [OF assms False] show ?thesis by auto
  qed
qed

definition demo_node :: "string \<Rightarrow> int \<Rightarrow> rat \<Rightarrow> Node" where
  "demo_node uid cpu usage = (NewNode uid 0 uid [] [] cpu 4096 0 [])\<lparr>nCPUUsagePct := usage\<rparr>"

lemma SelectNode_best_witness:
  "\<exists>n. SelectNode sortSlice (SetNodeManager demo_sched
       (\<lambda>_. [demo_node ''small'' 1 0, demo_node ''busy'' 8 50, demo_node ''idle'' 8 10])) (demo_task ''a'')
     = Inr (Some n) \<and> nNodeID n = ''idle'' \<and> nodeFits (demo_task ''a'') n"
proof -
  let ?s = "SetNodeManager demo_sched
       (\<lambda>_. [demo_node ''small'' 1 0, demo_node ''busy'' 8 50, demo_node ''idle'' 8 10])"
  have "map_sum (\<lambda>_. ()) (map_option nNodeID) (SelectNode sortSlice ?s (demo_task ''a'')) = Inr (Some ''idle'')"
    by code_simp
  then obtain n where "SelectNode sortSlice ?s (demo_task ''a'') = Inr (Some n)" "nNodeID n = ''idle''"
    by (cases "SelectNode sortSlice ?s (demo_task ''a'')") auto
  with SelectNode_best [OF sortSlice_sorts, of ?s "demo_task ''a''"] show ?thesis by auto
qed

section \<open>Claims\<close>

text \<open>What etcd promises of the transaction, with \<open>owner\<close> the values of the keys: it succeeds only
  on a key that does not exist, and then writes it; if it does not succeed, or fails on the way
  back, nothing that exists is changed.\<close>

definition etcd_txn_laws :: "'e etcd_txn \<Rightarrow> ('e \<Rightarrow> string \<rightharpoonup> string) \<Rightarrow> bool" where
  "etcd_txn_laws E owner \<longleftrightarrow> (\<forall>e k v l r e'. et_PutIfAbsent E e k v l = (r, e') \<longrightarrow>
     owner e \<subseteq>\<^sub>m owner e' \<and> (r = Inr True \<longrightarrow> owner e k = None \<and> owner e' k = Some v))"

text \<open>Claims of several schedulers on one etcd, in the order etcd serialises them.\<close>

fun claim_run :: "('db, 'q, 'r, 'e) Scheduler list \<Rightarrow> 'e \<Rightarrow> (nat \<times> string) list \<Rightarrow> bool result list" where
  "claim_run ss e [] = []"
| "claim_run ss e ((i, uid) # xs) =
     (case ClaimTask ((ss ! i)\<lparr>sEtcdState := e\<rparr>) uid of
        (r, s') \<Rightarrow> r # claim_run ss (sEtcdState s') xs)"

lemma ClaimTask_laws:
  assumes "etcd_txn_laws E owner" and "sEtcd s = Some E" and "ClaimTask s uid = (r, s')"
  shows "owner (sEtcdState s) \<subseteq>\<^sub>m owner (sEtcdState s')"
    and "r = Inr True \<Longrightarrow> owner (sEtcdState s) (claimKey uid) = None \<and>
      owner (sEtcdState s') (claimKey uid) = Some (sSchedulerID s)"
proof -
  obtain p st where p: "et_PutIfAbsent E (sEtcdState s) (claimKey uid) (sSchedulerID s) (sLeaseID s) = (p, st)"
    by fastforce
  have "sEtcdState s' = st" "r = Inr True \<longleftrightarrow> p = Inr True"
    using assms(2,3) p by (auto simp: ClaimTask_def split: sum.splits)
  then show "owner (sEtcdState s) \<subseteq>\<^sub>m owner (sEtcdState s')"
    and "r = Inr True \<Longrightarrow> owner (sEtcdState s) (claimKey uid) = None \<and>
      owner (sEtcdState s') (claimKey uid) = Some (sSchedulerID s)"
    using assms(1) p unfolding etcd_txn_laws_def by blast+
qed

lemma map_le_dom: "m \<subseteq>\<^sub>m m' \<Longrightarrow> m k \<noteq> None \<Longrightarrow> m' k \<noteq> None"
  by (metis domIff map_le_def)

lemma claim_run_count:
  assumes laws: "etcd_txn_laws E owner" and ss: "\<forall>s \<in> set ss. sEtcd s = Some E"
  shows "\<forall>x \<in> set xs. fst x < length ss \<Longrightarrow>
    length (filter (\<lambda>(x, r). snd x = uid \<and> r = Inr True) (zip xs (claim_run ss e xs))) \<le>
      (if owner e (claimKey uid) = None then 1 else 0)"
proof (induction xs arbitrary: e)
  case (Cons x xs)
  obtain i u where x: "x = (i, u)" by (cases x)
  let ?s = "(ss ! i)\<lparr>sEtcdState := e\<rparr>"
  obtain r s' where c: "ClaimTask ?s u = (r, s')" by fastforce
  have "sEtcd ?s = Some E" using ss Cons.prems x by simp
  note l = ClaimTask_laws [OF laws this c]
  from Cons.IH [of "sEtcdState s'"] Cons.prems have IH:
    "length (filter (\<lambda>(x, r). snd x = uid \<and> r = Inr True) (zip xs (claim_run ss (sEtcdState s') xs))) \<le>
      (if owner (sEtcdState s') (claimKey uid) = None then 1 else 0)" by simp
  show ?case
  proof (cases "u = uid \<and> r = Inr True")
    case True
    with l(2) IH c show ?thesis by (auto simp: x)
  next
    case False
    with IH map_le_dom [OF l(1), of "claimKey uid"] show ?thesis by (auto simp: x c split: if_splits)
  qed
qed simp


text \<open>An etcd that never fails, for the witnesses.\<close>

definition mem_etcd :: "(string \<times> string) list etcd_txn" where
  "mem_etcd = \<lparr>et_PutIfAbsent = (\<lambda>e k v l.
     if map_of e k = None then (Inr True, (k, v) # e) else (Inr False, e))\<rparr>"

lemma mem_etcd_laws: "etcd_txn_laws mem_etcd map_of"
  by (auto simp: etcd_txn_laws_def mem_etcd_def map_le_def split: if_splits)

definition demo_etcd :: "(task_row list, InMemQueue, unit, (string \<times> string) list) Scheduler" where
  "demo_etcd = NewScheduler (NewTaskStore mem_pg)
     (snd (TaskStore_Create mem_pg [] (demo_task ''a''))) Second 4 None ()
     (Some InMemTaskQueue) (NewInMemQueue 10) (Some mem_etcd) [] 7 ''0123456789'' 3"


lemma dispatch_unclaimed:
  assumes "ClaimTask s (tTaskUID t) = (r, s')" and "r \<noteq> Inr True"
  shows "dispatch sorting now s t = s'"
  using assms by (cases r) (auto simp: dispatch_def)

lemma dispatch_etcd:
  assumes "ClaimTask s (tTaskUID t) = (r, s0)"
  shows "sEtcdState (dispatch sorting now s t) = sEtcdState s0"
proof -
  have f: "sEtcdState (dispatchLocal now s2 a) = sEtcdState s2"
    "sEtcdState (dispatchRemote now s2 a n) = sEtcdState s2" for s2 a n
    by (rule dispatchLocal_obs dispatchRemote_obs; simp)+
  show ?thesis
    by (auto simp: dispatch_def assms Let_def storeUpdate_def f split: sum.split prod.split option.split)
qed

text \<open>
  C36. A claim outlives the run it was made for: nothing in the program deletes the key, so once a
  task was claimed, a later dispatch of the same task (its retry, from the queue it was taken
  out of) is refused and changes neither store, queue, channels nor goroutines. The retry is
  lost: its row stays pending and no queue holds the task.
\<close>

theorem claim_drops_retry:
  assumes "etcd_txn_laws E owner" and "sEtcd s = Some E"
    and "ClaimTask s (tTaskUID t) = (Inr True, s0)"
    and "sEtcd s2 = Some E" and "sEtcdState s2 = sEtcdState (dispatch sorting now s t)"
    and "tTaskUID t' = tTaskUID t"
  shows "sDB (dispatch sorting now' s2 t') = sDB s2 \<and> sQ (dispatch sorting now' s2 t') = sQ s2 \<and>
     sNodeTasks (dispatch sorting now' s2 t') = sNodeTasks s2 \<and>
     sGoroutines (dispatch sorting now' s2 t') = sGoroutines s2"
proof -
  have "owner (sEtcdState s2) (claimKey (tTaskUID t')) \<noteq> None"
    using ClaimTask_laws(2) [OF assms(1-3)] dispatch_etcd [OF assms(3), of sorting now] assms(5,6) by simp
  moreover obtain r s' where c: "ClaimTask s2 (tTaskUID t') = (r, s')" by fastforce
  ultimately have "r \<noteq> Inr True" using ClaimTask_laws(2) [OF assms(1,4) c] by auto
  from dispatch_unclaimed [OF c this] ClaimTask_frame [OF c] show ?thesis by simp
qed

theorem claim_drops_retry_witness:
  "length (sGoroutines (dispatch sortSlice 9 demo_etcd (demo_task ''a''))) = 1 \<and>
   sDB (dispatch sortSlice 20 (dispatch sortSlice 9 demo_etcd (demo_task ''a'')) (demo_task ''a'')) =
     sDB (dispatch sortSlice 9 demo_etcd (demo_task ''a''))"
proof
  let ?s2 = "dispatch sortSlice 9 demo_etcd (demo_task ''a'')"
  show "length (sGoroutines ?s2) = 1" by code_simp
  obtain s0 where c: "ClaimTask demo_etcd (tTaskUID (demo_task ''a'')) = (Inr True, s0)"
    by (simp add: ClaimTask_def demo_etcd_def NewScheduler_def mem_etcd_def)
  have e: "sEtcd demo_etcd = Some mem_etcd" by (simp add: demo_etcd_def NewScheduler_def)
  then have "sEtcd ?s2 = Some mem_etcd" using dispatch_frame(1) [THEN sched_configD(6)] by metis
  from claim_drops_retry [OF mem_etcd_laws e c this refl refl, where now' = 20]
  show "sDB (dispatch sortSlice 20 ?s2 (demo_task ''a'')) = sDB ?s2" by blast
qed

section \<open>The channels of the nodes\<close>

definition chan :: "('db, 'q, 'r, 'e) Scheduler \<Rightarrow> string \<Rightarrow> Task list" where
  "chan s n = (case sNodeTasks s n of None \<Rightarrow> [] | Some ch \<Rightarrow> ch)"

text \<open>The task a remote dispatch writes and hands over.\<close>

definition started_on :: "Node \<Rightarrow> go_time \<Rightarrow> Task \<Rightarrow> Task" where
  "started_on n now t = t\<lparr>tStatus := TaskStatusRunning, tAssignedNodeID := nNodeID n,
     tStartedAt := Some now, tUpdatedAt := now\<rparr>"

text \<open>What a remote dispatch does after the update: the channel has room, or the task runs here.\<close>

lemma dispatchRemote_cases:
  obtains (none) "tStatus t = TaskStatusPending \<Longrightarrow> fst (storeUpdate now s (started_on n now t)) \<noteq> None"
      "chan (dispatchRemote now s t n) = chan s" "sGoroutines (dispatchRemote now s t n) = sGoroutines s"
    | (sent) t' s1 where "storeUpdate now s (started_on n now t) = (None, t', s1)"
      "length (chan s (nNodeID n)) < nodeQueueCap"
      "chan (dispatchRemote now s t n) = (chan s)(nNodeID n := chan s (nNodeID n) @ [t'])"
      "sGoroutines (dispatchRemote now s t n) = sGoroutines s" "tStatus t = TaskStatusPending"
    | (local) t' s1 where "storeUpdate now s (started_on n now t) = (None, t', s1)"
      "\<not> length (chan s (nNodeID n)) < nodeQueueCap" "chan (dispatchRemote now s t n) = chan s"
      "sGoroutines (dispatchRemote now s t n) = sGoroutines s @ [(sNextCtx s, t')]"
      "tStatus t = TaskStatusPending"
proof (cases "TransitionTo now t TaskStatusRunning")
  case (Inl e)
  then have "tStatus t \<noteq> TaskStatusPending" by (auto simp: TransitionTo_Inl lifecycle_from)
  with Inl show thesis by (intro none) (simp_all add: dispatchRemote_def)
next
  case (Inr t1)
  then have p: "tStatus t = TaskStatusPending" by (auto simp: TransitionTo_iff lifecycle_from)
  from Inr have t1: "t1\<lparr>tAssignedNodeID := nNodeID n, tStartedAt := Some now\<rparr> = started_on n now t"
    by (auto simp: TransitionTo_iff started_on_def)
  obtain r t2 s1 where u: "storeUpdate now s (started_on n now t) = (r, t2, s1)" by (metis prod.collapse)
  obtain db where s1: "s1 = s\<lparr>sDB := db\<rparr>" using u by (auto simp: storeUpdate_def split: prod.splits)
  show thesis
  proof (cases r)
    case (Some e)
    with Inr u s1 t1 show thesis by (intro none) (simp_all add: dispatchRemote_def chan_def fun_eq_iff)
  next
    case None
    note u = u [unfolded None]
    obtain ch s3 where g: "getOrCreateNodeQueue (registerCancel s1 (tTaskUID t2)) (nNodeID n) = (ch, s3)"
      by fastforce
    have ch: "ch = chan s (nNodeID n)" and c3: "chan s3 = chan s" and g3: "sGoroutines s3 = sGoroutines s"
      using g by (auto simp: getOrCreateNodeQueue_def registerCancel_def s1 chan_def fun_eq_iff
          split: option.splits if_splits)
    have d: "dispatchRemote now s t n = (if length ch < nodeQueueCap
        then s3\<lparr>sNodeTasks := (sNodeTasks s3)(nNodeID n \<mapsto> ch @ [t2])\<rparr> else spawnLocal s3 (sNextCtx s1) t2)"
      by (simp add: dispatchRemote_def Inr t1 u Let_def g)
    show thesis
    proof (cases "length ch < nodeQueueCap")
      case True
      have "chan (dispatchRemote now s t n) = (chan s)(nNodeID n := chan s (nNodeID n) @ [t2])"
      proof -
        have "chan (dispatchRemote now s t n) = (chan s3)(nNodeID n := ch @ [t2])"
          by (simp add: d True chan_def fun_eq_iff)
        then show ?thesis by (simp add: c3 ch)
      qed
      then show thesis by (intro sent [OF u]) (use True g3 d ch p in auto)
    next
      case False
      have "chan (dispatchRemote now s t n) = chan s"
        using c3 by (simp add: d False spawnLocal_def chan_def fun_eq_iff)
      then show thesis
        by (intro local [OF u]) (use False g3 d ch s1 p in \<open>auto simp: spawnLocal_def\<close>)
    qed
  qed
qed

text \<open>
  A remote dispatch hands the task over exactly once: when the task was pending and its
  update went through, the task as written (running, with node and start time) is either the new
  last element of the channel of its node, which had room, or, the channel being full, it runs in
  a new local goroutine; no other channel or goroutine changes. Otherwise it is handed to nobody.
\<close>

lemma dispatchRemote_once:
  "case storeUpdate now s (started_on n now t) of (e, t', s1) \<Rightarrow>
     if tStatus t = TaskStatusPending \<and> e = None
     then if length (chan s (nNodeID n)) < nodeQueueCap
          then chan (dispatchRemote now s t n) = (chan s)(nNodeID n := chan s (nNodeID n) @ [t']) \<and>
            sGoroutines (dispatchRemote now s t n) = sGoroutines s
          else chan (dispatchRemote now s t n) = chan s \<and>
            sGoroutines (dispatchRemote now s t n) = sGoroutines s @ [(sNextCtx s, t')]
     else chan (dispatchRemote now s t n) = chan s \<and>
       sGoroutines (dispatchRemote now s t n) = sGoroutines s"
  by (cases rule: dispatchRemote_cases [of t now s n]) (auto split: prod.splits)

text \<open>Offers to the channels and polls of the agents, in any order.\<close>

datatype chan_op = Offer go_time Task Node | Poll string

text \<open>The state after a run, the tasks the channels accepted and those the agents got, each with the
  node.\<close>

fun chan_run :: "('db, 'q, 'r, 'e) Scheduler \<Rightarrow> chan_op list \<Rightarrow>
    ('db, 'q, 'r, 'e) Scheduler \<times> (string \<times> Task) list \<times> (string \<times> Task) list" where
  "chan_run s [] = (s, [], [])"
| "chan_run s (Offer now t n # ops) =
     (let s1 = dispatchRemote now s t n; (s', acc, got) = chan_run s1 ops
      in (s', map (Pair (nNodeID n)) (drop (length (chan s (nNodeID n))) (chan s1 (nNodeID n))) @ acc, got))"
| "chan_run s (Poll nid # ops) =
     (case GetNextTaskForNode s nid of (r, s1) \<Rightarrow>
        let (s', acc, got) = chan_run s1 ops
        in (s', acc, (case r of None \<Rightarrow> [] | Some t \<Rightarrow> [(nid, t)]) @ got))"

definition of_node :: "string \<Rightarrow> (string \<times> Task) list \<Rightarrow> Task list" where
  "of_node n xs = map snd (filter (\<lambda>x. fst x = n) xs)"

lemma of_node_simps [simp]:
  "of_node n [] = []" "of_node n ((m, t) # xs) = (if m = n then t # of_node n xs else of_node n xs)"
  "of_node n (xs @ ys) = of_node n xs @ of_node n ys"
  "of_node n (map (Pair m) ts) = (if m = n then ts else [])"
  by (auto simp: of_node_def comp_def)

lemma chan_offer:
  "chan (dispatchRemote now s t n) m =
     chan s m @ of_node m (map (Pair (nNodeID n))
       (drop (length (chan s (nNodeID n))) (chan (dispatchRemote now s t n) (nNodeID n))))"
  "length (chan s m) \<le> nodeQueueCap \<Longrightarrow> length (chan (dispatchRemote now s t n) m) \<le> nodeQueueCap"
  by (cases rule: dispatchRemote_cases [of t now s n]; simp)+

lemma chan_poll:
  assumes "GetNextTaskForNode s n = (r, s1)"
  shows "chan s m = of_node m (case r of None \<Rightarrow> [] | Some t \<Rightarrow> [(n, t)]) @ chan s1 m"
  using assms by (auto simp: GetNextTaskForNode_def chan_def split: option.splits list.splits)

text \<open>
  C13. The channel of a node is a bounded FIFO queue: over any sequence of dispatches and polls, for
  every node the tasks it had and those accepted for it since, in order, are the tasks its agent
  got and those still in its channel, in order; so no task is lost, doubled, overtaken or given
  to another node, and no channel ever holds more than ten.
\<close>

theorem channels_fifo:
  assumes "chan_run s ops = (s', acc, got)" and "\<forall>n. length (chan s n) \<le> 10"
  shows "\<forall>n. chan s n @ of_node n acc = of_node n got @ chan s' n \<and> length (chan s' n) \<le> 10"
  using assms
proof (induction ops arbitrary: s acc got)
  case (Cons x ops)
  show ?case
  proof (cases x)
    case (Offer now t n)
    let ?s1 = "dispatchRemote now s t n"
    obtain s2 acc' got' where r: "chan_run ?s1 ops = (s2, acc', got')" by (metis prod.collapse)
    with Cons.prems(1) have acc: "acc = map (Pair (nNodeID n))
        (drop (length (chan s (nNodeID n))) (chan ?s1 (nNodeID n))) @ acc'" and "s2 = s'" "got' = got"
      by (simp_all add: Offer)
    have "\<forall>m. length (chan ?s1 m) \<le> 10"
      using chan_offer(2) [of s _ now t n] Cons.prems(2) by (simp add: nodeQueueCap_def)
    note IH = Cons.IH [OF r [unfolded \<open>s2 = s'\<close> \<open>got' = got\<close>] this]
    show ?thesis
    proof
      fix m
      have "chan s m @ of_node m acc = chan ?s1 m @ of_node m acc'"
        by (subst chan_offer(1) [of now s t n m]) (simp add: acc)
      with IH show "chan s m @ of_node m acc = of_node m got @ chan s' m \<and> length (chan s' m) \<le> 10"
        by simp
    qed
  next
    case (Poll n)
    obtain r s1 where g: "GetNextTaskForNode s n = (r, s1)" by fastforce
    obtain s2 acc' got' where c: "chan_run s1 ops = (s2, acc', got')" by (metis prod.collapse)
    with Cons.prems(1) g have got: "got = (case r of None \<Rightarrow> [] | Some t \<Rightarrow> [(n, t)]) @ got'"
      and "s2 = s'" "acc' = acc" by (simp_all add: Poll)
    note p = chan_poll [OF g]
    have "length (chan s1 m) \<le> 10" for m
      using Cons.prems(2) [rule_format, of m] unfolding p [of m] by simp
    then have "\<forall>m. length (chan s1 m) \<le> 10" by blast
    from Cons.IH [OF c [unfolded \<open>s2 = s'\<close> \<open>acc' = acc\<close>] this] p show ?thesis by (simp add: got)
  qed
qed simp

theorem channels_fifo_witness:
  "of_node ''n1'' (fst (snd (chan_run demo_sched
     [Offer 9 ((demo_task ''a'')\<lparr>tStatus := TaskStatusPending\<rparr>) (demo_node ''n1'' 8 0), Poll ''n1'', Poll ''n1'']))) =
   of_node ''n1'' (snd (snd (chan_run demo_sched
     [Offer 9 ((demo_task ''a'')\<lparr>tStatus := TaskStatusPending\<rparr>) (demo_node ''n1'' 8 0), Poll ''n1'', Poll ''n1'']))) \<and>
   map (tTaskUID \<circ> snd) (snd (snd (chan_run demo_sched
     [Offer 9 ((demo_task ''a'')\<lparr>tStatus := TaskStatusPending\<rparr>) (demo_node ''n1'' 8 0), Poll ''n1'', Poll ''n1'']))) = [''a'']"
proof
  let ?ops = "[Offer 9 ((demo_task ''a'')\<lparr>tStatus := TaskStatusPending\<rparr>) (demo_node ''n1'' 8 0), Poll ''n1'', Poll ''n1'']"
  show "map (tTaskUID \<circ> snd) (snd (snd (chan_run demo_sched ?ops))) = [''a'']" by code_simp
  obtain s' acc got where r: "chan_run demo_sched ?ops = (s', acc, got)" by (metis prod.collapse)
  have e: "chan demo_sched n = []" for n by (simp add: chan_def demo_sched_def NewScheduler_def)
  have "chan (fst (chan_run demo_sched ?ops)) ''n1'' = []" by code_simp
  then have "chan s' ''n1'' = []" unfolding r by simp
  with channels_fifo [OF r, THEN spec, of "''n1''"] e
  show "of_node ''n1'' (fst (snd (chan_run demo_sched ?ops))) = of_node ''n1'' (snd (snd (chan_run demo_sched ?ops)))"
    unfolding r by simp
qed

end
