(* ===== verification/Leader_Election.thy ===== *)
theory Leader_Election
  imports Scheduler_Dispatch
begin

text \<open>
  \<^verbatim>\<open>internal/election/election.go\<close> and the loops of the scheduler that depend on it (\<^verbatim>\<open>Start\<close>,
  \<^verbatim>\<open>runTickLoop\<close> in \<^verbatim>\<open>internal/scheduler/scheduler.go\<close>). etcd's election and session are outside:
  what they answer is a script or a nondeterministic step.

  The loops are functions of the events they receive, in order. The interleaving of a campaign
  with \<open>Resign\<close> and with the readers of the flag is a step relation, \<open>elect\<close>.
\<close>

section \<open>The election\<close>

text \<open>A \<^verbatim>\<open>Campaign\<close> ends because etcd refuses it, or, once it was won, because the session does.\<close>

datatype campaign_end = CampaignError error | SessionDone

record LeaderElection =
  leIsLeader :: bool

definition NewLeaderElection :: "error option \<Rightarrow> LeaderElection result" where
  "NewLeaderElection sessionErr = (case sessionErr of
     Some e \<Rightarrow> Inl (ErrWrap ''create session'' e)
   | None \<Rightarrow> Inr \<lparr>leIsLeader = False\<rparr>)"

text \<open>The value returned, and the flag at each moment it is stored, in order.\<close>

definition LeaderElection_Campaign :: "campaign_end \<Rightarrow> LeaderElection \<Rightarrow> error option \<times> LeaderElection list" where
  "LeaderElection_Campaign c le = (case c of
     CampaignError e \<Rightarrow> (Some (ErrWrap ''campaign'' e), [le\<lparr>leIsLeader := False\<rparr>])
   | SessionDone \<Rightarrow>
       (let won = le\<lparr>leIsLeader := True\<rparr>;
            lost = won\<lparr>leIsLeader := False\<rparr>
        in (Some (ErrOther ''session expired''), [won, lost])))"

definition IsLeader :: "LeaderElection \<Rightarrow> bool" where
  "IsLeader le = leIsLeader le"

definition LeaderElection_Resign :: "error option \<Rightarrow> LeaderElection \<Rightarrow> error option \<times> LeaderElection" where
  "LeaderElection_Resign etcdErr le = (case etcdErr of
     Some e \<Rightarrow> (Some (ErrWrap ''resign'' e), le)
   | None \<Rightarrow> (None, le\<lparr>leIsLeader := False\<rparr>))"

section \<open>The loops of the scheduler\<close>

text \<open>One turn of \<^verbatim>\<open>runTickLoop\<close>: the leader flag it reads (if there is an election) and the event its
  \<^verbatim>\<open>select\<close> takes.\<close>

datatype loop_event = CtxDone | TickAt go_time

type_synonym loop_script = "(bool \<times> loop_event) list"

text \<open>The number of ticks made and the state after the script, with fuel for each tick (\<open>None\<close> if
  one of them runs out); a panic ends the loop with the process.\<close>

fun tickTurns ::
    "nat \<Rightarrow> (Node list \<Rightarrow> Node list) \<Rightarrow> bool \<Rightarrow> loop_script \<Rightarrow> ('db, 'q, 'r, 'e) Scheduler \<Rightarrow>
     (nat \<times> ('db, 'q, 'r, 'e) Scheduler) option" where
  "tickTurns fuel sorting hasElection [] s = Some (0, s)"
| "tickTurns fuel sorting hasElection ((leader, ev) # script) s =
     (if hasElection \<and> \<not> leader \<or> sPanicked s then Some (0, s)
      else (case ev of
        CtxDone \<Rightarrow> Some (0, s)
      | TickAt now \<Rightarrow>
          (case tick fuel sorting now s of
             None \<Rightarrow> None
           | Some (s', ds, fs) \<Rightarrow>
               map_option (\<lambda>(n, s''). (n + 1, s'')) (tickTurns fuel sorting hasElection script s'))))"

text \<open>\<^verbatim>\<open>time.NewTicker\<close> panics for an interval that is not positive. The ticker keeps the interval it was made
  with, whatever the configuration says later.\<close>

definition runTickLoop ::
    "nat \<Rightarrow> (Node list \<Rightarrow> Node list) \<Rightarrow> bool \<Rightarrow> loop_script \<Rightarrow> ('db, 'q, 'r, 'e) Scheduler \<Rightarrow>
     (nat \<times> ('db, 'q, 'r, 'e) Scheduler) option" where
  "runTickLoop fuel sorting hasElection script s =
     (if sTickInterval s \<le> 0 then Some (0, s\<lparr>sPanicked := True\<rparr>)
      else tickTurns fuel sorting hasElection script s)"

text \<open>One turn of the election loop: the context is done, or a campaign ends as given, and then
  would come the tick loop with its script.\<close>

datatype election_event = ElectionCtxDone | Campaigned campaign_end loop_script

fun electionLoop ::
    "nat \<Rightarrow> (Node list \<Rightarrow> Node list) \<Rightarrow> LeaderElection \<Rightarrow> election_event list \<Rightarrow>
     ('db, 'q, 'r, 'e) Scheduler \<Rightarrow> (nat \<times> ('db, 'q, 'r, 'e) Scheduler) option" where
  "electionLoop fuel sorting le [] s = Some (0, s)"
| "electionLoop fuel sorting le (ElectionCtxDone # evs) s = Some (0, s)"
| "electionLoop fuel sorting le (Campaigned c ticks # evs) s =
     (case LeaderElection_Campaign c le of
        (Some e, les) \<Rightarrow> electionLoop fuel sorting (last les) evs s
      | (None, les) \<Rightarrow>
          (case runTickLoop fuel sorting True ticks s of
             None \<Rightarrow> None
           | Some (n, s') \<Rightarrow>
               map_option (\<lambda>(m, s''). (n + m, s'')) (electionLoop fuel sorting (last les) evs s')))"

definition Start ::
    "nat \<Rightarrow> (Node list \<Rightarrow> Node list) \<Rightarrow> LeaderElection option \<Rightarrow> loop_script \<Rightarrow> election_event list \<Rightarrow>
     ('db, 'q, 'r, 'e) Scheduler \<Rightarrow> (nat \<times> ('db, 'q, 'r, 'e) Scheduler) option" where
  "Start fuel sorting election ticks evs s =
     (case election of
        None \<Rightarrow> runTickLoop fuel sorting False ticks s
      | Some le \<Rightarrow> electionLoop fuel sorting le evs s)"

text \<open>A campaign never returns without an error.\<close>

lemma Campaign_error: "fst (LeaderElection_Campaign c le) \<noteq> None"
  by (simp add: LeaderElection_Campaign_def Let_def split: campaign_end.split)

lemma electionLoop_idle: "electionLoop fuel sorting le evs s = Some (0, s)"
proof (induction evs arbitrary: le)
  case (Cons ev evs)
  show ?case
  proof (cases ev)
    case (Campaigned c ticks)
    obtain e les where "LeaderElection_Campaign c le = (Some e, les)"
      using Campaign_error [of c le] by (cases "LeaderElection_Campaign c le") auto
    with Cons show ?thesis by (simp add: Campaigned)
  qed simp
qed simp

section \<open>Interleaving\<close>

text \<open>Where the election goroutine is, and the flag.\<close>

datatype elect_pc = AtTop | InCampaign | HoldsLease | BackingOff | InTickLoop | Ended

inductive elect :: "elect_pc \<times> LeaderElection \<Rightarrow> elect_pc \<times> LeaderElection \<Rightarrow> bool" where
  cancelled: "elect (AtTop, le) (Ended, le)"
| campaign: "elect (AtTop, le) (InCampaign, le)"
| refused: "LeaderElection_Campaign (CampaignError e) le = (Some err, les) \<Longrightarrow>
     elect (InCampaign, le) (BackingOff, last les)"
| won: "LeaderElection_Campaign SessionDone le = (r, [w, l]) \<Longrightarrow> elect (InCampaign, le) (HoldsLease, w)"
| expired: "LeaderElection_Campaign SessionDone le = (Some err, [w, l]) \<Longrightarrow>
     elect (HoldsLease, le) (BackingOff, l)"
| returned: "LeaderElection_Campaign c le = (None, les) \<Longrightarrow> elect (HoldsLease, le) (InTickLoop, last les)"
| backoff: "elect (BackingOff, le) (AtTop, le)"
| tick: "IsLeader le \<Longrightarrow> elect (InTickLoop, le) (InTickLoop, le)"
| lost: "\<not> IsLeader le \<Longrightarrow> elect (InTickLoop, le) (AtTop, le)"
| resign: "LeaderElection_Resign etcdErr le = (r, le') \<Longrightarrow> elect (pc, le) (pc, le')"

lemma elect_inv:
  assumes "elect\<^sup>*\<^sup>* (AtTop, \<lparr>leIsLeader = False\<rparr>) (pc, le)"
  shows "pc \<noteq> InTickLoop \<and> (IsLeader le \<longrightarrow> pc = HoldsLease)"
  using assms
proof (induction "(pc, le)" arbitrary: pc le rule: rtranclp_induct)
  case base
  then show ?case by (simp add: IsLeader_def)
next
  case (step y)
  obtain pc' le' where y: "y = (pc', le')" by (cases y)
  note IH = step(3) [OF y]
  from step(2) [unfolded y] show ?case
    using IH Campaign_error
    by cases (auto simp: IsLeader_def LeaderElection_Campaign_def LeaderElection_Resign_def Let_def
        split: option.splits campaign_end.splits)
qed

section \<open>Properties\<close>

text \<open>
  C34. With leader election configured the scheduler never schedules anything: whatever etcd
  answers, and however often the instance wins an election, \<open>Start\<close> makes no tick and leaves the
  state alone, for \<^verbatim>\<open>Campaign\<close> blocks until the session is over and then returns an error, which the
  loop takes for a lost election. Without election the same scheduler makes its ticks.
\<close>

theorem election_never_ticks:
  "Start fuel sorting (Some le) ticks evs s = Some (0, s)"
  by (simp add: Start_def electionLoop_idle)

text \<open>
  The flag is right at every moment of every interleaving with \<open>Resign\<close>: it is set only while
  the goroutine holds the lease, inside \<^verbatim>\<open>Campaign\<close>; and the place where ticks are made is never
  reached.
\<close>

lemma leader_only_with_lease:
  assumes "elect\<^sup>*\<^sup>* (AtTop, \<lparr>leIsLeader = False\<rparr>) (pc, le)"
  shows "(IsLeader le \<longrightarrow> pc = HoldsLease) \<and> pc \<noteq> InTickLoop"
  using elect_inv [OF assms] by blast

lemma leader_only_with_lease_witness:
  "\<exists>pc le. elect\<^sup>*\<^sup>* (AtTop, \<lparr>leIsLeader = False\<rparr>) (pc, le) \<and> IsLeader le \<and> pc = HoldsLease"
proof -
  let ?w = "\<lparr>leIsLeader = True\<rparr>"
  have "elect (AtTop, \<lparr>leIsLeader = False\<rparr>) (InCampaign, \<lparr>leIsLeader = False\<rparr>)" by (rule elect.campaign)
  moreover have "elect (InCampaign, \<lparr>leIsLeader = False\<rparr>) (HoldsLease, ?w)"
    by (rule elect.won) (simp add: LeaderElection_Campaign_def)
  ultimately have "elect\<^sup>*\<^sup>* (AtTop, \<lparr>leIsLeader = False\<rparr>) (HoldsLease, ?w)" using converse_rtranclp_into_rtranclp r_into_rtranclp by metis
  with leader_only_with_lease [OF this] show ?thesis by (intro exI [of _ HoldsLease] exI [of _ ?w])
      (simp add: IsLeader_def)
qed

end
