(* ===== verification/Node_Store.thy ===== *)
theory Node_Store
  imports Node_Model Task_Store
begin

text \<open>
  \<^verbatim>\<open>internal/store/node_store.go\<close> and the interface \<^verbatim>\<open>nodeStore\<close> of the node manager. As in
  \<open>Task_Store\<close>, the SQL statements are a record \<open>node_pg\<close>, what SQL promises of them is the locale
  \<open>node_db\<close>, what the manager relies on is the locale \<open>node_store\<close> over a finite map from node
  identifiers to nodes, and \<open>mem_npg\<close> is a database in memory.

  A slice of labels that is \<^verbatim>\<open>nil\<close> and one that is empty are both the empty list: the first is
  written as \<^verbatim>\<open>NULL\<close>, the second as an empty array, and \<open>scanNode\<close> reads both as an empty slice.
\<close>

section \<open>Rows and statements\<close>

record node_row =
  w_id :: int
  w_node_id :: string
  w_hostname :: string
  w_ip :: string
  w_version :: string
  w_status :: string
  w_total_cpu :: int
  w_total_memory_mb :: int
  w_total_disk_mb :: int
  w_cpu_usage_percent :: rat
  w_memory_used_mb :: int
  w_disk_used_mb :: int
  w_load_avg_1m :: rat
  w_running_tasks :: int
  w_labels :: "string list option"
  w_last_heartbeat_at :: "go_time option"
  w_registered_at :: go_time
  w_created_at :: go_time
  w_updated_at :: go_time

text \<open>The resource columns of a heartbeat.\<close>

record node_load =
  lCPUPct :: rat
  lMemUsedMB :: int
  lDiskUsedMB :: int
  lLoadAvg :: rat
  lRunningTasks :: int

record 'db node_pg =
  np_insert :: "'db \<Rightarrow> node_row \<Rightarrow> int result \<times> 'db"
  np_update :: "'db \<Rightarrow> node_row \<Rightarrow> error option \<times> 'db"
  np_heartbeat :: "'db \<Rightarrow> string \<Rightarrow> node_load \<Rightarrow> go_time \<Rightarrow> error option \<times> 'db"
  np_by_id :: "'db \<Rightarrow> int \<Rightarrow> node_row result"
  np_by_node_id :: "'db \<Rightarrow> string \<Rightarrow> node_row result"
  np_list :: "'db \<Rightarrow> string option \<Rightarrow> node_row list result"

definition NodeStatus_of_string :: "string \<Rightarrow> NodeStatus" where
  "NodeStatus_of_string s =
     (if s = ''online'' then NodeStatusOnline
      else if s = ''offline'' then NodeStatusOffline
      else if s = ''drain'' then NodeStatusDrain
      else if s = ''cordon'' then NodeStatusCordon
      else NodeStatusOther s)"

definition canon_node_status :: "NodeStatus \<Rightarrow> NodeStatus" where
  "canon_node_status s = NodeStatus_of_string (NodeStatus_String s)"

lemma canon_node_status_simps [simp]:
  "canon_node_status NodeStatusOnline = NodeStatusOnline"
  "canon_node_status NodeStatusOffline = NodeStatusOffline"
  "canon_node_status NodeStatusDrain = NodeStatusDrain"
  "canon_node_status NodeStatusCordon = NodeStatusCordon"
  by (simp_all add: canon_node_status_def NodeStatus_of_string_def)

lemma NodeStatus_String_of_string [simp]: "NodeStatus_String (NodeStatus_of_string s) = s"
  by (simp add: NodeStatus_of_string_def)

section \<open>The store\<close>

definition node_columns :: "Node \<Rightarrow> node_row" where
  "node_columns n = \<lparr>
     w_id = 0, w_node_id = nNodeID n, w_hostname = nHostname n, w_ip = nIP n,
     w_version = nVersion n, w_status = NodeStatus_String (nStatus n),
     w_total_cpu = nTotalCPU n, w_total_memory_mb = nTotalMemoryMB n,
     w_total_disk_mb = nTotalDiskMB n, w_cpu_usage_percent = nCPUUsagePct n,
     w_memory_used_mb = nMemoryUsedMB n, w_disk_used_mb = nDiskUsedMB n,
     w_load_avg_1m = nLoadAvg1m n, w_running_tasks = nRunningTasks n,
     w_labels = Some (nLabels n), w_last_heartbeat_at = None,
     w_registered_at = nRegisteredAt n, w_created_at = nCreatedAt n, w_updated_at = nUpdatedAt n\<rparr>"

definition NodeStore_Create :: "'db node_pg \<Rightarrow> 'db \<Rightarrow> Node \<Rightarrow> Node result \<times> 'db" where
  "NodeStore_Create pg db n =
     (case np_insert pg db (node_columns n) of
        (Inl e, db') \<Rightarrow> (Inl e, db')
      | (Inr i, db') \<Rightarrow> (Inr (n\<lparr>nID := i\<rparr>), db'))"

definition NodeStore_Update ::
    "'db node_pg \<Rightarrow> go_time \<Rightarrow> 'db \<Rightarrow> Node \<Rightarrow> error option \<times> Node \<times> 'db" where
  "NodeStore_Update pg now db n =
     (let n' = n\<lparr>nUpdatedAt := now\<rparr>;
          (err, db') = np_update pg db ((node_columns n')\<lparr>w_last_heartbeat_at := nLastHeartbeatAt n'\<rparr>)
      in (err, n', db'))"

definition scanNode :: "node_row \<Rightarrow> Node" where
  "scanNode r = \<lparr>
     nID = w_id r, nNodeID = w_node_id r, nHostname = w_hostname r, nIP = w_ip r,
     nVersion = w_version r, nStatus = NodeStatus_of_string (w_status r),
     nTotalCPU = w_total_cpu r, nTotalMemoryMB = w_total_memory_mb r,
     nTotalDiskMB = w_total_disk_mb r, nCPUUsagePct = w_cpu_usage_percent r,
     nMemoryUsedMB = w_memory_used_mb r, nDiskUsedMB = w_disk_used_mb r,
     nLoadAvg1m = w_load_avg_1m r, nRunningTasks = w_running_tasks r,
     nLabels = (case w_labels r of None \<Rightarrow> [] | Some ls \<Rightarrow> ls),
     nLastHeartbeatAt = w_last_heartbeat_at r, nRegisteredAt = w_registered_at r,
     nCreatedAt = w_created_at r, nUpdatedAt = w_updated_at r\<rparr>"

definition NodeStore_GetByID :: "'db node_pg \<Rightarrow> 'db \<Rightarrow> int \<Rightarrow> Node result" where
  "NodeStore_GetByID pg db i =
     (case np_by_id pg db i of Inl e \<Rightarrow> Inl e | Inr r \<Rightarrow> Inr (scanNode r))"

definition NodeStore_GetByNodeID :: "'db node_pg \<Rightarrow> 'db \<Rightarrow> string \<Rightarrow> Node result" where
  "NodeStore_GetByNodeID pg db u =
     (case np_by_node_id pg db u of Inl e \<Rightarrow> Inl e | Inr r \<Rightarrow> Inr (scanNode r))"

definition NodeStore_List :: "'db node_pg \<Rightarrow> 'db \<Rightarrow> string \<Rightarrow> Node list result" where
  "NodeStore_List pg db status =
     (case np_list pg db (if status = [] then None else Some status) of
        Inl e \<Rightarrow> Inl e
      | Inr rows \<Rightarrow> Inr (map scanNode rows))"

definition NodeStore_GetOnlineNodes :: "'db node_pg \<Rightarrow> 'db \<Rightarrow> Node list result" where
  "NodeStore_GetOnlineNodes pg db = NodeStore_List pg db (NodeStatus_String NodeStatusOnline)"

definition NodeStore_UpdateHeartbeat ::
    "'db node_pg \<Rightarrow> go_time \<Rightarrow> 'db \<Rightarrow> string \<Rightarrow> node_load \<Rightarrow> error option \<times> 'db" where
  "NodeStore_UpdateHeartbeat pg now db u l = np_heartbeat pg db u l now"

section \<open>The interface of the node manager\<close>

record 'db nodeStore =
  ns_Create :: "'db \<Rightarrow> Node \<Rightarrow> Node result \<times> 'db"
  ns_Update :: "go_time \<Rightarrow> 'db \<Rightarrow> Node \<Rightarrow> error option \<times> Node \<times> 'db"
  ns_GetByNodeID :: "'db \<Rightarrow> string \<Rightarrow> Node result"
  ns_List :: "'db \<Rightarrow> string \<Rightarrow> Node list result"
  ns_UpdateHeartbeat :: "go_time \<Rightarrow> 'db \<Rightarrow> string \<Rightarrow> node_load \<Rightarrow> error option \<times> 'db"

definition NewNodeStore :: "'db node_pg \<Rightarrow> 'db nodeStore" where
  "NewNodeStore pg = \<lparr>
     ns_Create = NodeStore_Create pg,
     ns_Update = NodeStore_Update pg,
     ns_GetByNodeID = NodeStore_GetByNodeID pg,
     ns_List = NodeStore_List pg,
     ns_UpdateHeartbeat = NodeStore_UpdateHeartbeat pg\<rparr>"

section \<open>What SQL promises\<close>

definition round_node :: "(go_time \<Rightarrow> go_time) \<Rightarrow> node_row \<Rightarrow> node_row" where
  "round_node f r = r\<lparr>w_last_heartbeat_at := map_option f (w_last_heartbeat_at r),
     w_registered_at := f (w_registered_at r), w_created_at := f (w_created_at r),
     w_updated_at := f (w_updated_at r)\<rparr>"

definition beat_row :: "(go_time \<Rightarrow> go_time) \<Rightarrow> node_load \<Rightarrow> go_time \<Rightarrow> node_row \<Rightarrow> node_row" where
  "beat_row f l now r = r\<lparr>w_cpu_usage_percent := lCPUPct l, w_memory_used_mb := lMemUsedMB l,
     w_disk_used_mb := lDiskUsedMB l, w_load_avg_1m := lLoadAvg l,
     w_running_tasks := lRunningTasks l, w_last_heartbeat_at := Some (f now), w_updated_at := f now\<rparr>"

locale node_db =
  fixes pg :: "'db node_pg"
    and rows :: "'db \<Rightarrow> string \<rightharpoonup> node_row"
    and pgts :: "go_time \<Rightarrow> go_time"
  assumes rows_key: "rows db u = Some r \<Longrightarrow> w_node_id r = u"
    and insert_ok: "np_insert pg db r = (Inr i, db') \<Longrightarrow> rows db (w_node_id r) = None \<and>
      rows db' = (rows db)(w_node_id r \<mapsto> round_node pgts (r\<lparr>w_id := i\<rparr>))"
    and insert_err: "np_insert pg db r = (Inl e, db') \<Longrightarrow> rows db' = rows db"
    and update_ok: "np_update pg db r = (None, db') \<Longrightarrow> rows db' =
      (case rows db (w_node_id r) of
         None \<Rightarrow> rows db
       | Some old \<Rightarrow> (rows db)(w_node_id r \<mapsto> (round_node pgts r)\<lparr>w_id := w_id old,
           w_registered_at := w_registered_at old, w_created_at := w_created_at old\<rparr>))"
    and update_err: "np_update pg db r = (Some e, db') \<Longrightarrow> rows db' = rows db"
    and heartbeat_ok: "np_heartbeat pg db u l now = (None, db') \<Longrightarrow>
      rows db' = (rows db)(u := map_option (beat_row pgts l now) (rows db u))"
    and heartbeat_err: "np_heartbeat pg db u l now = (Some e, db') \<Longrightarrow> rows db' = rows db"
    and by_node_id_ok: "np_by_node_id pg db u = Inr r \<Longrightarrow> rows db u = Some r"
    and list_ok: "np_list pg db st = Inr rs \<Longrightarrow> distinct (map w_node_id rs) \<and>
      sorted_wrt (\<lambda>a b. w_registered_at b \<le> w_registered_at a) rs \<and>
      (\<forall>r. r \<in> set rs \<longleftrightarrow> rows db (w_node_id r) = Some r \<and> (st = None \<or> st = Some (w_status r)))"

section \<open>What the manager relies on\<close>

definition stored_node :: "(go_time \<Rightarrow> go_time) \<Rightarrow> Node \<Rightarrow> Node \<Rightarrow> Node" where
  "stored_node f old n = n\<lparr>
     nID := nID old, nStatus := canon_node_status (nStatus n),
     nLastHeartbeatAt := map_option f (nLastHeartbeatAt n),
     nRegisteredAt := nRegisteredAt old, nCreatedAt := nCreatedAt old, nUpdatedAt := f (nUpdatedAt n)\<rparr>"

definition created_node :: "(go_time \<Rightarrow> go_time) \<Rightarrow> Node \<Rightarrow> Node" where
  "created_node f n = n\<lparr>
     nStatus := canon_node_status (nStatus n), nLastHeartbeatAt := None,
     nRegisteredAt := f (nRegisteredAt n), nCreatedAt := f (nCreatedAt n), nUpdatedAt := f (nUpdatedAt n)\<rparr>"

definition beat_node :: "(go_time \<Rightarrow> go_time) \<Rightarrow> node_load \<Rightarrow> go_time \<Rightarrow> Node \<Rightarrow> Node" where
  "beat_node f l now n = n\<lparr>nCPUUsagePct := lCPUPct l, nMemoryUsedMB := lMemUsedMB l,
     nDiskUsedMB := lDiskUsedMB l, nLoadAvg1m := lLoadAvg l, nRunningTasks := lRunningTasks l,
     nLastHeartbeatAt := Some (f now), nUpdatedAt := f now\<rparr>"

lemma stored_node_simps [simp]:
  "nNodeID (stored_node f old n) = nNodeID n"
  "nStatus (stored_node f old n) = canon_node_status (nStatus n)"
  "nLastHeartbeatAt (stored_node f old n) = map_option f (nLastHeartbeatAt n)"
  "nLabels (stored_node f old n) = nLabels n"
  by (simp_all add: stored_node_def)

lemma beat_node_simps [simp]:
  "nNodeID (beat_node f l now n) = nNodeID n"
  "nStatus (beat_node f l now n) = nStatus n"
  "nLastHeartbeatAt (beat_node f l now n) = Some (f now)"
  "nLabels (beat_node f l now n) = nLabels n"
  by (simp_all add: beat_node_def)

locale node_store =
  fixes S :: "'db nodeStore"
    and view :: "'db \<Rightarrow> string \<rightharpoonup> Node"
    and rnd :: "go_time \<Rightarrow> go_time"
  assumes view_id: "view db u = Some n \<Longrightarrow> nNodeID n = u"
    and create_ok: "ns_Create S db n = (Inr n', db') \<Longrightarrow> view db (nNodeID n) = None \<and>
      (\<exists>i. n' = n\<lparr>nID := i\<rparr>) \<and> view db' = (view db)(nNodeID n \<mapsto> created_node rnd n')"
    and create_err: "ns_Create S db n = (Inl e, db') \<Longrightarrow> view db' = view db"
    and update_node: "ns_Update S now db n = (r, n', db') \<Longrightarrow> n' = n\<lparr>nUpdatedAt := now\<rparr>"
    and update_ok: "ns_Update S now db n = (None, n', db') \<Longrightarrow> view db' =
      (case view db (nNodeID n) of
         None \<Rightarrow> view db
       | Some old \<Rightarrow> (view db)(nNodeID n \<mapsto> stored_node rnd old n'))"
    and update_err: "ns_Update S now db n = (Some e, n', db') \<Longrightarrow> view db' = view db"
    and heartbeat_ok: "ns_UpdateHeartbeat S now db u l = (None, db') \<Longrightarrow>
      view db' = (view db)(u := map_option (beat_node rnd l now) (view db u))"
    and heartbeat_err: "ns_UpdateHeartbeat S now db u l = (Some e, db') \<Longrightarrow> view db' = view db"
    and get_ok: "ns_GetByNodeID S db u = Inr n \<Longrightarrow> view db u = Some n"
    and list_ok: "ns_List S db st = Inr ns \<Longrightarrow> distinct (map nNodeID ns) \<and>
      (\<forall>n. n \<in> set ns \<longleftrightarrow> view db (nNodeID n) = Some n \<and> (st = [] \<or> NodeStatus_String (nStatus n) = st))"
begin

text \<open>No statement takes a row away.\<close>

lemma update_dom: "dom (view (snd (snd (ns_Update S now db n)))) = dom (view db)"
proof -
  obtain r n' db' where u: "ns_Update S now db n = (r, n', db')" by (metis prod.collapse)
  then show ?thesis
    using update_ok [of now db n n' db'] update_err [of now db n _ n' db']
    by (cases r) (auto split: option.splits)
qed

lemma update_other:
  "u \<noteq> nNodeID n \<Longrightarrow> view (snd (snd (ns_Update S now db n))) u = view db u"
proof -
  assume ne: "u \<noteq> nNodeID n"
  obtain r n' db' where u: "ns_Update S now db n = (r, n', db')" by (metis prod.collapse)
  then show ?thesis
    using ne update_ok [of now db n n' db'] update_err [of now db n _ n' db']
    by (cases r) (auto split: option.splits)
qed

lemma update_at:
  "view (snd (snd (ns_Update S now db n))) (nNodeID n) =
     (if fst (ns_Update S now db n) = None
      then map_option (\<lambda>old. stored_node rnd old (n\<lparr>nUpdatedAt := now\<rparr>)) (view db (nNodeID n))
      else view db (nNodeID n))"
proof -
  obtain r n' db' where u: "ns_Update S now db n = (r, n', db')" by (metis prod.collapse)
  then show ?thesis
    using update_ok [of now db n n' db'] update_err [of now db n _ n' db'] update_node [OF u]
    by (cases r) (auto split: option.splits)
qed

lemma heartbeat_at:
  "view (snd (ns_UpdateHeartbeat S now db u l)) w =
     (if w = u \<and> fst (ns_UpdateHeartbeat S now db u l) = None
      then map_option (beat_node rnd l now) (view db u) else view db w)"
proof -
  obtain r db' where u: "ns_UpdateHeartbeat S now db u l = (r, db')" by fastforce
  then show ?thesis
    using heartbeat_ok [of now db u l db'] heartbeat_err [of now db u l _ db'] by (cases r) auto
qed

lemma heartbeat_dom: "dom (view (snd (ns_UpdateHeartbeat S now db u l))) = dom (view db)"
proof -
  obtain r db' where u: "ns_UpdateHeartbeat S now db u l = (r, db')" by fastforce
  then show ?thesis
    using heartbeat_ok [of now db u l db'] heartbeat_err [of now db u l _ db']
    by (cases r) (auto simp: dom_def)
qed

end

context node_db
begin

definition node_view :: "'db \<Rightarrow> string \<rightharpoonup> Node" where
  "node_view db u = map_option scanNode (rows db u)"

lemma node_view_upd:
  "rows db' = (rows db)(u \<mapsto> r) \<Longrightarrow> node_view db' = (node_view db)(u \<mapsto> scanNode r)"
  by (auto simp: node_view_def)

lemma scan_node_id [simp]: "nNodeID (scanNode r) = w_node_id r"
  by (simp add: scanNode_def)

lemma scan_created:
  "scanNode (round_node pgts ((node_columns n)\<lparr>w_id := i\<rparr>)) = created_node pgts (n\<lparr>nID := i\<rparr>)"
  by (simp add: scanNode_def round_node_def node_columns_def created_node_def canon_node_status_def)

lemma scan_stored:
  "scanNode ((round_node pgts ((node_columns n)\<lparr>w_last_heartbeat_at := nLastHeartbeatAt n\<rparr>))
      \<lparr>w_id := w_id old, w_registered_at := w_registered_at old, w_created_at := w_created_at old\<rparr>)
    = stored_node pgts (scanNode old) n"
  by (simp add: scanNode_def round_node_def node_columns_def stored_node_def canon_node_status_def)

lemma scan_beat: "scanNode (beat_row pgts l now r) = beat_node pgts l now (scanNode r)"
  by (simp add: scanNode_def beat_row_def beat_node_def)

end

sublocale node_db \<subseteq> st: node_store "NewNodeStore pg" node_view pgts
proof (unfold_locales, goal_cases)
  case (1 db u n)
  then show ?case using rows_key by (auto simp: node_view_def)
next
  case (2 db n n' db')
  then obtain i where ins: "np_insert pg db (node_columns n) = (Inr i, db')" and n': "n' = n\<lparr>nID := i\<rparr>"
    by (auto simp: NewNodeStore_def NodeStore_Create_def split: prod.splits sum.splits)
  from insert_ok [OF ins] have "rows db (nNodeID n) = None"
    and "rows db' = (rows db)(nNodeID n \<mapsto> round_node pgts ((node_columns n)\<lparr>w_id := i\<rparr>))"
    by (simp_all add: node_columns_def)
  with node_view_upd n' show ?case by (auto simp: node_view_def [of db "nNodeID n"] scan_created)
next
  case (3 db n e db')
  then show ?case
    by (auto simp: NewNodeStore_def NodeStore_Create_def node_view_def insert_err
        split: prod.splits sum.splits)
next
  case (4 now db n r n' db')
  then show ?case
    by (auto simp: NewNodeStore_def NodeStore_Update_def Let_def split: prod.splits)
next
  case (5 now db n n' db')
  then have n': "n' = n\<lparr>nUpdatedAt := now\<rparr>"
    and upd: "np_update pg db ((node_columns n')\<lparr>w_last_heartbeat_at := nLastHeartbeatAt n'\<rparr>) = (None, db')"
    by (auto simp: NewNodeStore_def NodeStore_Update_def Let_def split: prod.splits)
  have key: "w_node_id ((node_columns n')\<lparr>w_last_heartbeat_at := nLastHeartbeatAt n'\<rparr>) = nNodeID n"
    by (simp add: node_columns_def n')
  note ok = update_ok [OF upd, unfolded key]
  show ?case
  proof (cases "rows db (nNodeID n)")
    case None
    with ok have "rows db' = rows db" by simp
    with None show ?thesis by (simp add: node_view_def fun_eq_iff)
  next
    case (Some old)
    with ok have "rows db' = (rows db)(nNodeID n \<mapsto>
        (round_node pgts ((node_columns n')\<lparr>w_last_heartbeat_at := nLastHeartbeatAt n'\<rparr>))
          \<lparr>w_id := w_id old, w_registered_at := w_registered_at old, w_created_at := w_created_at old\<rparr>)"
      by simp
    from node_view_upd [OF this, unfolded scan_stored] Some show ?thesis
      by (simp add: node_view_def [of db "nNodeID n"])
  qed
next
  case (6 now db n e n' db')
  then show ?case
    by (auto simp: NewNodeStore_def NodeStore_Update_def Let_def node_view_def update_err
        split: prod.splits)
next
  case (7 now db u l db')
  then have "np_heartbeat pg db u l now = (None, db')"
    by (simp add: NewNodeStore_def NodeStore_UpdateHeartbeat_def)
  from heartbeat_ok [OF this] show ?case
    by (auto simp: node_view_def fun_eq_iff option.map_comp comp_def scan_beat)
next
  case (8 now db u l e db')
  then have "np_heartbeat pg db u l now = (Some e, db')"
    by (simp add: NewNodeStore_def NodeStore_UpdateHeartbeat_def)
  from heartbeat_err [OF this] show ?case by (simp add: node_view_def fun_eq_iff)
next
  case (9 db u n)
  then show ?case
    by (auto simp: NewNodeStore_def NodeStore_GetByNodeID_def node_view_def dest: by_node_id_ok
        split: sum.splits)
next
  case (10 db st ns)
  then obtain rs where rs: "np_list pg db (if st = [] then None else Some st) = Inr rs"
    and ns: "ns = map scanNode rs"
    by (auto simp: NewNodeStore_def NodeStore_List_def split: sum.splits)
  note ok = list_ok [OF rs]
  have status: "NodeStatus_String (nStatus (scanNode r)) = w_status r" for r
    by (simp add: scanNode_def)
  have "distinct (map nNodeID ns)" using ok by (simp add: ns comp_def)
  moreover have "n \<in> set ns \<longleftrightarrow> node_view db (nNodeID n) = Some n \<and>
      (st = [] \<or> NodeStatus_String (nStatus n) = st)" for n
  proof
    assume "n \<in> set ns"
    then obtain r where "r \<in> set rs" "n = scanNode r" by (auto simp: ns)
    with ok show "node_view db (nNodeID n) = Some n \<and> (st = [] \<or> NodeStatus_String (nStatus n) = st)"
      by (auto simp: node_view_def status split: if_splits)
  next
    assume A: "node_view db (nNodeID n) = Some n \<and> (st = [] \<or> NodeStatus_String (nStatus n) = st)"
    then obtain r where r: "rows db (nNodeID n) = Some r" "n = scanNode r"
      by (auto simp: node_view_def)
    have key: "w_node_id r = nNodeID n" by (rule rows_key [OF r(1)])
    have "st = [] \<or> w_status r = st" using A r(2) by (simp add: status)
    with key r(1) have "rows db (w_node_id r) = Some r \<and>
        ((if st = [] then None else Some st) = None \<or> (if st = [] then None else Some st) = Some (w_status r))"
      by auto
    then have "r \<in> set rs" by (simp only: ok)
    then show "n \<in> set ns" by (simp add: ns r(2))
  qed
  ultimately show ?case by blast
qed

section \<open>A database in memory\<close>

text \<open>The table is the list of its rows in the order of their insertion, with distinct node
  identifiers; no statement fails but for the unique constraint and for a missing row.\<close>

fun find_node :: "node_row list \<Rightarrow> string \<Rightarrow> node_row option" where
  "find_node [] u = None"
| "find_node (r # rs) u = (if w_node_id r = u then Some r else find_node rs u)"

fun change_node :: "(node_row \<Rightarrow> node_row) \<Rightarrow> string \<Rightarrow> node_row list \<Rightarrow> node_row list" where
  "change_node f u [] = []"
| "change_node f u (r # rs) = (if w_node_id r = u then f r # rs else r # change_node f u rs)"

fun first_nodes :: "node_row list \<Rightarrow> node_row list" where
  "first_nodes [] = []"
| "first_nodes (r # rs) = r # filter (\<lambda>x. w_node_id x \<noteq> w_node_id r) (first_nodes rs)"

definition mem_npg :: "node_row list node_pg" where
  "mem_npg = \<lparr>
     np_insert = (\<lambda>db r. if find_node db (w_node_id r) = None
        then (Inr (int (length db) + 1), db @ [r\<lparr>w_id := int (length db) + 1\<rparr>])
        else (Inl (ErrOther ''duplicate key''), db)),
     np_update = (\<lambda>db r. (None, change_node (\<lambda>old. r\<lparr>w_id := w_id old,
        w_registered_at := w_registered_at old, w_created_at := w_created_at old\<rparr>) (w_node_id r) db)),
     np_heartbeat = (\<lambda>db u l now. (None, change_node (beat_row (\<lambda>t. t) l now) u db)),
     np_by_id = (\<lambda>db i. case filter (\<lambda>r. w_id r = i) db of [] \<Rightarrow> Inl ErrNoRows | r # rs \<Rightarrow> Inr r),
     np_by_node_id = (\<lambda>db u. case find_node db u of None \<Rightarrow> Inl ErrNoRows | Some r \<Rightarrow> Inr r),
     np_list = (\<lambda>db st. Inr (sort_key (\<lambda>r. - w_registered_at r)
        (filter (\<lambda>r. st = None \<or> st = Some (w_status r)) (first_nodes db))))\<rparr>"

lemma find_node_id: "find_node db u = Some r \<Longrightarrow> w_node_id r = u"
  by (induction db) (auto split: if_splits)

lemma find_node_append: "find_node (xs @ ys) u =
    (case find_node xs u of None \<Rightarrow> find_node ys u | Some r \<Rightarrow> Some r)"
  by (induction xs) auto

lemma find_node_change:
  "(\<And>r. w_node_id (f r) = w_node_id r \<or> w_node_id r \<noteq> u) \<Longrightarrow>
   find_node (change_node f u db) = (find_node db)(u := map_option f (find_node db u))"
  by (induction db) (auto simp: fun_eq_iff)

lemma set_first_nodes: "r \<in> set (first_nodes db) \<longleftrightarrow> find_node db (w_node_id r) = Some r"
  by (induction db) auto

lemma distinct_first_nodes: "distinct (map w_node_id (first_nodes db))"
  by (induction db) (auto intro: distinct_map_filter)

lemma round_node_id [simp]: "round_node (\<lambda>t. t) r = r"
  by (simp add: round_node_def option.map_ident)

interpretation nmem: node_db mem_npg find_node "\<lambda>t. t"
proof (unfold_locales, goal_cases)
  case (1 db u r)
  then show ?case by (rule find_node_id)
next
  case (2 db r i db')
  then show ?case
    by (auto simp: mem_npg_def find_node_append fun_eq_iff split: if_splits option.splits)
next
  case (3 db r e db')
  then show ?case by (auto simp: mem_npg_def split: if_splits)
next
  case (4 db r db')
  let ?f = "\<lambda>old. r\<lparr>w_id := w_id old, w_registered_at := w_registered_at old, w_created_at := w_created_at old\<rparr>"
  from 4 have db': "db' = change_node ?f (w_node_id r) db" by (simp add: mem_npg_def)
  have "find_node db' = (find_node db)(w_node_id r := map_option ?f (find_node db (w_node_id r)))"
    unfolding db' by (rule find_node_change) auto
  then show ?case by (auto simp: fun_eq_iff split: option.split)
next
  case (5 db r e db')
  then show ?case by (simp add: mem_npg_def)
next
  case (6 db u l now db')
  then have db': "db' = change_node (beat_row (\<lambda>t. t) l now) u db" by (simp add: mem_npg_def)
  show ?case unfolding db' by (rule find_node_change) (simp add: beat_row_def)
next
  case (7 db u l now e db')
  then show ?case by (simp add: mem_npg_def)
next
  case (8 db u r)
  then show ?case by (auto simp: mem_npg_def split: option.splits)
next
  case (9 db st rs)
  then have rs: "rs = sort_key (\<lambda>r. - w_registered_at r)
      (filter (\<lambda>r. st = None \<or> st = Some (w_status r)) (first_nodes db))"
    by (simp add: mem_npg_def)
  have "distinct (map w_node_id rs)"
    using distinct_first_nodes [of db]
    by (simp add: rs distinct_map distinct_sort inj_on_def)
  moreover have "sorted_wrt (\<lambda>a b. w_registered_at b \<le> w_registered_at a) rs"
    using sorted_sort_key [of "\<lambda>r. - w_registered_at r"] unfolding rs sorted_map
    by (rule sorted_wrt_mono_rel [rotated]) auto
  moreover have "r \<in> set rs \<longleftrightarrow> find_node db (w_node_id r) = Some r \<and> (st = None \<or> st = Some (w_status r))" for r
    by (auto simp: rs set_first_nodes)
  ultimately show ?case by blast
qed

end
