(* ===== verification/Node_Manager.thy ===== *)
theory Node_Manager
  imports Node_Store "HOL-Library.AList"
begin

text \<open>
  \<^verbatim>\<open>internal/nodemanager/manager.go\<close>: the cache of online nodes over the node store, with
  registration, heartbeats, the two ways a node is found to be offline (the periodic check, and
  the watch on its etcd key), the selection by labels and the drain operations.

  The map \<^verbatim>\<open>onlineNodes\<close> is an association list with distinct keys, whose order stands for the
  order of a \<^verbatim>\<open>range\<close> loop. The clients of the cache only read the nodes it hands out, so a
  cached pointer is the node it points to. etcd is the record \<open>etcd_nodes\<close> of its methods over a
  state of its own. Every operation is one step, with one reading of the clock.
\<close>

section \<open>Requests, etcd, state\<close>

record RegisterRequest =
  rqHostname :: string
  rqIp :: string
  rqVersion :: string
  rqTotalCpu :: int
  rqTotalMemoryMb :: int
  rqTotalDiskMb :: int
  rqLabels :: "string list"

record HeartbeatRequest =
  hbNodeId :: string
  hbVersion :: string
  hbResources :: "node_load option"

record 'e etcd_nodes =
  en_Grant :: "'e \<Rightarrow> int \<Rightarrow> int result \<times> 'e"
  en_Put :: "'e \<Rightarrow> string \<Rightarrow> Node json \<Rightarrow> int \<Rightarrow> error option \<times> 'e"
  en_KeepAliveOnce :: "'e \<Rightarrow> int \<Rightarrow> error option \<times> 'e"

datatype etcd_event = EventPut string | EventDelete string

record ('db, 'e) NodeManager =
  mStore :: "'db nodeStore"
  mDB :: 'db
  mEtcd :: "'e etcd_nodes option"
  mEtcdState :: 'e
  mOnlineNodes :: "(string \<times> Node) list"
  mWatchers :: "string \<rightharpoonup> int"
  mOfflineAfter :: duration

definition NewNodeManager ::
    "'db nodeStore \<Rightarrow> 'db \<Rightarrow> 'e etcd_nodes option \<Rightarrow> 'e \<Rightarrow> ('db, 'e) NodeManager" where
  "NewNodeManager store db etcdClient st = \<lparr>
     mStore = store, mDB = db, mEtcd = etcdClient, mEtcdState = st, mOnlineNodes = [],
     mWatchers = Map.empty, mOfflineAfter = 30 * Second\<rparr>"

definition nodeKey :: "string \<Rightarrow> string" where
  "nodeKey nodeID = ''/nodes/'' @ nodeID @ ''/status''"

definition extractNodeID :: "string \<Rightarrow> string" where
  "extractNodeID key =
     (let trimmed = TrimPrefix key ''/nodes/''; parts = SplitN2 CHR ''/'' trimmed
      in if length parts > 0 \<and> parts ! 0 \<noteq> [] then parts ! 0 else [])"

section \<open>Registration and heartbeats\<close>

definition cache_put :: "string \<Rightarrow> Node \<Rightarrow> ('db, 'e) NodeManager \<Rightarrow> ('db, 'e) NodeManager" where
  "cache_put u n m = m\<lparr>mOnlineNodes := AList.update u n (mOnlineNodes m)\<rparr>"

definition Register ::
    "string \<Rightarrow> go_time \<Rightarrow> RegisterRequest \<Rightarrow> ('db, 'e) NodeManager \<Rightarrow> string result \<times> ('db, 'e) NodeManager" where
  "Register uuid now req m =
     (let node0 = NewNode uuid now (rqHostname req) (rqIp req) (rqVersion req)
            (rqTotalCpu req) (rqTotalMemoryMb req) (rqTotalDiskMb req) (rqLabels req) in
      case ns_Create (mStore m) (mDB m) node0 of
        (Inl e, db) \<Rightarrow> (Inl e, m\<lparr>mDB := db\<rparr>)
      | (Inr node, db) \<Rightarrow>
          (let m1 = m\<lparr>mDB := db\<rparr> in
           case mEtcd m1 of
             None \<Rightarrow> (Inr (nNodeID node), cache_put (nNodeID node) node m1)
           | Some E \<Rightarrow>
               (case en_Grant E (mEtcdState m1) 30 of
                  (Inl e, st) \<Rightarrow> (Inl (ErrWrap ''etcd lease grant'' e), m1\<lparr>mEtcdState := st\<rparr>)
                | (Inr lease, st) \<Rightarrow>
                    (case json_Marshal node of
                       Inl e \<Rightarrow> (Inl (ErrWrap ''marshal node'' e), m1\<lparr>mEtcdState := st\<rparr>)
                     | Inr nodeData \<Rightarrow>
                         (case en_Put E st (nodeKey (nNodeID node)) nodeData lease of
                            (Some e, st') \<Rightarrow> (Inl (ErrWrap ''etcd put'' e), m1\<lparr>mEtcdState := st'\<rparr>)
                          | (None, st') \<Rightarrow>
                              (Inr (nNodeID node), cache_put (nNodeID node) node
                                 (m1\<lparr>mEtcdState := st', mWatchers := (mWatchers m1)(nNodeID node \<mapsto> lease)\<rparr>)))))))"

definition pgHeartbeat ::
    "go_time \<Rightarrow> HeartbeatRequest \<Rightarrow> ('db, 'e) NodeManager \<Rightarrow> error option \<times> ('db, 'e) NodeManager" where
  "pgHeartbeat now req m =
     (case ns_UpdateHeartbeat (mStore m) now (mDB m) (hbNodeId req)
             (case hbResources req of
                Some r \<Rightarrow> r
              | None \<Rightarrow> \<lparr>lCPUPct = 0, lMemUsedMB = 0, lDiskUsedMB = 0, lLoadAvg = 0, lRunningTasks = 0\<rparr>) of
        (err, db) \<Rightarrow> (err, m\<lparr>mDB := db\<rparr>))"

text \<open>The cached node after a heartbeat, and the lease of a node, granted anew where it is missing.\<close>

definition heartbeat_node :: "go_time \<Rightarrow> HeartbeatRequest \<Rightarrow> Node \<Rightarrow> Node" where
  "heartbeat_node now req node =
     (let node1 = (case hbResources req of
            None \<Rightarrow> node
          | Some r \<Rightarrow> node\<lparr>nCPUUsagePct := lCPUPct r, nMemoryUsedMB := lMemUsedMB r,
              nDiskUsedMB := lDiskUsedMB r, nLoadAvg1m := lLoadAvg r, nRunningTasks := lRunningTasks r\<rparr>)
      in node1\<lparr>nVersion := hbVersion req, nLastHeartbeatAt := Some now, nStatus := NodeStatusOnline\<rparr>)"

definition node_lease ::
    "'e etcd_nodes \<Rightarrow> string \<Rightarrow> ('db, 'e) NodeManager \<Rightarrow> int result \<times> ('db, 'e) NodeManager" where
  "node_lease E u m =
     (case mWatchers m u of
        Some lease \<Rightarrow> (Inr lease, m)
      | None \<Rightarrow>
          (case en_Grant E (mEtcdState m) 30 of
             (Inl e, st) \<Rightarrow> (Inl (ErrWrap ''etcd lease re-grant'' e), m\<lparr>mEtcdState := st\<rparr>)
           | (Inr lease, st) \<Rightarrow>
               (Inr lease, m\<lparr>mEtcdState := st, mWatchers := (mWatchers m)(u \<mapsto> lease)\<rparr>)))"

definition Heartbeat ::
    "go_time \<Rightarrow> HeartbeatRequest \<Rightarrow> ('db, 'e) NodeManager \<Rightarrow> error option \<times> ('db, 'e) NodeManager" where
  "Heartbeat now req m =
     (case map_of (mOnlineNodes m) (hbNodeId req) of
        Some node \<Rightarrow>
          (let m1 = cache_put (hbNodeId req) (heartbeat_node now req node) m in
           case mEtcd m1 of
             None \<Rightarrow> pgHeartbeat now req m1
           | Some E \<Rightarrow>
               (case node_lease E (hbNodeId req) m1 of
                  (Inl e, m2) \<Rightarrow> (Some e, m2)
                | (Inr leaseID, m2) \<Rightarrow>
                    (case en_KeepAliveOnce E (mEtcdState m2) leaseID of
                       (Some e, st) \<Rightarrow> pgHeartbeat now req (m2\<lparr>mEtcdState := st\<rparr>)
                     | (None, st) \<Rightarrow> (None, m2\<lparr>mEtcdState := st\<rparr>))))
      | None \<Rightarrow>
          (case ns_GetByNodeID (mStore m) (mDB m) (hbNodeId req) of
             Inl e \<Rightarrow> (Some e, m)
           | Inr node \<Rightarrow> pgHeartbeat now req (cache_put (hbNodeId req) node m)))"

section \<open>Offline nodes\<close>

definition stale :: "go_time \<Rightarrow> duration \<Rightarrow> Node \<Rightarrow> bool" where
  "stale now offlineAfter n =
     (case nLastHeartbeatAt n of None \<Rightarrow> False | Some t \<Rightarrow> now - t > offlineAfter)"

definition update_offline ::
    "go_time \<Rightarrow> Node \<Rightarrow> ('db, 'e) NodeManager \<Rightarrow> ('db, 'e) NodeManager" where
  "update_offline now node m =
     m\<lparr>mDB := snd (snd (ns_Update (mStore m) now (mDB m) (node\<lparr>nStatus := NodeStatusOffline\<rparr>)))\<rparr>"

definition markOffline :: "go_time \<Rightarrow> string \<Rightarrow> ('db, 'e) NodeManager \<Rightarrow> ('db, 'e) NodeManager" where
  "markOffline now nodeID m =
     (case map_of (mOnlineNodes m) nodeID of
        Some node \<Rightarrow>
          (update_offline now node m)\<lparr>mOnlineNodes := AList.delete nodeID (mOnlineNodes m),
             mWatchers := (mWatchers m)(nodeID := None)\<rparr>
      | None \<Rightarrow>
          (case ns_GetByNodeID (mStore m) (mDB m) nodeID of
             Inl e \<Rightarrow> m
           | Inr node \<Rightarrow> update_offline now node m))"

text \<open>The loop of \<^verbatim>\<open>checkOfflineNodes\<close> over the cache as it was at its start.\<close>

fun checkOffline :: "go_time \<Rightarrow> (string \<times> Node) list \<Rightarrow> ('db, 'e) NodeManager \<Rightarrow> ('db, 'e) NodeManager" where
  "checkOffline now [] m = m"
| "checkOffline now ((u, node) # rest) m =
     checkOffline now rest
       (if stale now (mOfflineAfter m) node
        then (update_offline now node m)\<lparr>mOnlineNodes := AList.delete u (mOnlineNodes m)\<rparr>
        else m)"

definition checkOfflineNodes :: "go_time \<Rightarrow> ('db, 'e) NodeManager \<Rightarrow> ('db, 'e) NodeManager" where
  "checkOfflineNodes now m = checkOffline now (mOnlineNodes m) m"

text \<open>The two loops, over the times of the ticks and over the events of the watch.\<close>

definition StartOfflineChecker :: "go_time list \<Rightarrow> ('db, 'e) NodeManager \<Rightarrow> ('db, 'e) NodeManager" where
  "StartOfflineChecker ticks m =
     (if mEtcd m \<noteq> None then m else fold checkOfflineNodes ticks m)"

definition watch_event :: "go_time \<times> etcd_event \<Rightarrow> ('db, 'e) NodeManager \<Rightarrow> ('db, 'e) NodeManager" where
  "watch_event ev m =
     (case ev of
        (now, EventPut key) \<Rightarrow> m
      | (now, EventDelete key) \<Rightarrow>
          (let nodeID = extractNodeID key in if nodeID \<noteq> [] then markOffline now nodeID m else m))"

definition StartNodeWatcher ::
    "(go_time \<times> etcd_event) list \<Rightarrow> ('db, 'e) NodeManager \<Rightarrow> ('db, 'e) NodeManager" where
  "StartNodeWatcher evs m = (if mEtcd m = None then m else fold watch_event evs m)"

section \<open>Selection\<close>

definition splitLabel :: "string \<Rightarrow> string list" where
  "splitLabel label = SplitN2 CHR ''='' label"

text \<open>The inner loop over the labels of a node, and the loop over the selector.\<close>

fun label_found :: "string \<Rightarrow> string \<Rightarrow> string list \<Rightarrow> bool" where
  "label_found k v [] = False"
| "label_found k v (label # labels) =
     (let parts = splitLabel label in
      if length parts = 2 \<and> parts ! 0 = k \<and> parts ! 1 = v then True
      else if label = v then True
      else label_found k v labels)"

fun selector_match :: "Node \<Rightarrow> string_map \<Rightarrow> bool" where
  "selector_match node [] = True"
| "selector_match node ((k, v) # rest) =
     (if HasLabel node (k @ ''='' @ v) \<or> HasLabel node v \<or> HasLabel node k then selector_match node rest
      else if label_found k v (nLabels node) then selector_match node rest
      else False)"

fun find_by_labels :: "(string \<times> Node) list \<Rightarrow> string_map \<Rightarrow> Node list \<Rightarrow> Node list" where
  "find_by_labels [] selector found = found"
| "find_by_labels ((u, node) # rest) selector found =
     (if \<not> IsSchedulable node then find_by_labels rest selector found
      else if selector_match node selector then find_by_labels rest selector (found @ [node])
      else find_by_labels rest selector found)"

definition FindByLabels :: "('db, 'e) NodeManager \<Rightarrow> string_map \<Rightarrow> Node list" where
  "FindByLabels m selector = find_by_labels (mOnlineNodes m) selector []"

definition GetOnlineNodes :: "('db, 'e) NodeManager \<Rightarrow> Node list" where
  "GetOnlineNodes m = filter IsSchedulable (map snd (mOnlineNodes m))"

definition ListNodes :: "('db, 'e) NodeManager \<Rightarrow> string \<Rightarrow> Node list result" where
  "ListNodes m status = ns_List (mStore m) (mDB m) status"

definition GetNode :: "('db, 'e) NodeManager \<Rightarrow> string \<Rightarrow> Node result" where
  "GetNode m nodeID = ns_GetByNodeID (mStore m) (mDB m) nodeID"

text \<open>\<^verbatim>\<open>DrainNode\<close> and \<^verbatim>\<open>UncordonNode\<close> are this operation with their status. The store stamps the
  node it is given, which is the cached one.\<close>

definition set_node_status ::
    "NodeStatus \<Rightarrow> go_time \<Rightarrow> string \<Rightarrow> ('db, 'e) NodeManager \<Rightarrow> error option \<times> ('db, 'e) NodeManager" where
  "set_node_status status now nodeID m =
     (case map_of (mOnlineNodes m) nodeID of
        Some node \<Rightarrow>
          (case ns_Update (mStore m) now (mDB m) (node\<lparr>nStatus := status\<rparr>) of
             (err, node', db) \<Rightarrow> (err, cache_put nodeID node' (m\<lparr>mDB := db\<rparr>)))
      | None \<Rightarrow>
          (case ns_GetByNodeID (mStore m) (mDB m) nodeID of
             Inl e \<Rightarrow> (Some e, m)
           | Inr node \<Rightarrow>
               (case ns_Update (mStore m) now (mDB m) (node\<lparr>nStatus := status\<rparr>) of
                  (err, node', db) \<Rightarrow> (err, m\<lparr>mDB := db\<rparr>))))"

definition DrainNode ::
    "go_time \<Rightarrow> string \<Rightarrow> ('db, 'e) NodeManager \<Rightarrow> error option \<times> ('db, 'e) NodeManager" where
  "DrainNode = set_node_status NodeStatusDrain"

definition UncordonNode ::
    "go_time \<Rightarrow> string \<Rightarrow> ('db, 'e) NodeManager \<Rightarrow> error option \<times> ('db, 'e) NodeManager" where
  "UncordonNode = set_node_status NodeStatusOnline"

section \<open>Selection by labels\<close>

lemma label_found_iff:
  "label_found k v ls \<longleftrightarrow> k @ ''='' @ v \<in> set ls \<and> CHR ''='' \<notin> set k \<or> v \<in> set ls"
proof (induction ls)
  case (Cons l ls)
  have "length (splitLabel l) = 2 \<and> splitLabel l ! 0 = k \<and> splitLabel l ! 1 = v \<longleftrightarrow> splitLabel l = [k, v]"
    by (auto simp: list_eq_iff_nth_eq less_Suc_eq numeral_2_eq_2)
  also have "\<dots> \<longleftrightarrow> l = k @ ''='' @ v \<and> CHR ''='' \<notin> set k"
    by (simp add: splitLabel_def SplitN2_two)
  finally show ?case using Cons.IH by (auto simp: Let_def)
qed simp

lemma selector_match_iff:
  "selector_match n sel \<longleftrightarrow>
     list_all (\<lambda>(k, v). set (nLabels n) \<inter> {k @ ''='' @ v, v, k} \<noteq> {}) sel"
proof (induction sel)
  case (Cons kv sel)
  then show ?case by (cases kv) (auto simp: label_found_iff)
qed simp

lemma find_by_labels_append:
  "find_by_labels xs sel found =
     found @ filter (\<lambda>n. IsSchedulable n \<and> selector_match n sel) (map snd xs)"
  by (induction xs sel found rule: find_by_labels.induct) simp_all

text \<open>
  C26. Selection by labels is its specification: \<open>FindByLabels\<close> returns, in the order of the cache,
  exactly the cached nodes that are online and have, for every entry \<open>k = v\<close> of the selector, one
  of the labels \<open>k=v\<close>, \<open>v\<close> or \<open>k\<close>. The second loop of the code, which splits every label, accepts
  nothing the first test does not.
\<close>

theorem FindByLabels_spec:
  "FindByLabels m sel = filter (\<lambda>n. nStatus n = NodeStatusOnline \<and>
      list_all (\<lambda>(k, v). set (nLabels n) \<inter> {k @ ''='' @ v, v, k} \<noteq> {}) sel) (map snd (mOnlineNodes m))"
  by (simp add: FindByLabels_def find_by_labels_append selector_match_iff IsSchedulable_def)

section \<open>The fields an operation changes\<close>

lemma cache_put_simps [simp]:
  "mStore (cache_put u n m) = mStore m" "mDB (cache_put u n m) = mDB m"
  "mEtcd (cache_put u n m) = mEtcd m" "mOfflineAfter (cache_put u n m) = mOfflineAfter m"
  "mOnlineNodes (cache_put u n m) = AList.update u n (mOnlineNodes m)"
  "mEtcdState (cache_put u n m) = mEtcdState m" "mWatchers (cache_put u n m) = mWatchers m"
  by (simp_all add: cache_put_def)

lemma update_offline_simps [simp]:
  "mStore (update_offline now n m) = mStore m" "mEtcd (update_offline now n m) = mEtcd m"
  "mOfflineAfter (update_offline now n m) = mOfflineAfter m"
  "mOnlineNodes (update_offline now n m) = mOnlineNodes m"
  "mWatchers (update_offline now n m) = mWatchers m"
  by (simp_all add: update_offline_def)

lemma checkOffline_simps [simp]:
  "mStore (checkOffline now xs m) = mStore m" "mEtcd (checkOffline now xs m) = mEtcd m"
  "mOfflineAfter (checkOffline now xs m) = mOfflineAfter m"
  by (induction now xs m rule: checkOffline.induct) simp_all

lemma checkOfflineNodes_simps [simp]:
  "mStore (checkOfflineNodes now m) = mStore m" "mEtcd (checkOfflineNodes now m) = mEtcd m"
  "mOfflineAfter (checkOfflineNodes now m) = mOfflineAfter m"
  by (simp_all add: checkOfflineNodes_def)

lemma pgHeartbeat_simps [simp]:
  "mStore (snd (pgHeartbeat now req m)) = mStore m" "mEtcd (snd (pgHeartbeat now req m)) = mEtcd m"
  "mOfflineAfter (snd (pgHeartbeat now req m)) = mOfflineAfter m"
  "mOnlineNodes (snd (pgHeartbeat now req m)) = mOnlineNodes m"
  by (simp_all add: pgHeartbeat_def split: prod.split)

lemma node_lease_simps:
  assumes "node_lease E u m = (r, m')"
  shows "mStore m' = mStore m" "mEtcd m' = mEtcd m" "mOfflineAfter m' = mOfflineAfter m"
    "mOnlineNodes m' = mOnlineNodes m" "mDB m' = mDB m"
  using assms by (auto simp: node_lease_def split: option.splits prod.splits sum.splits)

lemma heartbeat_node_simps [simp]:
  "nNodeID (heartbeat_node now req n) = nNodeID n"
  "nStatus (heartbeat_node now req n) = NodeStatusOnline"
  "nLastHeartbeatAt (heartbeat_node now req n) = Some now"
  "nLabels (heartbeat_node now req n) = nLabels n"
  by (simp_all add: heartbeat_node_def Let_def split: option.split)

lemma Heartbeat_offlineAfter: "mOfflineAfter (snd (Heartbeat now req m)) = mOfflineAfter m"
proof -
  have "mOfflineAfter m2 = mOfflineAfter (cache_put (hbNodeId req) n m)"
    if "node_lease E (hbNodeId req) (cache_put (hbNodeId req) n m) = (r, m2)" for E n r m2
    using node_lease_simps(3) [OF that] .
  then show ?thesis
    by (auto simp: Heartbeat_def Let_def split: option.split sum.split prod.split)
qed

lemma Heartbeat_cached:
  assumes "map_of (mOnlineNodes m) (hbNodeId req) = Some n"
  shows "map_of (mOnlineNodes (snd (Heartbeat now req m))) (hbNodeId req) = Some (heartbeat_node now req n)"
proof -
  have "mOnlineNodes m2 = mOnlineNodes (cache_put (hbNodeId req) (heartbeat_node now req n) m)"
    if "node_lease E (hbNodeId req) (cache_put (hbNodeId req) (heartbeat_node now req n) m) = (r, m2)"
    for E r m2
    using node_lease_simps(4) [OF that] .
  with assms show ?thesis
    by (auto simp: Heartbeat_def Let_def update_conv' split: option.split sum.split prod.split)
qed

section \<open>The offline check\<close>

lemma mOnlineNodes_checkOffline:
  "mOnlineNodes (checkOffline now xs m) =
     filter (\<lambda>p. fst p \<notin> {u. \<exists>n. (u, n) \<in> set xs \<and> stale now (mOfflineAfter m) n}) (mOnlineNodes m)"
  by (induction now xs m rule: checkOffline.induct)
    (auto simp: AList.delete_eq intro!: filter_cong)

lemma mOnlineNodes_checkOfflineNodes:
  assumes "wf_map (mOnlineNodes m)"
  shows "mOnlineNodes (checkOfflineNodes now m) =
    filter (\<lambda>(u, n). \<not> stale now (mOfflineAfter m) n) (mOnlineNodes m)"
  unfolding checkOfflineNodes_def mOnlineNodes_checkOffline
  using assms by (intro filter_cong) (auto simp: wf_map_def dest: eq_key_imp_eq_value)

section \<open>The cache\<close>

text \<open>The cache has one entry for a node, under the identifier of the node, and only nodes that have
  a row.\<close>

definition cache_ok :: "string set \<Rightarrow> (string \<times> Node) list \<Rightarrow> bool" where
  "cache_ok D cache \<longleftrightarrow> wf_map cache \<and> (\<forall>u n. map_of cache u = Some n \<longrightarrow> nNodeID n = u \<and> u \<in> D)"

lemma cache_ok_Nil [simp]: "cache_ok D []"
  by (simp add: cache_ok_def wf_map_def)

lemma cache_ok_update:
  "cache_ok D cache \<Longrightarrow> nNodeID n = u \<Longrightarrow> u \<in> D \<Longrightarrow> cache_ok D (AList.update u n cache)"
  by (auto simp: cache_ok_def wf_map_def distinct_update update_conv')

lemma cache_ok_delete: "cache_ok D cache \<Longrightarrow> cache_ok D (AList.delete u cache)"
  by (auto simp: cache_ok_def wf_map_def distinct_delete delete_conv' split: if_splits)

lemma cache_ok_mono: "cache_ok D cache \<Longrightarrow> D \<subseteq> D' \<Longrightarrow> cache_ok D' cache"
  by (auto simp: cache_ok_def)

lemma cache_ok_entry:
  "cache_ok D cache \<Longrightarrow> (u, n) \<in> set cache \<Longrightarrow> map_of cache u = Some n \<and> nNodeID n = u \<and> u \<in> D"
  by (auto simp: cache_ok_def wf_map_def)

lemma cache_ok_wf: "cache_ok D cache \<Longrightarrow> wf_map cache"
  by (simp add: cache_ok_def)

lemma cache_ok_id: "cache_ok D cache \<Longrightarrow> (u, n) \<in> set cache \<Longrightarrow> nNodeID n = u"
  by (drule (1) cache_ok_entry) simp

text \<open>The operations of the manager, with their clock readings.\<close>

datatype mgr_op =
    OpRegister string RegisterRequest
  | OpHeartbeat HeartbeatRequest
  | OpCheck
  | OpEvent etcd_event
  | OpDrain string
  | OpUncordon string

fun mgr_step :: "go_time \<times> mgr_op \<Rightarrow> ('db, 'e) NodeManager \<Rightarrow> ('db, 'e) NodeManager" where
  "mgr_step (now, OpRegister uuid req) m = snd (Register uuid now req m)"
| "mgr_step (now, OpHeartbeat req) m = snd (Heartbeat now req m)"
| "mgr_step (now, OpCheck) m = checkOfflineNodes now m"
| "mgr_step (now, OpEvent ev) m = watch_event (now, ev) m"
| "mgr_step (now, OpDrain u) m = snd (DrainNode now u m)"
| "mgr_step (now, OpUncordon u) m = snd (UncordonNode now u m)"

lemma Heartbeat_etcd [simp]: "mEtcd (snd (Heartbeat now req m)) = mEtcd m"
proof -
  have "mEtcd m2 = mEtcd (cache_put (hbNodeId req) n m)"
    if "node_lease E (hbNodeId req) (cache_put (hbNodeId req) n m) = (r, m2)" for E n r m2
    using node_lease_simps(2) [OF that] .
  then show ?thesis
    by (auto simp: Heartbeat_def Let_def split: option.split sum.split prod.split)
qed

lemma set_node_status_etcd [simp]: "mEtcd (snd (set_node_status st now u m)) = mEtcd m"
  by (auto simp: set_node_status_def split: option.split sum.split prod.split)

lemma mgr_step_etcd: "mEtcd (mgr_step op m) = mEtcd m"
  by (induction op m rule: mgr_step.induct)
    (auto simp: Register_def Let_def watch_event_def markOffline_def DrainNode_def UncordonNode_def
      cache_put_def split: option.split sum.split prod.split etcd_event.split)

context node_store
begin

definition mgr_ok :: "('db, 'e) NodeManager \<Rightarrow> bool" where
  "mgr_ok m \<longleftrightarrow> mStore m = S \<and> cache_ok (dom (view (mDB m))) (mOnlineNodes m)"

definition grows :: "('db, 'e) NodeManager \<Rightarrow> ('db, 'e) NodeManager \<Rightarrow> bool" where
  "grows m m' \<longleftrightarrow> mgr_ok m' \<and> dom (view (mDB m)) \<subseteq> dom (view (mDB m'))"

lemma update_offline_dom:
  "mStore m = S \<Longrightarrow> dom (view (mDB (update_offline now n m))) = dom (view (mDB m))"
  by (simp add: update_offline_def update_dom)

lemma checkOffline_ok:
  "mgr_ok m \<Longrightarrow> grows m (checkOffline now xs m)"
proof (induction now xs m rule: checkOffline.induct)
  case (2 now u node rest m)
  let ?m = "if stale now (mOfflineAfter m) node
        then (update_offline now node m)\<lparr>mOnlineNodes := AList.delete u (mOnlineNodes m)\<rparr> else m"
  have "mgr_ok ?m" "dom (view (mDB ?m)) = dom (view (mDB m))"
    using "2.prems" by (simp_all add: mgr_ok_def update_offline_dom cache_ok_delete)
  with "2.IH" show ?case by (simp add: grows_def)
qed (simp add: grows_def)

lemma pgHeartbeat_ok:
  assumes "mgr_ok m"
  shows "grows m (snd (pgHeartbeat now req m))"
proof -
  have "dom (view (mDB (snd (pgHeartbeat now req m)))) = dom (view (mDB m))"
    using assms by (simp add: pgHeartbeat_def mgr_ok_def split_beta heartbeat_dom)
  with assms show ?thesis by (simp add: grows_def mgr_ok_def)
qed

lemma cache_put_ok:
  "mgr_ok m \<Longrightarrow> nNodeID n = u \<Longrightarrow> u \<in> dom (view (mDB m)) \<Longrightarrow> mgr_ok (cache_put u n m)"
  by (simp add: mgr_ok_def cache_ok_update)

lemma Heartbeat_ok:
  assumes ok: "mgr_ok m"
  shows "grows m (snd (Heartbeat now req m))"
proof (cases "map_of (mOnlineNodes m) (hbNodeId req)")
  case None
  show ?thesis
  proof (cases "ns_GetByNodeID (mStore m) (mDB m) (hbNodeId req)")
    case (Inl e)
    with None ok show ?thesis by (simp add: Heartbeat_def grows_def)
  next
    case (Inr node)
    then have "view (mDB m) (hbNodeId req) = Some node" using ok get_ok by (simp add: mgr_ok_def)
    then have "mgr_ok (cache_put (hbNodeId req) node m)"
      using ok view_id by (intro cache_put_ok) auto
    from pgHeartbeat_ok [OF this] None Inr show ?thesis by (simp add: Heartbeat_def grows_def)
  qed
next
  case (Some node)
  define m1 where "m1 = cache_put (hbNodeId req) (heartbeat_node now req node) m"
  have m1: "mgr_ok m1" unfolding m1_def
    using ok Some by (intro cache_put_ok) (auto simp: mgr_ok_def cache_ok_def)
  have db: "mDB m1 = mDB m" by (simp add: m1_def)
  show ?thesis
  proof (cases "mEtcd m1")
    case None
    with Some pgHeartbeat_ok [OF m1] db show ?thesis
      by (simp add: Heartbeat_def m1_def [symmetric] grows_def)
  next
    case E: (Some E)
    obtain r m2 where l: "node_lease E (hbNodeId req) m1 = (r, m2)" by fastforce
    have m2: "mgr_ok m2" "mDB m2 = mDB m"
      using m1 db node_lease_simps [OF l] by (simp_all add: mgr_ok_def)
    have m3: "mgr_ok (m2\<lparr>mEtcdState := st\<rparr>)" for st using m2(1) by (simp add: mgr_ok_def)
    from pgHeartbeat_ok [OF m3] m3 m2 Some E l show ?thesis
      by (auto simp: Heartbeat_def m1_def [symmetric] grows_def split: sum.split prod.split option.split)
  qed
qed

lemma set_node_status_ok:
  assumes ok: "mgr_ok m"
  shows "grows m (snd (set_node_status st now u m))"
proof (cases "map_of (mOnlineNodes m) u")
  case None
  show ?thesis
  proof (cases "ns_GetByNodeID (mStore m) (mDB m) u")
    case (Inr node)
    have "dom (view (snd (snd (ns_Update S now (mDB m) (node\<lparr>nStatus := st\<rparr>))))) = dom (view (mDB m))"
      by (rule update_dom)
    with None Inr ok show ?thesis
      by (simp add: set_node_status_def grows_def mgr_ok_def split_beta)
  qed (use None ok in \<open>simp add: set_node_status_def grows_def\<close>)
next
  case (Some node)
  obtain err node' db where u: "ns_Update S now (mDB m) (node\<lparr>nStatus := st\<rparr>) = (err, node', db)"
    by (metis prod.collapse)
  have dom: "dom (view db) = dom (view (mDB m))" using update_dom [of now "mDB m" "node\<lparr>nStatus := st\<rparr>"] u by simp
  have "nNodeID node' = u" "u \<in> dom (view (mDB m))"
    using update_node [OF u] ok Some by (auto simp: mgr_ok_def cache_ok_def)
  with ok dom have "mgr_ok (cache_put u node' (m\<lparr>mDB := db\<rparr>))"
    by (intro cache_put_ok) (auto simp: mgr_ok_def)
  with Some u ok dom show ?thesis by (simp add: set_node_status_def grows_def mgr_ok_def [of m])
qed

lemma markOffline_ok:
  assumes ok: "mgr_ok m"
  shows "grows m (markOffline now u m)"
  using ok
  by (auto simp: markOffline_def grows_def mgr_ok_def update_offline_dom cache_ok_delete
      split: option.split sum.split)

lemma Register_ok:
  assumes ok: "mgr_ok m"
  shows "grows m (snd (Register uuid now req m))"
proof -
  let ?n = "NewNode uuid now (rqHostname req) (rqIp req) (rqVersion req)
      (rqTotalCpu req) (rqTotalMemoryMb req) (rqTotalDiskMb req) (rqLabels req)"
  obtain r db where c: "ns_Create S (mDB m) ?n = (r, db)" by fastforce
  show ?thesis
  proof (cases r)
    case (Inl e)
    with c create_err have "view db = view (mDB m)" by blast
    with c Inl ok show ?thesis by (simp add: Register_def Let_def grows_def mgr_ok_def)
  next
    case (Inr node)
    have "view db = (view (mDB m))(nNodeID ?n \<mapsto> created_node rnd node)" "nNodeID node = nNodeID ?n"
      using create_ok [OF c [unfolded Inr]] by auto
    then have dom: "dom (view db) = insert (nNodeID node) (dom (view (mDB m)))" by auto
    with ok have ok1: "cache_ok (dom (view db)) (mOnlineNodes m)"
      "cache_ok (dom (view db)) (AList.update (nNodeID node) node (mOnlineNodes m))"
      by (auto simp: mgr_ok_def intro!: cache_ok_update elim: cache_ok_mono)
    from c Inr ok ok1 dom show ?thesis
      by (auto simp: Register_def Let_def grows_def mgr_ok_def json_Marshal_def cache_put_def
          split: option.split prod.split sum.split)
  qed
qed

lemma mgr_step_ok: "mgr_ok m \<Longrightarrow> grows m (mgr_step op m)"
proof (induction op m rule: mgr_step.induct)
  case (4 now ev m)
  show ?case
  proof (cases ev)
    case (EventDelete key)
    then show ?thesis
      using markOffline_ok [OF 4] 4 by (simp add: watch_event_def Let_def) (simp add: grows_def)
  qed (use 4 in \<open>simp add: watch_event_def grows_def\<close>)
qed (simp_all add: Register_ok Heartbeat_ok checkOfflineNodes_def checkOffline_ok DrainNode_def
    UncordonNode_def set_node_status_ok)

lemma mgr_run_ok: "mgr_ok m \<Longrightarrow> grows m (fold mgr_step ops m)"
proof (induction ops arbitrary: m)
  case (Cons op ops)
  from mgr_step_ok [OF Cons.prems] Cons.IH show ?case by (fastforce simp: grows_def)
qed (simp add: grows_def)

text \<open>The row of a node after the offline check.\<close>

lemma update_offline_other:
  "mStore m = S \<Longrightarrow> u \<noteq> nNodeID n \<Longrightarrow> view (mDB (update_offline now n m)) u = view (mDB m) u"
  by (simp add: update_offline_def update_other)

lemma update_offline_at:
  assumes "mStore m = S"
  shows "view (mDB (update_offline now n m)) (nNodeID n) =
    (if fst (ns_Update S now (mDB m) (n\<lparr>nStatus := NodeStatusOffline\<rparr>)) = None
     then map_option (\<lambda>old. stored_node rnd old (n\<lparr>nStatus := NodeStatusOffline, nUpdatedAt := now\<rparr>))
       (view (mDB m) (nNodeID n))
     else view (mDB m) (nNodeID n))"
  using update_at [of now "mDB m" "n\<lparr>nStatus := NodeStatusOffline\<rparr>"] assms
  by (simp add: update_offline_def)

lemma checkOffline_unlisted:
  "mStore m = S \<Longrightarrow> (\<And>w n. (w, n) \<in> set xs \<Longrightarrow> nNodeID n = w) \<Longrightarrow>
   (\<And>n. (u, n) \<in> set xs \<Longrightarrow> \<not> stale now (mOfflineAfter m) n) \<Longrightarrow>
   view (mDB (checkOffline now xs m)) u = view (mDB m) u"
proof (induction now xs m rule: checkOffline.induct)
  case (2 now w node rest m)
  let ?m = "if stale now (mOfflineAfter m) node
        then (update_offline now node m)\<lparr>mOnlineNodes := AList.delete w (mOnlineNodes m)\<rparr> else m"
  have id: "nNodeID node = w" using "2.prems"(2) by simp
  have "view (mDB (checkOffline now rest ?m)) u = view (mDB ?m) u"
    using "2.prems" by (intro "2.IH") auto
  moreover have "view (mDB ?m) u = view (mDB m) u"
    using "2.prems"(1,3) id by (cases "w = u") (auto simp: update_offline_other)
  ultimately show ?case by simp
qed simp

definition offlined :: "go_time \<Rightarrow> Node \<Rightarrow> Node option \<Rightarrow> Node option \<Rightarrow> bool" where
  "offlined now n v v' \<longleftrightarrow> (\<exists>db. v' =
     (if fst (ns_Update S now db (n\<lparr>nStatus := NodeStatusOffline\<rparr>)) = None
      then map_option (\<lambda>old. stored_node rnd old (n\<lparr>nStatus := NodeStatusOffline, nUpdatedAt := now\<rparr>)) v
      else v))"

lemma checkOffline_listed:
  "mStore m = S \<Longrightarrow> wf_map xs \<Longrightarrow> (\<And>w n. (w, n) \<in> set xs \<Longrightarrow> nNodeID n = w) \<Longrightarrow>
   (u, n) \<in> set xs \<Longrightarrow> stale now (mOfflineAfter m) n \<Longrightarrow>
   offlined now n (view (mDB m) u) (view (mDB (checkOffline now xs m)) u)"
proof (induction now xs m rule: checkOffline.induct)
  case (2 now w node rest m)
  let ?m = "if stale now (mOfflineAfter m) node
        then (update_offline now node m)\<lparr>mOnlineNodes := AList.delete w (mOnlineNodes m)\<rparr> else m"
  have id: "nNodeID node = w" using "2.prems"(3) by simp
  show ?case
  proof (cases "w = u")
    case True
    with "2.prems" have n: "node = n" by (auto simp: wf_map_def image_iff)
    have "view (mDB (checkOffline now rest ?m)) u = view (mDB ?m) u"
      using "2.prems"(1-3) True by (intro checkOffline_unlisted) (auto simp: wf_map_def image_iff)
    with update_offline_at [of m now n] "2.prems"(1,5) id n True show ?thesis
      unfolding offlined_def by (intro exI [of _ "mDB m"]) simp
  next
    case False
    then have same: "view (mDB ?m) u = view (mDB m) u"
      using "2.prems"(1) id by (auto simp: update_offline_other)
    have "offlined now n (view (mDB ?m) u) (view (mDB (checkOffline now rest ?m)) u)"
      using "2.prems" False by (intro "2.IH") (auto simp: wf_map_def)
    with same show ?thesis by simp
  qed
qed simp

lemma checkOfflineNodes_row:
  assumes ok: "mgr_ok m"
  shows "view (mDB (checkOfflineNodes now m)) u = view (mDB m) u \<or>
    (\<exists>n. map_of (mOnlineNodes m) u = Some n \<and> stale now (mOfflineAfter m) n \<and>
       offlined now n (view (mDB m) u) (view (mDB (checkOfflineNodes now m)) u))"
proof -
  have S: "mStore m = S" and c: "cache_ok (dom (view (mDB m))) (mOnlineNodes m)"
    using ok by (simp_all add: mgr_ok_def)
  note wf = cache_ok_wf [OF c] and id = cache_ok_id [OF c]
  show ?thesis
  proof (cases "\<exists>n. (u, n) \<in> set (mOnlineNodes m) \<and> stale now (mOfflineAfter m) n")
    case True
    then obtain n where n: "(u, n) \<in> set (mOnlineNodes m)" "stale now (mOfflineAfter m) n" by blast
    with checkOffline_listed [OF S wf id n] wf show ?thesis
      by (auto simp: checkOfflineNodes_def wf_map_def)
  next
    case False
    with checkOffline_unlisted [OF S id, where u = u and now = now] show ?thesis
      by (auto simp: checkOfflineNodes_def)
  qed
qed

lemma mgr_ok_New: "mgr_ok (NewNodeManager S db E st)"
  by (simp add: mgr_ok_def NewNodeManager_def)

lemma mgr_ok_run: "mgr_ok (fold mgr_step ops (NewNodeManager S db E st))"
proof -
  have "grows (NewNodeManager S db E st) (fold mgr_step ops (NewNodeManager S db E st))"
    by (rule mgr_run_ok [OF mgr_ok_New])
  then show ?thesis by (simp add: grows_def)
qed

lemma online_ids:
  assumes "mgr_ok m"
  shows "distinct (map nNodeID (GetOnlineNodes m))"
    and "nNodeID ` set (GetOnlineNodes m) \<subseteq> dom (view (mDB m))"
proof -
  have c: "cache_ok (dom (view (mDB m))) (mOnlineNodes m)" using assms by (simp add: mgr_ok_def)
  have keys: "map nNodeID (map snd (mOnlineNodes m)) = map fst (mOnlineNodes m)"
    using cache_ok_id [OF c] by (auto simp: comp_def)
  then have "distinct (map nNodeID (map snd (mOnlineNodes m)))"
    using cache_ok_wf [OF c] by (simp only: wf_map_def)
  then show "distinct (map nNodeID (GetOnlineNodes m))"
    unfolding GetOnlineNodes_def by (rule distinct_map_filter)
  show "nNodeID ` set (GetOnlineNodes m) \<subseteq> dom (view (mDB m))"
    using cache_ok_entry [OF c] by (fastforce simp: GetOnlineNodes_def)
qed

lemma run_sound:
  "case fold mgr_step ops (NewNodeManager S db E st) of m \<Rightarrow>
    distinct (map nNodeID (GetOnlineNodes m)) \<and> nNodeID ` set (GetOnlineNodes m) \<subseteq> dom (view (mDB m)) \<and>
    distinct (map fst (mOnlineNodes m)) \<and> dom (view db) \<subseteq> dom (view (mDB m))"
proof -
  let ?m0 = "NewNodeManager S db E st"
  have "grows ?m0 (fold mgr_step ops ?m0)" by (rule mgr_run_ok [OF mgr_ok_New])
  then have ok: "mgr_ok (fold mgr_step ops ?m0)"
    and dom: "dom (view (mDB ?m0)) \<subseteq> dom (view (mDB (fold mgr_step ops ?m0)))"
    by (simp_all add: grows_def)
  have "distinct (map fst (mOnlineNodes (fold mgr_step ops ?m0)))"
    using ok cache_ok_wf by (auto simp: mgr_ok_def wf_map_def)
  moreover have "mDB ?m0 = db" by (simp add: NewNodeManager_def)
  ultimately show ?thesis using online_ids [OF ok] dom by simp
qed

text \<open>A node that went offline: not cached, and its row says offline, with an old heartbeat.\<close>

definition gone :: "string \<Rightarrow> go_time \<Rightarrow> ('db, 'e) NodeManager \<Rightarrow> bool" where
  "gone u h m \<longleftrightarrow> mgr_ok m \<and> mEtcd m = None \<and> map_of (mOnlineNodes m) u = None \<and>
     (\<exists>r. view (mDB m) u = Some r \<and> nStatus r = NodeStatusOffline \<and> nLastHeartbeatAt r = Some h)"

definition half_gone :: "string \<Rightarrow> go_time \<Rightarrow> ('db, 'e) NodeManager \<Rightarrow> bool" where
  "half_gone u h m \<longleftrightarrow> mgr_ok m \<and> mEtcd m = None \<and>
     (\<exists>n r. map_of (mOnlineNodes m) u = Some n \<and> view (mDB m) u = Some r \<and>
        nStatus n = NodeStatusOffline \<and> nLastHeartbeatAt n = Some h \<and> nStatus r = NodeStatusOffline)"

lemma gone_heartbeat:
  assumes "gone u h m" and "hbNodeId req = u"
  shows "gone u h (snd (Heartbeat a req m)) \<or> half_gone u h (snd (Heartbeat a req m))"
proof (cases "ns_GetByNodeID (mStore m) (mDB m) u")
  case (Inl e)
  with assms show ?thesis by (simp add: Heartbeat_def gone_def)
next
  case (Inr n)
  from assms have ok: "mgr_ok m" and S: "mStore m = S" and none: "map_of (mOnlineNodes m) u = None"
    by (simp_all add: gone_def mgr_ok_def)
  have row: "view (mDB m) u = Some n" using Inr get_ok S by simp
  let ?m = "cache_put u n m"
  have m': "snd (Heartbeat a req m) = snd (pgHeartbeat a req ?m)"
    using none Inr assms(2) by (simp add: Heartbeat_def)
  have "\<exists>r. view (mDB (snd (pgHeartbeat a req ?m))) u = Some r \<and> nStatus r = nStatus n"
    using row S assms(2) by (auto simp: pgHeartbeat_def split_beta heartbeat_at)
  moreover have "mgr_ok (snd (pgHeartbeat a req ?m))"
    using pgHeartbeat_ok [OF cache_put_ok [OF ok view_id [OF row]]] row by (auto simp: grows_def)
  ultimately have "half_gone u h (snd (pgHeartbeat a req ?m))"
    using assms row by (auto simp: half_gone_def gone_def update_conv')
  then show ?thesis using m' by simp
qed

lemma gone_check: "gone u h m \<Longrightarrow> gone u h (checkOfflineNodes b m)"
proof -
  assume g: "gone u h m"
  then have ok: "mgr_ok m" and none: "map_of (mOnlineNodes m) u = None" by (simp_all add: gone_def)
  have wf: "wf_map (mOnlineNodes m)" using ok cache_ok_wf by (auto simp: mgr_ok_def)
  have "view (mDB (checkOfflineNodes b m)) u = view (mDB m) u"
    using checkOfflineNodes_row [OF ok, of b u] none by auto
  moreover have "map_of (mOnlineNodes (checkOfflineNodes b m)) u = None"
    using none by (auto simp: mOnlineNodes_checkOfflineNodes [OF wf] map_of_eq_None_iff)
  moreover have "mgr_ok (checkOfflineNodes b m)"
    using checkOffline_ok [OF ok] by (simp add: checkOfflineNodes_def grows_def)
  ultimately show ?thesis using g by (simp add: gone_def)
qed

lemma half_gone_check:
  assumes h: "half_gone u h m" and late: "b - h > mOfflineAfter m" and rnd: "rnd h = h"
    and up: "\<And>now db n. fst (ns_Update S now db n) = None"
  shows "gone u h (checkOfflineNodes b m)"
proof -
  from h obtain n r where n: "map_of (mOnlineNodes m) u = Some n" "nStatus n = NodeStatusOffline"
      "nLastHeartbeatAt n = Some h" and r: "view (mDB m) u = Some r" and ok: "mgr_ok m"
    and E: "mEtcd m = None"
    by (auto simp: half_gone_def)
  have c: "cache_ok (dom (view (mDB m))) (mOnlineNodes m)" and S: "mStore m = S"
    using ok by (simp_all add: mgr_ok_def)
  note wf = cache_ok_wf [OF c]
  have st: "stale b (mOfflineAfter m) n" using n late by (simp add: stale_def)
  have "offlined b n (view (mDB m) u) (view (mDB (checkOfflineNodes b m)) u)"
    unfolding checkOfflineNodes_def
    by (rule checkOffline_listed [OF S wf cache_ok_id [OF c] map_of_SomeD [OF n(1)] st])
  then have "view (mDB (checkOfflineNodes b m)) u =
      Some (stored_node rnd r (n\<lparr>nStatus := NodeStatusOffline, nUpdatedAt := b\<rparr>))"
    by (auto simp: offlined_def up r)
  moreover have "map_of (mOnlineNodes (checkOfflineNodes b m)) u = None"
  proof -
    have "x = n" if "(u, x) \<in> set (mOnlineNodes m)" for x
      using that n(1) wf by (auto simp: wf_map_def)
    with st show ?thesis
      by (auto simp: mOnlineNodes_checkOfflineNodes [OF wf] map_of_eq_None_iff)
  qed
  moreover have "mgr_ok (checkOfflineNodes b m)"
    using checkOffline_ok [OF ok] by (simp add: checkOfflineNodes_def grows_def)
  ultimately show ?thesis using E n(3) rnd by (simp add: gone_def)
qed

lemma gone_not_online: "gone u h m \<or> half_gone u h m \<Longrightarrow> u \<notin> nNodeID ` set (GetOnlineNodes m)"
proof
  assume A: "gone u h m \<or> half_gone u h m" and "u \<in> nNodeID ` set (GetOnlineNodes m)"
  then obtain w n where n: "(w, n) \<in> set (mOnlineNodes m)" "IsSchedulable n" "nNodeID n = u"
    by (auto simp: GetOnlineNodes_def)
  have c: "cache_ok (dom (view (mDB m))) (mOnlineNodes m)"
    using A by (auto simp: gone_def half_gone_def mgr_ok_def)
  from cache_ok_entry [OF c n(1)] n(3) have "map_of (mOnlineNodes m) u = Some n" by simp
  with A n(2) show False by (auto simp: gone_def half_gone_def IsSchedulable_def)
qed

text \<open>The rounds of a node that sends heartbeats again, each followed by an offline check.\<close>

lemma gone_rounds:
  assumes "gone u h m" and rnd: "rnd h = h" and up: "\<And>now db n. fst (ns_Update S now db n) = None"
    and "list_all (\<lambda>(a, req, b). hbNodeId req = u \<and> b - h > mOfflineAfter m) rounds"
  shows "gone u h (fold (\<lambda>(a, req, b) m. checkOfflineNodes b (snd (Heartbeat a req m))) rounds m)"
  using assms(1,4)
proof (induction rounds arbitrary: m)
  case (Cons x rounds)
  obtain a req b where x: "x = (a, req, b)" by (cases x) auto
  let ?m1 = "snd (Heartbeat a req m)"
  have off: "mOfflineAfter ?m1 = mOfflineAfter m"
    by (rule Heartbeat_offlineAfter)
  have "gone u h ?m1 \<or> half_gone u h ?m1"
    using gone_heartbeat [OF Cons.prems(1)] Cons.prems(2) x by simp
  moreover have late: "b - h > mOfflineAfter ?m1" using Cons.prems(2) x off by simp
  ultimately have "gone u h (checkOfflineNodes b ?m1)"
    using gone_check half_gone_check [OF _ late rnd up] by blast
  then have "gone u h (fold (\<lambda>(a, req, b) m. checkOfflineNodes b (snd (Heartbeat a req m))) rounds
      (checkOfflineNodes b ?m1))"
    using Cons.prems(2) off x by (intro Cons.IH) auto
  with x show ?case by simp
qed simp

end

section \<open>Properties\<close>

definition demo_register :: RegisterRequest where
  "demo_register = \<lparr>rqHostname = ''host'', rqIp = ''10.0.0.1'', rqVersion = ''0.3.0'', rqTotalCpu = 8,
     rqTotalMemoryMb = 4096, rqTotalDiskMb = 100, rqLabels = [''zone=a'']\<rparr>"

definition demo_beat :: "string \<Rightarrow> HeartbeatRequest" where
  "demo_beat u = \<lparr>hbNodeId = u, hbVersion = ''0.3.0'', hbResources = None\<rparr>"

definition demo_manager :: "(node_row list, unit) NodeManager" where
  "demo_manager = NewNodeManager (NewNodeStore mem_npg) [] None ()"

lemma mem_nodes_up: "fst (ns_Update (NewNodeStore mem_npg) now db n) = None"
  by (simp add: NewNodeStore_def NodeStore_Update_def mem_npg_def Let_def)



text \<open>
  C29. The periodic check takes exactly the stale nodes out of the cache, those whose last heartbeat
  is more than \<open>offlineAfter\<close> ago, and keeps the others with their order; a node that has sent no
  heartbeat yet is never stale. It changes the row of no other node, and when no \<^verbatim>\<open>UPDATE\<close> fails the
  row of every node it takes out says offline.
\<close>

theorem checkOfflineNodes_outcome:
  assumes ns: "node_store S view rnd"
    and m: "m = fold mgr_step ops (NewNodeManager S db E st)"
  shows "mOnlineNodes (checkOfflineNodes now m) =
       filter (\<lambda>(u, n). \<not> stale now (mOfflineAfter m) n) (mOnlineNodes m) \<and>
     (\<forall>u. (case map_of (mOnlineNodes m) u of None \<Rightarrow> False | Some n \<Rightarrow> stale now (mOfflineAfter m) n) \<or>
        view (mDB (checkOfflineNodes now m)) u = view (mDB m) u) \<and>
     ((\<forall>now db n. fst (ns_Update S now db n) = None) \<longrightarrow>
      (\<forall>u n. map_of (mOnlineNodes m) u = Some n \<and> stale now (mOfflineAfter m) n \<longrightarrow>
        map_option nStatus (view (mDB (checkOfflineNodes now m)) u) = Some NodeStatusOffline))"
proof -
  have ok: "node_store.mgr_ok S view m"
    unfolding m by (rule node_store.mgr_ok_run [OF ns])
  then have c: "cache_ok (dom (view (mDB m))) (mOnlineNodes m)" and S: "mStore m = S"
    by (simp_all add: node_store.mgr_ok_def [OF ns])
  note wf = cache_ok_wf [OF c]
  have row: "(case map_of (mOnlineNodes m) u of None \<Rightarrow> False | Some n \<Rightarrow> stale now (mOfflineAfter m) n) \<or>
      view (mDB (checkOfflineNodes now m)) u = view (mDB m) u" for u
    using node_store.checkOfflineNodes_row [OF ns ok, of now u] by auto
  have off: "map_option nStatus (view (mDB (checkOfflineNodes now m)) u) = Some NodeStatusOffline"
    if up: "\<forall>now db n. fst (ns_Update S now db n) = None"
      and n: "map_of (mOnlineNodes m) u = Some n" and st: "stale now (mOfflineAfter m) n" for u n
  proof -
    have "node_store.offlined S rnd now n (view (mDB m) u) (view (mDB (checkOfflineNodes now m)) u)"
      unfolding checkOfflineNodes_def
      by (rule node_store.checkOffline_listed [OF ns S wf cache_ok_id [OF c] map_of_SomeD [OF n] st])
    moreover from c n have "u \<in> dom (view (mDB m))" by (simp add: cache_ok_def)
    ultimately show ?thesis by (auto simp: node_store.offlined_def [OF ns] up)
  qed
  from mOnlineNodes_checkOfflineNodes [OF wf] row off show ?thesis by blast
qed

theorem checkOfflineNodes_outcome_witness:
  "case fold mgr_step [(0, OpRegister ''n1'' demo_register), (5, OpHeartbeat (demo_beat ''n1'')),
       (5, OpRegister ''n2'' demo_register)] (NewNodeManager (NewNodeStore mem_npg) [] None ()) of m \<Rightarrow>
     map fst (mOnlineNodes (checkOfflineNodes (31 * Second) m)) = [''n2''] \<and>
     map_option nStatus (nmem.node_view (mDB (checkOfflineNodes (31 * Second) m)) ''n1'') = Some NodeStatusOffline"
proof -
  let ?m = "fold mgr_step [(0, OpRegister ''n1'' demo_register), (5, OpHeartbeat (demo_beat ''n1'')),
       (5, OpRegister ''n2'' demo_register)] (NewNodeManager (NewNodeStore mem_npg) [] None ())"
  have "map (\<lambda>(u, n). (u, stale (31 * Second) (mOfflineAfter ?m) n)) (mOnlineNodes ?m)
      = [(''n1'', True), (''n2'', False)]"
    by code_simp
  then obtain n1 n2 where m: "mOnlineNodes ?m = [(''n1'', n1), (''n2'', n2)]"
    and s: "stale (31 * Second) (mOfflineAfter ?m) n1" "\<not> stale (31 * Second) (mOfflineAfter ?m) n2"
    by (auto simp: map_eq_Cons_conv)
  then show ?thesis
    using checkOfflineNodes_outcome [OF nmem.st.node_store_axioms refl,
        where ops = "[(0, OpRegister ''n1'' demo_register), (5, OpHeartbeat (demo_beat ''n1'')),
          (5, OpRegister ''n2'' demo_register)]" and db = "[]" and E = None and st = "()"
          and now = "31 * Second"] mem_nodes_up by simp
qed

text \<open>
  C39. Without etcd, a node that went offline stays offline although it sends heartbeats again: the
  first one reads the row back into the cache with its status and its heartbeat time from before,
  and only the database gets the new time; the next offline check finds the cached time too old,
  takes the node out of the cache and writes the old time back. So as long as every heartbeat of
  the node is followed by a check before the next one (a check runs every five seconds, an agent
  sends a heartbeat every ten), the node is never among the online nodes, neither after a check
  nor after a heartbeat, for any number of rounds.
\<close>

theorem offline_for_good:
  assumes ns: "node_store S view rnd" and up: "\<And>now db n. fst (ns_Update S now db n) = None"
    and m: "m = fold mgr_step ops (NewNodeManager S db None st)"
    and out: "map_of (mOnlineNodes m) u = None" "view (mDB m) u = Some r"
      "nStatus r = NodeStatusOffline" "nLastHeartbeatAt r = Some h" "rnd h = h"
    and rounds: "list_all (\<lambda>(a, req, b). hbNodeId req = u \<and> b - h > mOfflineAfter m) rounds"
    and next_beat: "hbNodeId req = u"
  shows "case fold (\<lambda>(a, req, b) m. checkOfflineNodes b (snd (Heartbeat a req m))) rounds m of m' \<Rightarrow>
    u \<notin> nNodeID ` set (GetOnlineNodes m') \<and>
    u \<notin> nNodeID ` set (GetOnlineNodes (snd (Heartbeat now req m'))) \<and>
    map_option nStatus (view (mDB m') u) = Some NodeStatusOffline"
proof -
  note gone_def = node_store.gone_def [OF ns]
  have ok: "node_store.mgr_ok S view m"
    unfolding m by (rule node_store.mgr_ok_run [OF ns])
  have "mEtcd (mgr_step op x) = mEtcd x" for op and x :: "('a, 'b) NodeManager"
    by (rule mgr_step_etcd)
  then have "mEtcd (fold mgr_step ops x) = mEtcd x" for x :: "('a, 'b) NodeManager"
    by (induction ops arbitrary: x) simp_all
  then have "mEtcd m = None" by (simp add: m NewNodeManager_def)
  with ok out have g: "node_store.gone S view u h m" by (simp add: gone_def)
  let ?m = "fold (\<lambda>(a, req, b) m. checkOfflineNodes b (snd (Heartbeat a req m))) rounds m"
  have g': "node_store.gone S view u h ?m"
    by (rule node_store.gone_rounds [OF ns g out(5) up rounds])
  from node_store.gone_not_online [OF ns, of u h ?m] g'
    node_store.gone_not_online [OF ns node_store.gone_heartbeat [OF ns g' next_beat, of now]]
  show ?thesis by (auto simp: gone_def)
qed

theorem offline_for_good_witness:
  "case fold (\<lambda>(a, req, b) m. checkOfflineNodes b (snd (Heartbeat a req m)))
      [(70 * Second, demo_beat ''n1'', 75 * Second), (80 * Second, demo_beat ''n1'', 85 * Second)]
      (fold mgr_step [(0, OpRegister ''n1'' demo_register), (Second, OpHeartbeat (demo_beat ''n1'')),
         (60 * Second, OpCheck)] demo_manager) of m' \<Rightarrow>
     ''n1'' \<notin> nNodeID ` set (GetOnlineNodes m') \<and>
     ''n1'' \<notin> nNodeID ` set (GetOnlineNodes (snd (Heartbeat (90 * Second) (demo_beat ''n1'') m')))"
proof -
  let ?ops = "[(0, OpRegister ''n1'' demo_register), (Second, OpHeartbeat (demo_beat ''n1'')),
         (60 * Second, OpCheck)]"
  let ?rounds = "[(70 * Second, demo_beat ''n1'', 75 * Second), (80 * Second, demo_beat ''n1'', 85 * Second)]"
  let ?m = "fold mgr_step ?ops (NewNodeManager (NewNodeStore mem_npg) [] None ())"
  have none: "map_of (mOnlineNodes ?m) ''n1'' = None" by code_simp
  have "map_option (\<lambda>r. (nStatus (scanNode r), nLastHeartbeatAt (scanNode r))) (find_node (mDB ?m) ''n1'')
      = Some (NodeStatusOffline, Some Second)"
    by code_simp
  then obtain r where r: "nmem.node_view (mDB ?m) ''n1'' = Some r" "nStatus r = NodeStatusOffline"
      "nLastHeartbeatAt r = Some Second"
    by (auto simp: nmem.node_view_def)
  have "list_all (\<lambda>(a, req, b). hbNodeId req = ''n1'' \<and> b - Second > mOfflineAfter ?m) ?rounds"
    by code_simp
  from offline_for_good [OF nmem.st.node_store_axioms mem_nodes_up refl none r refl this,
      of "demo_beat ''n1''" "90 * Second"]
  show ?thesis by (simp add: demo_beat_def demo_manager_def)
qed

text \<open>
  A drain does not last: \<open>DrainNode\<close> sets the status of a cached node to drain, and the next
  heartbeat of the node sets it to online again, so the node is offered to the scheduler as before,
  with all its labels; the row in the database is left saying drain.
\<close>

lemma drain_undone:
  assumes ns: "node_store S view rnd" and m: "m = fold mgr_step ops (NewNodeManager S db E st)"
    and cached: "map_of (mOnlineNodes m) (hbNodeId req) = Some n"
  shows "case snd (DrainNode a (hbNodeId req) m) of m1 \<Rightarrow> case snd (Heartbeat b req m1) of m2 \<Rightarrow>
    map_option nStatus (map_of (mOnlineNodes m1) (hbNodeId req)) = Some NodeStatusDrain \<and>
    (\<exists>n2 \<in> set (GetOnlineNodes m2). nNodeID n2 = hbNodeId req \<and> nLabels n2 = nLabels n)"
proof -
  have ok: "node_store.mgr_ok S view m"
    unfolding m by (rule node_store.mgr_ok_run [OF ns])
  then have S: "mStore m = S" and id: "nNodeID n = hbNodeId req"
    using cached by (simp_all add: node_store.mgr_ok_def [OF ns] cache_ok_def)
  let ?m1 = "snd (DrainNode a (hbNodeId req) m)"
  let ?n1 = "n\<lparr>nStatus := NodeStatusDrain, nUpdatedAt := a\<rparr>"
  obtain err n' db' where u: "ns_Update S a (mDB m) (n\<lparr>nStatus := NodeStatusDrain\<rparr>) = (err, n', db')"
    by (metis prod.collapse)
  have "n' = ?n1" using node_store.update_node [OF ns u] by simp
  then have m1: "map_of (mOnlineNodes ?m1) (hbNodeId req) = Some ?n1"
    using cached S u by (simp add: DrainNode_def set_node_status_def update_conv')
  have "map_of (mOnlineNodes (snd (Heartbeat b req ?m1))) (hbNodeId req) = Some (heartbeat_node b req ?n1)"
    by (rule Heartbeat_cached [OF m1])
  from map_of_SomeD [OF this]
  have "heartbeat_node b req ?n1 \<in> set (GetOnlineNodes (snd (Heartbeat b req ?m1)))"
    by (force simp: GetOnlineNodes_def IsSchedulable_def)
  with m1 id show ?thesis by (auto intro!: bexI [of _ "heartbeat_node b req ?n1"])
qed

lemma drain_undone_witness:
  "case snd (DrainNode 2 ''n1'' (snd (Register ''n1'' 1 demo_register demo_manager))) of m1 \<Rightarrow>
   case snd (Heartbeat 3 (demo_beat ''n1'') m1) of m2 \<Rightarrow>
     GetOnlineNodes m1 = [] \<and> (\<exists>n2 \<in> set (GetOnlineNodes m2). nLabels n2 = [''zone=a''])"
proof -
  let ?m = "fold mgr_step [(1, OpRegister ''n1'' demo_register)]
      (NewNodeManager (NewNodeStore mem_npg) [] None ())"
  have "map_option nLabels (map_of (mOnlineNodes ?m) ''n1'') = Some [''zone=a'']" by code_simp
  then obtain n where "map_of (mOnlineNodes ?m) (hbNodeId (demo_beat ''n1'')) = Some n"
    and l: "nLabels n = [''zone=a'']"
    by (auto simp: demo_beat_def)
  from drain_undone [OF nmem.st.node_store_axioms refl this(1), of 2 3]
  have "\<exists>n2 \<in> set (GetOnlineNodes (snd (Heartbeat 3 (demo_beat ''n1'')
      (snd (DrainNode 2 ''n1'' (snd (Register ''n1'' 1 demo_register demo_manager))))))). nLabels n2 = [''zone=a'']"
    using l by (auto simp: demo_beat_def demo_manager_def)
  moreover have "GetOnlineNodes (snd (DrainNode 2 ''n1'' (snd (Register ''n1'' 1 demo_register demo_manager)))) = []"
    by code_simp
  ultimately show ?thesis by simp
qed

end
