(* ===== verification/Agent_Server.thy ===== *)
theory Agent_Server
  imports Node_Manager Task_Scheduler
begin

text \<open>
  \<^verbatim>\<open>internal/grpcserver/server.go\<close> and the task side of \<^verbatim>\<open>cmd/agent/main.go\<close>: the two ends of the
  remote execution of a task. The server hands the next task of a node out in a message, the agent
  builds a task of it, runs it and reports the result in a message, and the server passes that on
  to the scheduler. The messages are records with the fields of the protocol; an \<^verbatim>\<open>int32\<close> field
  wraps around at 32 bits.

  The lemmas follow a task and its result through both messages.
\<close>

section \<open>Messages\<close>

record PullTaskResponse =
  ptTaskUid :: string
  ptName :: string
  ptCommand :: string
  ptWorkdir :: string
  ptEnv :: string_map
  ptTimeoutSec :: int

definition emptyPull :: PullTaskResponse where
  "emptyPull = \<lparr>ptTaskUid = [], ptName = [], ptCommand = [], ptWorkdir = [], ptEnv = [], ptTimeoutSec = 0\<rparr>"

record ResultRequest =
  rrTaskUid :: string
  rrExitCode :: int
  rrStdout :: string
  rrStderr :: string
  rrErrorMessage :: string
  rrTimedOut :: bool

section \<open>The server\<close>

record ('db, 'q, 'r, 'e, 'n) AgentServer =
  aNodeMgr :: "('db, 'n) NodeManager"
  aScheduler :: "('db, 'q, 'r, 'e) Scheduler option"

definition NewAgentServer ::
    "('db, 'n) NodeManager \<Rightarrow> ('db, 'q, 'r, 'e) Scheduler option \<Rightarrow> ('db, 'q, 'r, 'e, 'n) AgentServer" where
  "NewAgentServer nodeMgr scheduler = \<lparr>aNodeMgr = nodeMgr, aScheduler = scheduler\<rparr>"

definition AgentServer_Register ::
    "string \<Rightarrow> go_time \<Rightarrow> RegisterRequest \<Rightarrow> ('db, 'q, 'r, 'e, 'n) AgentServer \<Rightarrow>
     string result \<times> ('db, 'q, 'r, 'e, 'n) AgentServer" where
  "AgentServer_Register uuid now req s =
     (case Register uuid now req (aNodeMgr s) of (r, m) \<Rightarrow> (r, s\<lparr>aNodeMgr := m\<rparr>))"

definition AgentServer_Heartbeat ::
    "go_time \<Rightarrow> HeartbeatRequest \<Rightarrow> ('db, 'q, 'r, 'e, 'n) AgentServer \<Rightarrow>
     (bool \<times> error option) \<times> ('db, 'q, 'r, 'e, 'n) AgentServer" where
  "AgentServer_Heartbeat now req s =
     (case Heartbeat now req (aNodeMgr s) of (err, m) \<Rightarrow> ((err = None, err), s\<lparr>aNodeMgr := m\<rparr>))"

text \<open>The two calls that accept and do nothing.\<close>

definition AgentServer_SubmitTask ::
    "string \<Rightarrow> ('db, 'q, 'r, 'e, 'n) AgentServer \<Rightarrow> bool \<times> ('db, 'q, 'r, 'e, 'n) AgentServer" where
  "AgentServer_SubmitTask uid s = (True, s)"

definition AgentServer_CancelTask ::
    "string \<Rightarrow> ('db, 'q, 'r, 'e, 'n) AgentServer \<Rightarrow> bool \<times> ('db, 'q, 'r, 'e, 'n) AgentServer" where
  "AgentServer_CancelTask uid s = (True, s)"

definition server_result :: "ResultRequest \<Rightarrow> TaskResult" where
  "server_result req = \<lparr>
     trExitCode = rrExitCode req, trStdout = rrStdout req, trStderr = rrStderr req,
     trTimedOut = rrTimedOut req,
     trError = (if rrErrorMessage req \<noteq> [] then Some (ErrRemote (rrErrorMessage req)) else None)\<rparr>"

definition ReportResult ::
    "go_time \<Rightarrow> ResultRequest \<Rightarrow> ('db, 'q, 'r, 'e, 'n) AgentServer \<Rightarrow> bool \<times> ('db, 'q, 'r, 'e, 'n) AgentServer" where
  "ReportResult now req s =
     (case aScheduler s of
        None \<Rightarrow> (False, s)
      | Some sch \<Rightarrow>
          (True, s\<lparr>aScheduler := Some (HandleRemoteResult now sch (rrTaskUid req) (server_result req))\<rparr>))"

definition pull_response :: "Task \<Rightarrow> PullTaskResponse" where
  "pull_response task = \<lparr>
     ptTaskUid = tTaskUID task, ptName = tName task, ptCommand = tCommand task,
     ptWorkdir = tWorkdir task, ptEnv = tEnv task, ptTimeoutSec = wrap32 (tTimeoutSec task)\<rparr>"

definition PullTask ::
    "string \<Rightarrow> ('db, 'q, 'r, 'e, 'n) AgentServer \<Rightarrow> PullTaskResponse \<times> ('db, 'q, 'r, 'e, 'n) AgentServer" where
  "PullTask nodeID s =
     (case aScheduler s of
        None \<Rightarrow> (emptyPull, s)
      | Some sch \<Rightarrow>
          (case GetNextTaskForNode sch nodeID of
             (None, sch') \<Rightarrow> (emptyPull, s\<lparr>aScheduler := Some sch'\<rparr>)
           | (Some task, sch') \<Rightarrow> (pull_response task, s\<lparr>aScheduler := Some sch'\<rparr>)))"

section \<open>The agent\<close>

text \<open>\<^verbatim>\<open>strings.TrimSpace\<close> on the ASCII blanks, and the labels of the command line.\<close>

definition is_blank :: "char \<Rightarrow> bool" where
  "is_blank c \<longleftrightarrow> c \<in> {CHR '' '', CHR 0x09, CHR 0x0A, CHR 0x0B, CHR 0x0C, CHR 0x0D}"

definition TrimSpace :: "string \<Rightarrow> string" where
  "TrimSpace s = rev (dropWhile is_blank (rev (dropWhile is_blank s)))"

definition agent_labels :: "string \<Rightarrow> string list" where
  "agent_labels labels =
     (if labels \<noteq> [] then
        foldl (\<lambda>labelList l. let trimmed = TrimSpace l in
          if trimmed \<noteq> [] then labelList @ [trimmed] else labelList) [] (Split CHR '','' labels)
      else [])"

text \<open>The task the agent builds of a response, and the report of its result.\<close>

definition agent_task :: "string \<Rightarrow> go_time \<Rightarrow> PullTaskResponse \<Rightarrow> Task" where
  "agent_task uuid now req = (NewTask uuid now (ptName req) (ptCommand req))
     \<lparr>tTaskUID := ptTaskUid req, tWorkdir := ptWorkdir req, tEnv := ptEnv req,
      tTimeoutSec := ptTimeoutSec req\<rparr>"

definition agent_report :: "string \<Rightarrow> TaskResult \<Rightarrow> ResultRequest" where
  "agent_report uid result = \<lparr>
     rrTaskUid = uid, rrExitCode = wrap32 (trExitCode result), rrStdout = trStdout result,
     rrStderr = trStderr result,
     rrErrorMessage = (case trError result of Some e \<Rightarrow> errorString e | None \<Rightarrow> []),
     rrTimedOut = trTimedOut result\<rparr>"

text \<open>\<^verbatim>\<open>executeTask\<close>, for the environment and the operating system of the agent.\<close>

definition executeTask ::
    "string list \<Rightarrow> (exec_cmd \<Rightarrow> duration \<Rightarrow> os_run) \<Rightarrow> string \<Rightarrow> go_time \<Rightarrow> PullTaskResponse \<Rightarrow> ResultRequest" where
  "executeTask environ os uuid now req =
     agent_report (ptTaskUid req) (Executor_Run environ os (agent_task uuid now req))"

text \<open>One round of the poll loop: the task to execute, if the server had one.\<close>

definition poll_round ::
    "string \<Rightarrow> ('db, 'q, 'r, 'e, 'n) AgentServer \<Rightarrow>
     PullTaskResponse option \<times> ('db, 'q, 'r, 'e, 'n) AgentServer" where
  "poll_round nodeID s =
     (case PullTask nodeID s of (resp, s') \<Rightarrow> (if ptTaskUid resp = [] then None else Some resp, s'))"

section \<open>Properties\<close>

lemma completeTask_result_cong:
  assumes "trExitCode r = trExitCode r'" "trStdout r = trStdout r'" "trStderr r = trStderr r'"
    and "trTimedOut r = trTimedOut r'" "map_option errorString (trError r) = map_option errorString (trError r')"
  shows "completeTask now s t r = completeTask now s t r'"
  using assms by (cases "trError r"; cases "trError r'") (auto simp: completeTask_def)

lemma executor_task_cong:
  assumes "tCommand t = tCommand t'" "tWorkdir t = tWorkdir t'" "tEnv t = tEnv t'" "tTimeoutSec t = tTimeoutSec t'"
  shows "Executor_Run environ os t = Executor_Run environ os t'"
  using assms by (simp add: Executor_Run_def Run_cmd_def Run_timeout_def)

lemma agent_runs_task:
  assumes "- (2 ^ 31) \<le> tTimeoutSec t" "tTimeoutSec t < 2 ^ 31"
  shows "Executor_Run environ os (agent_task uuid now (pull_response t)) = Executor_Run environ os t"
  using assms by (intro executor_task_cong) (simp_all add: agent_task_def pull_response_def NewTask_def go_arith)

lemma Run_result_exit:
  "(\<And>e. osStdoutPipe o' = Some e \<Longrightarrow> errorString e \<noteq> []) \<Longrightarrow>
   (\<And>e. osStderrPipe o' = Some e \<Longrightarrow> errorString e \<noteq> []) \<Longrightarrow>
   (\<And>e. osStart o' = Some e \<Longrightarrow> errorString e \<noteq> []) \<Longrightarrow>
   (\<And>e. osWait o' = Some e \<Longrightarrow> errorString e \<noteq> []) \<Longrightarrow>
   (\<And>c s. osWait o' = Some (ErrExit c s) \<Longrightarrow> - (2 ^ 31) \<le> c \<and> c < 2 ^ 31) \<Longrightarrow>
   (\<forall>e. trError (Run_result o') = Some e \<longrightarrow> errorString e \<noteq> []) \<and>
   - (2 ^ 31) \<le> trExitCode (Run_result o') \<and> trExitCode (Run_result o') < 2 ^ 31"
  by (auto simp: Run_result_def zeroResult_def Let_def split: option.splits error.splits)


definition demo_os :: "exec_cmd \<Rightarrow> duration \<Rightarrow> os_run" where
  "demo_os c d = \<lparr>osStdoutPipe = None, osStderrPipe = None, osStart = None, osStdout = ''out'',
     osStderr = [], osWait = Some (ErrExit 3 ''exit status 3''), osCtxErr = None\<rparr>"


text \<open>What the server hands out is what the scheduler has next for the node, and a report reaches
  \<open>HandleRemoteResult\<close>; without a scheduler neither does anything.\<close>

lemma PullTask_next:
  "aScheduler s = Some sch \<Longrightarrow> fst (PullTask u s) =
     (case fst (GetNextTaskForNode sch u) of None \<Rightarrow> emptyPull | Some t \<Rightarrow> pull_response t)"
  by (auto simp: PullTask_def split: prod.split option.split)

lemma no_scheduler:
  "aScheduler s = None \<Longrightarrow> PullTask u s = (emptyPull, s) \<and> ReportResult now req s = (False, s)"
  by (simp add: PullTask_def ReportResult_def)

end
