(* ===== verification/Redis_Queue.thy ===== *)
theory Redis_Queue
  imports Task_Queue Task_Store Node_Model "HOL-Library.AList"
begin

text \<open>
  \<^verbatim>\<open>internal/queue/redis.go\<close>: the task queue in Redis. The tasks are stored as JSON documents under
  a key each, with a time to live; a list of UIDs is the normal queue, two sorted sets are the
  priority queue and the delayed tasks.

  The client is a record of the commands the file uses. What Redis promises of them is the locale
  \<open>redis_store\<close>, over the lists, the sorted sets and the documents last written; a command whose
  answer is lost may or may not have been executed, and a document may have expired. A
  \<^theory_text>\<open>sublocale\<close> shows that the queue over such a Redis meets the contract \<open>task_queue\<close> of its clients.
\<close>

section \<open>The client\<close>

record 'r redis_queue =
  rq_ZRangeByScore :: "'r \<Rightarrow> string \<Rightarrow> rat \<Rightarrow> rat \<Rightarrow> string list result"
  rq_LPush :: "'r \<Rightarrow> string \<Rightarrow> string \<Rightarrow> error option \<times> 'r"
  rq_ZRem :: "'r \<Rightarrow> string \<Rightarrow> string \<Rightarrow> error option \<times> 'r"
  rq_SetEx :: "'r \<Rightarrow> string \<Rightarrow> Task json \<Rightarrow> duration \<Rightarrow> error option \<times> 'r"
  rq_Get :: "'r \<Rightarrow> string \<Rightarrow> Task json result"
  rq_ZPopMin :: "'r \<Rightarrow> string \<Rightarrow> string list result \<times> 'r"
  rq_BRPop :: "'r \<Rightarrow> duration \<Rightarrow> string \<Rightarrow> string result \<times> 'r"
  rq_ZAdd :: "'r \<Rightarrow> string \<Rightarrow> rat \<Rightarrow> string \<Rightarrow> error option \<times> 'r"
  rq_LLen :: "'r \<Rightarrow> string \<Rightarrow> int result"
  rq_ZCard :: "'r \<Rightarrow> string \<Rightarrow> int result"
  rq_Close :: "'r \<Rightarrow> error option"

record 'r RedisQueue =
  kRdb :: "'r redis_queue"
  kRedis :: 'r
  kClosed :: bool

definition redisTaskKey :: "string \<Rightarrow> string" where
  "redisTaskKey uid = ''tasks:task:'' @ uid"

definition redisPendingKey :: string where
  "redisPendingKey = ''tasks:queue:pending''"

definition redisPriorityKey :: string where
  "redisPriorityKey = ''tasks:queue:priority''"

definition redisDelayedKey :: string where
  "redisDelayedKey = ''tasks:queue:delayed''"

definition taskTTL :: duration where
  "taskTTL = 24 * 60 * Minute"

definition NewRedisQueue :: "'r redis_queue \<Rightarrow> 'r \<Rightarrow> 'r RedisQueue" where
  "NewRedisQueue rdb r = \<lparr>kRdb = rdb, kRedis = r, kClosed = False\<rparr>"

section \<open>The operations\<close>

text \<open>The loop over the due tasks. An error of \<^verbatim>\<open>ZRem\<close> is only logged.\<close>

fun move_due :: "string list \<Rightarrow> 'r RedisQueue \<Rightarrow> 'r RedisQueue" where
  "move_due [] q = q"
| "move_due (uid # uids) q =
     (case rq_LPush (kRdb q) (kRedis q) redisPendingKey uid of
        (Some e, r) \<Rightarrow> move_due uids (q\<lparr>kRedis := r\<rparr>)
      | (None, r) \<Rightarrow>
          move_due uids (q\<lparr>kRedis := snd (rq_ZRem (kRdb q) r redisDelayedKey uid)\<rparr>))"

definition moveDueDelayed :: "go_time \<Rightarrow> 'r RedisQueue \<Rightarrow> 'r RedisQueue" where
  "moveDueDelayed now q =
     (case rq_ZRangeByScore (kRdb q) (kRedis q) redisDelayedKey 0 (of_int (Unix now)) of
        Inl e \<Rightarrow> q
      | Inr taskUIDs \<Rightarrow> move_due taskUIDs q)"

text \<open>The background loop, over the times of its ticks until the queue is closed.\<close>

definition processDelayedLoop :: "go_time list \<Rightarrow> 'r RedisQueue \<Rightarrow> 'r RedisQueue" where
  "processDelayedLoop ticks q = fold (\<lambda>now q. if kClosed q then q else moveDueDelayed now q) ticks q"

definition storeTask :: "'r RedisQueue \<Rightarrow> Task \<Rightarrow> error option \<times> 'r RedisQueue" where
  "storeTask q t =
     (case json_Marshal t of
        Inl e \<Rightarrow> (Some (ErrWrap ''marshal task'' e), q)
      | Inr data \<Rightarrow>
          (case rq_SetEx (kRdb q) (kRedis q) (redisTaskKey (tTaskUID t)) data taskTTL of
             (err, r) \<Rightarrow> (err, q\<lparr>kRedis := r\<rparr>)))"

definition getTask :: "'r RedisQueue \<Rightarrow> string \<Rightarrow> Task option result" where
  "getTask q uid =
     (case rq_Get (kRdb q) (kRedis q) (redisTaskKey uid) of
        Inl e \<Rightarrow> if e = ErrRedisNil then Inr None else Inl (ErrWrap ''get task'' e)
      | Inr data \<Rightarrow>
          (case json_Unmarshal data of
             Inl e \<Rightarrow> Inl (ErrWrap ''unmarshal task'' e)
           | Inr t \<Rightarrow> Inr (Some t)))"

definition RedisQueue_Push ::
    "go_time \<Rightarrow> 'r RedisQueue \<Rightarrow> Task \<Rightarrow> error option \<times> 'r RedisQueue" where
  "RedisQueue_Push now q t =
     (case storeTask q t of
        (Some e, q1) \<Rightarrow> (Some e, q1)
      | (None, q1) \<Rightarrow>
          (case rq_LPush (kRdb q1) (kRedis q1) redisPendingKey (tTaskUID t) of
             (err, r) \<Rightarrow> (err, q1\<lparr>kRedis := r\<rparr>)))"

definition RedisQueue_Pop ::
    "go_time \<Rightarrow> 'r RedisQueue \<Rightarrow> duration \<Rightarrow> Task option result \<times> 'r RedisQueue" where
  "RedisQueue_Pop now q timeout =
     (case rq_ZPopMin (kRdb q) (kRedis q) redisPriorityKey of
        (Inl e, r) \<Rightarrow> (Inl e, q\<lparr>kRedis := r\<rparr>)
      | (Inr results, r) \<Rightarrow>
          (let q1 = q\<lparr>kRedis := r\<rparr> in
           if length results > 0 then (getTask q1 (results ! 0), q1)
           else
             (case rq_BRPop (kRdb q1) (kRedis q1) timeout redisPendingKey of
                (Inl e, r') \<Rightarrow>
                  (if e = ErrRedisNil then Inr None else Inl e, q1\<lparr>kRedis := r'\<rparr>)
              | (Inr uid, r') \<Rightarrow>
                  (let q2 = q1\<lparr>kRedis := r'\<rparr> in (getTask q2 uid, q2)))))"

definition RedisQueue_PushPriority ::
    "go_time \<Rightarrow> 'r RedisQueue \<Rightarrow> Task \<Rightarrow> error option \<times> 'r RedisQueue" where
  "RedisQueue_PushPriority now q t =
     (case storeTask q t of
        (Some e, q1) \<Rightarrow> (Some e, q1)
      | (None, q1) \<Rightarrow>
          (case rq_ZAdd (kRdb q1) (kRedis q1) redisPriorityKey
                  (fl64 (of_int (wrap64 (- tPriority t)))) (tTaskUID t) of
             (err, r) \<Rightarrow> (err, q1\<lparr>kRedis := r\<rparr>)))"

definition RedisQueue_PushDelayed ::
    "go_time \<Rightarrow> 'r RedisQueue \<Rightarrow> Task \<Rightarrow> duration \<Rightarrow> error option \<times> 'r RedisQueue" where
  "RedisQueue_PushDelayed now q t delay =
     (case storeTask q t of
        (Some e, q1) \<Rightarrow> (Some e, q1)
      | (None, q1) \<Rightarrow>
          (case rq_ZAdd (kRdb q1) (kRedis q1) redisDelayedKey
                  (fl64 (fl64 (of_int (Unix now)) + Seconds delay)) (tTaskUID t) of
             (err, r) \<Rightarrow> (err, q1\<lparr>kRedis := r\<rparr>)))"

definition RedisQueue_Ack :: "'r RedisQueue \<Rightarrow> string \<Rightarrow> error option \<times> 'r RedisQueue" where
  "RedisQueue_Ack q uid = (None, q)"

definition RedisQueue_Size :: "'r RedisQueue \<Rightarrow> int result" where
  "RedisQueue_Size q =
     (case rq_LLen (kRdb q) (kRedis q) redisPendingKey of Inl e \<Rightarrow> Inl e | Inr pending \<Rightarrow>
      case rq_ZCard (kRdb q) (kRedis q) redisPriorityKey of Inl e \<Rightarrow> Inl e | Inr priority \<Rightarrow>
      case rq_ZCard (kRdb q) (kRedis q) redisDelayedKey of Inl e \<Rightarrow> Inl e | Inr delayed \<Rightarrow>
      Inr (wrap64 (wrap64 (pending + priority) + delayed)))"

definition RedisQueue_Close :: "'r RedisQueue \<Rightarrow> error option \<times> 'r RedisQueue" where
  "RedisQueue_Close q =
     (if kClosed q then (None, q) else (rq_Close (kRdb q) (kRedis q), q\<lparr>kClosed := True\<rparr>))"

definition RedisTaskQueue :: "'r RedisQueue TaskQueue" where
  "RedisTaskQueue = \<lparr>
     q_Push = RedisQueue_Push,
     q_Pop = RedisQueue_Pop,
     q_PushPriority = RedisQueue_PushPriority,
     q_PushDelayed = RedisQueue_PushDelayed,
     q_Ack = RedisQueue_Ack,
     q_Size = RedisQueue_Size,
     q_Close = RedisQueue_Close\<rparr>"

section \<open>What Redis promises\<close>

text \<open>The content of Redis: its lists from left to right, its sorted sets, the documents.\<close>

record redis_content =
  cLists :: "string \<Rightarrow> string list"
  cSets :: "string \<Rightarrow> string \<rightharpoonup> rat"
  cDocs :: "string \<rightharpoonup> Task json"

definition set_list :: "string \<Rightarrow> string list \<Rightarrow> redis_content \<Rightarrow> redis_content" where
  "set_list k xs c = c\<lparr>cLists := (cLists c)(k := xs)\<rparr>"

definition set_zset :: "string \<Rightarrow> (string \<rightharpoonup> rat) \<Rightarrow> redis_content \<Rightarrow> redis_content" where
  "set_zset k z c = c\<lparr>cSets := (cSets c)(k := z)\<rparr>"

definition set_doc :: "string \<Rightarrow> Task json \<Rightarrow> redis_content \<Rightarrow> redis_content" where
  "set_doc k d c = c\<lparr>cDocs := (cDocs c)(k \<mapsto> d)\<rparr>"

lemma set_simps [simp]:
  "cLists (set_list k xs c) = (cLists c)(k := xs)" "cSets (set_list k xs c) = cSets c"
  "cDocs (set_list k xs c) = cDocs c" "cLists (set_zset k z c) = cLists c"
  "cSets (set_zset k z c) = (cSets c)(k := z)" "cDocs (set_zset k z c) = cDocs c"
  "cLists (set_doc k d c) = cLists c" "cSets (set_doc k d c) = cSets c"
  "cDocs (set_doc k d c) = (cDocs c)(k \<mapsto> d)"
  by (simp_all add: set_list_def set_zset_def set_doc_def)

text \<open>A command is executed, or its error comes with or without its effect.\<close>

definition executed :: "error option \<Rightarrow> redis_content \<Rightarrow> redis_content \<Rightarrow> redis_content \<Rightarrow> bool" where
  "executed err c c' new \<longleftrightarrow> c' = new \<or> (err \<noteq> None \<and> c' = c)"

text \<open>What may be popped: a member of the priority set of least score, and only when that set is empty
  the UID at the right end of the list.\<close>

definition next_uid :: "redis_content \<Rightarrow> string \<Rightarrow> bool" where
  "next_uid c u \<longleftrightarrow>
     (\<exists>x. cSets c redisPriorityKey u = Some x \<and> (\<forall>v y. cSets c redisPriorityKey v = Some y \<longrightarrow> x \<le> y)) \<or>
     (cSets c redisPriorityKey = Map.empty \<and> (\<exists>xs. cLists c redisPendingKey = xs @ [u]))"

locale redis_store =
  fixes R :: "'r redis_queue"
    and cont :: "'r \<Rightarrow> redis_content"
  assumes sets_finite: "finite (dom (cSets (cont r) k))"
    and range_ok: "rq_ZRangeByScore R r k lo hi = Inr us \<Longrightarrow> distinct us \<and>
      set us = {u. \<exists>x. cSets (cont r) k u = Some x \<and> lo \<le> x \<and> x \<le> hi}"
    and lpush: "rq_LPush R r k u = (err, r') \<Longrightarrow>
      executed err (cont r) (cont r') (set_list k (u # cLists (cont r) k) (cont r))"
    and zrem: "rq_ZRem R r k u = (err, r') \<Longrightarrow>
      executed err (cont r) (cont r') (set_zset k ((cSets (cont r) k)(u := None)) (cont r))"
    and setex: "rq_SetEx R r k doc ttl = (err, r') \<Longrightarrow>
      executed err (cont r) (cont r') (set_doc k doc (cont r))"
    and get_doc: "rq_Get R r k = Inr doc \<Longrightarrow> cDocs (cont r) k = Some doc"
    and zadd: "rq_ZAdd R r k x u = (err, r') \<Longrightarrow>
      executed err (cont r) (cont r') (set_zset k ((cSets (cont r) k)(u \<mapsto> x)) (cont r))"
    and zpop_some: "rq_ZPopMin R r k = (Inr us, r') \<Longrightarrow> us \<noteq> [] \<Longrightarrow>
      (\<exists>u x. us = [u] \<and> cSets (cont r) k u = Some x \<and> (\<forall>v y. cSets (cont r) k v = Some y \<longrightarrow> x \<le> y) \<and>
         cont r' = set_zset k ((cSets (cont r) k)(u := None)) (cont r))"
    and zpop_none: "rq_ZPopMin R r k = (Inr [], r') \<Longrightarrow> cSets (cont r) k = Map.empty \<and> cont r' = cont r"
    and zpop_err: "rq_ZPopMin R r k = (Inl e, r') \<Longrightarrow> cont r' = cont r \<or>
      (\<exists>u. cont r' = set_zset k ((cSets (cont r) k)(u := None)) (cont r))"
    and brpop_some: "rq_BRPop R r tmo k = (Inr u, r') \<Longrightarrow>
      (\<exists>xs. cLists (cont r) k = xs @ [u] \<and> cont r' = set_list k xs (cont r))"
    and brpop_err: "rq_BRPop R r tmo k = (Inl e, r') \<Longrightarrow> cont r' = cont r \<or>
      (e \<noteq> ErrRedisNil \<and> cont r' = set_list k (butlast (cLists (cont r) k)) (cont r))"
    and brpop_nil: "rq_BRPop R r tmo k = (Inl ErrRedisNil, r') \<Longrightarrow> cLists (cont r) k = []"
    and llen_ok: "rq_LLen R r k = Inr n \<Longrightarrow> n = int (length (cLists (cont r) k))"
    and zcard_ok: "rq_ZCard R r k = Inr n \<Longrightarrow> n = int (card (dom (cSets (cont r) k)))"
begin

text \<open>The UIDs in the two queues and in the delayed set; the documents are filed under their UIDs.\<close>

definition rq_ready :: "'r RedisQueue \<Rightarrow> string multiset" where
  "rq_ready q = mset (cLists (cont (kRedis q)) redisPendingKey) +
     mset_set (dom (cSets (cont (kRedis q)) redisPriorityKey))"

definition rq_waiting :: "'r RedisQueue \<Rightarrow> string multiset" where
  "rq_waiting q = mset_set (dom (cSets (cont (kRedis q)) redisDelayedKey))"

definition docs_ok :: "redis_content \<Rightarrow> bool" where
  "docs_ok c \<longleftrightarrow> (\<forall>u t. cDocs c (redisTaskKey u) = Some (Encoded t) \<longrightarrow> tTaskUID t = u)"

definition rq_inv :: "'r RedisQueue \<Rightarrow> bool" where
  "rq_inv q \<longleftrightarrow> kRdb q = R \<and> docs_ok (cont (kRedis q))"

lemma keys_differ [simp]:
  "redisPriorityKey \<noteq> redisDelayedKey" "redisDelayedKey \<noteq> redisPriorityKey"
  by (simp_all add: redisPriorityKey_def redisDelayedKey_def)

lemma redisTaskKey_inj: "redisTaskKey u = redisTaskKey w \<longleftrightarrow> u = w"
  by (simp add: redisTaskKey_def)

lemma storeTask_spec:
  assumes "rq_inv q" and "storeTask q t = (r, q1)"
  shows "rq_inv q1" "rq_ready q1 = rq_ready q" "rq_waiting q1 = rq_waiting q"
    "cLists (cont (kRedis q1)) = cLists (cont (kRedis q))" "cSets (cont (kRedis q1)) = cSets (cont (kRedis q))"
    "kClosed q1 = kClosed q"
proof -
  obtain r' where s: "rq_SetEx R (kRedis q) (redisTaskKey (tTaskUID t)) (Encoded t) taskTTL = (r, r')"
    and q1: "q1 = q\<lparr>kRedis := r'\<rparr>"
    using assms by (auto simp: storeTask_def json_Marshal_def rq_inv_def split: prod.splits)
  from setex [OF s] have c: "cont r' = cont (kRedis q) \<or>
      cont r' = set_doc (redisTaskKey (tTaskUID t)) (Encoded t) (cont (kRedis q))"
    by (auto simp: executed_def)
  then show l: "cLists (cont (kRedis q1)) = cLists (cont (kRedis q))"
    and z: "cSets (cont (kRedis q1)) = cSets (cont (kRedis q))"
    using q1 by auto
  show "rq_ready q1 = rq_ready q" "rq_waiting q1 = rq_waiting q"
    by (simp_all add: rq_ready_def rq_waiting_def l z)
  show "rq_inv q1"
    using c assms(1) q1 by (auto simp: rq_inv_def docs_ok_def redisTaskKey_inj split: if_splits)
  show "kClosed q1 = kClosed q" using q1 by simp
qed

lemma getTask_uid:
  assumes "rq_inv q" and "getTask q u = Inr (Some t)"
  shows "tTaskUID t = u"
proof -
  obtain doc where d: "rq_Get R (kRedis q) (redisTaskKey u) = Inr doc" "json_Unmarshal doc = Inr t"
    using assms by (auto simp: getTask_def rq_inv_def split: sum.splits if_splits)
  then have "doc = Encoded t" by (cases doc) auto
  with get_doc [OF d(1)] assms(1) show ?thesis by (simp add: rq_inv_def docs_ok_def)
qed

lemma rq_ready_cong:
  "cLists (cont (kRedis q')) redisPendingKey = cLists (cont (kRedis q)) redisPendingKey \<Longrightarrow>
   cSets (cont (kRedis q')) redisPriorityKey = cSets (cont (kRedis q)) redisPriorityKey \<Longrightarrow>
   rq_ready q' = rq_ready q"
  by (simp add: rq_ready_def)

text \<open>The multiset of a sorted set after an insertion and a removal.\<close>

lemma dom_insert_subset:
  "finite (dom z) \<Longrightarrow> mset_set (dom (z(u \<mapsto> x))) \<subseteq># add_mset u (mset_set (dom z))"
  by (cases "u \<in> dom z") (auto simp: insert_absorb)

lemma dom_remove:
  "finite (dom z) \<Longrightarrow> u \<in> dom z \<Longrightarrow> mset_set (dom z) = add_mset u (mset_set (dom (z(u := None))))"
  by (simp add: mset_set.remove)

lemma dom_remove_subset: "finite (dom z) \<Longrightarrow> mset_set (dom (z(u := None))) \<subseteq># mset_set (dom z)"
  by (auto intro: subset_imp_msubset_mset_set)

lemma rq_push:
  assumes "rq_inv q" and "RedisQueue_Push now q t = (r, q')"
  shows "rq_inv q' \<and> rq_ready q' \<subseteq># add_mset (tTaskUID t) (rq_ready q) \<and> rq_waiting q' = rq_waiting q"
proof -
  obtain e q1 where s: "storeTask q t = (e, q1)" by fastforce
  note s1 = storeTask_spec [OF assms(1) s]
  show ?thesis
  proof (cases e)
    case (Some e)
    with assms(2) s have "q' = q1" by (simp add: RedisQueue_Push_def)
    with s1 show ?thesis by simp
  next
    case None
    then obtain r' where l: "rq_LPush R (kRedis q1) redisPendingKey (tTaskUID t) = (r, r')"
      and q': "q' = q1\<lparr>kRedis := r'\<rparr>"
      using assms(2) s s1(1) by (auto simp: RedisQueue_Push_def rq_inv_def split: prod.splits)
    from lpush [OF l] s1 show ?thesis
      by (auto simp: q' executed_def rq_inv_def rq_ready_def rq_waiting_def docs_ok_def)
  qed
qed

lemma rq_push_priority:
  assumes "rq_inv q" and "RedisQueue_PushPriority now q t = (r, q')"
  shows "rq_inv q' \<and> rq_ready q' \<subseteq># add_mset (tTaskUID t) (rq_ready q) \<and> rq_waiting q' = rq_waiting q"
proof -
  obtain e q1 where s: "storeTask q t = (e, q1)" by fastforce
  note s1 = storeTask_spec [OF assms(1) s]
  show ?thesis
  proof (cases e)
    case (Some e)
    with assms(2) s have "q' = q1" by (simp add: RedisQueue_PushPriority_def)
    with s1 show ?thesis by simp
  next
    case None
    then obtain r' where l: "rq_ZAdd R (kRedis q1) redisPriorityKey
          (fl64 (of_int (wrap64 (- tPriority t)))) (tTaskUID t) = (r, r')"
      and q': "q' = q1\<lparr>kRedis := r'\<rparr>"
      using assms(2) s s1(1) by (auto simp: RedisQueue_PushPriority_def rq_inv_def split: prod.splits)
    let ?z = "cSets (cont (kRedis q1)) redisPriorityKey"
    let ?x = "fl64 (of_int (wrap64 (- tPriority t)))"
    have "rq_ready q' = rq_ready q1 \<or> rq_ready q' =
        mset (cLists (cont (kRedis q1)) redisPendingKey) + mset_set (dom (?z(tTaskUID t \<mapsto> ?x)))"
      using zadd [OF l] by (auto simp: q' executed_def rq_ready_def)
    moreover have "mset_set (dom (?z(tTaskUID t \<mapsto> ?x))) \<subseteq># add_mset (tTaskUID t) (mset_set (dom ?z))"
      by (rule dom_insert_subset [OF sets_finite])
    ultimately have "rq_ready q' \<subseteq># add_mset (tTaskUID t) (rq_ready q1)"
      by (auto simp: rq_ready_def simp del: dom_fun_upd)
    moreover from zadd [OF l] s1 have "rq_inv q'" "rq_waiting q' = rq_waiting q"
      by (auto simp: q' executed_def rq_inv_def rq_waiting_def docs_ok_def)
    ultimately show ?thesis using s1(2) by simp
  qed
qed

lemma rq_push_delayed:
  assumes "rq_inv q" and "RedisQueue_PushDelayed now q t d = (r, q')"
  shows "rq_inv q' \<and> rq_ready q' = rq_ready q \<and> rq_waiting q' \<subseteq># add_mset (tTaskUID t) (rq_waiting q)"
proof -
  obtain e q1 where s: "storeTask q t = (e, q1)" by fastforce
  note s1 = storeTask_spec [OF assms(1) s]
  show ?thesis
  proof (cases e)
    case (Some e)
    with assms(2) s have "q' = q1" by (simp add: RedisQueue_PushDelayed_def)
    with s1 show ?thesis by simp
  next
    case None
    let ?x = "fl64 (fl64 (of_int (Unix now)) + Seconds d)"
    from None obtain r' where l: "rq_ZAdd R (kRedis q1) redisDelayedKey ?x (tTaskUID t) = (r, r')"
      and q': "q' = q1\<lparr>kRedis := r'\<rparr>"
      using assms(2) s s1(1) by (auto simp: RedisQueue_PushDelayed_def rq_inv_def split: prod.splits)
    let ?z = "cSets (cont (kRedis q1)) redisDelayedKey"
    have "rq_waiting q' = rq_waiting q1 \<or> rq_waiting q' = mset_set (dom (?z(tTaskUID t \<mapsto> ?x)))"
      using zadd [OF l] by (auto simp: q' executed_def rq_waiting_def)
    moreover have "mset_set (dom (?z(tTaskUID t \<mapsto> ?x))) \<subseteq># add_mset (tTaskUID t) (mset_set (dom ?z))"
      by (rule dom_insert_subset [OF sets_finite])
    ultimately have "rq_waiting q' \<subseteq># add_mset (tTaskUID t) (rq_waiting q1)"
      by (auto simp: rq_waiting_def simp del: dom_fun_upd)
    moreover from zadd [OF l] s1 have "rq_inv q'" "rq_ready q' = rq_ready q"
      by (auto simp: q' executed_def rq_inv_def rq_ready_def docs_ok_def)
    ultimately show ?thesis using s1(3) by simp
  qed
qed

text \<open>One \<open>Pop\<close>: it takes a member of the priority set, or the right end of the list, or fails; what
  it took it reads.\<close>

lemma Pop_cases:
  assumes inv: "rq_inv q" and pop: "RedisQueue_Pop now q tmo = (p, q')"
  obtains (taken) u where "rq_inv q'" "rq_ready q = add_mset u (rq_ready q')"
      "rq_waiting q' = rq_waiting q" "p = getTask q' u" "next_uid (cont (kRedis q)) u"
    | (failed) "rq_inv q'" "rq_ready q' \<subseteq># rq_ready q" "rq_waiting q' = rq_waiting q"
      "\<forall>t. p \<noteq> Inr (Some t)" "p = Inr None \<Longrightarrow> rq_ready q = {#} \<and> rq_ready q' = {#}"
proof -
  let ?c = "cont (kRedis q)"
  obtain res r where z: "rq_ZPopMin R (kRedis q) redisPriorityKey = (res, r)" by fastforce
  have R: "kRdb q = R" using inv by (simp add: rq_inv_def)
  show thesis
  proof (cases res)
    case (Inl e)
    then have q': "q' = q\<lparr>kRedis := r\<rparr>" "p = Inl e" using pop z R by (auto simp: RedisQueue_Pop_def)
    have "rq_ready q' \<subseteq># rq_ready q"
      using zpop_err [OF z [unfolded Inl]] dom_remove_subset [OF sets_finite]
      by (auto simp: q' rq_ready_def simp del: dom_fun_upd)
    moreover have "rq_inv q'" "rq_waiting q' = rq_waiting q"
      using zpop_err [OF z [unfolded Inl]] inv by (auto simp: q' rq_inv_def rq_waiting_def docs_ok_def)
    ultimately show thesis using failed q' by simp
  next
    case (Inr us)
    show thesis
    proof (cases "us = []")
      case False
      from zpop_some [OF z [unfolded Inr] this] obtain u x where u: "us = [u]"
        "cSets ?c redisPriorityKey u = Some x" "\<forall>v y. cSets ?c redisPriorityKey v = Some y \<longrightarrow> x \<le> y"
        "cont r = set_zset redisPriorityKey ((cSets ?c redisPriorityKey)(u := None)) ?c" by blast
      have q': "q' = q\<lparr>kRedis := r\<rparr>" "p = getTask q' u"
        using pop z R Inr u(1) by (auto simp: RedisQueue_Pop_def Let_def)
      have "rq_ready q = add_mset u (rq_ready q')"
        using dom_remove [OF sets_finite, of u] u(2,4)
        by (auto simp: q'(1) rq_ready_def simp del: dom_fun_upd)
      moreover have "rq_inv q'" "rq_waiting q' = rq_waiting q"
        using u(4) inv by (auto simp: q'(1) rq_inv_def rq_waiting_def docs_ok_def)
      moreover have "next_uid ?c u" using u(2,3) unfolding next_uid_def by blast
      ultimately show thesis using taken q'(2) by blast
    next
      case True
      note zn = zpop_none [OF z [unfolded Inr True]]
      obtain b r' where b: "rq_BRPop R r tmo redisPendingKey = (b, r')" by fastforce
      show thesis
      proof (cases b)
        case (Inl e)
        then have q': "q' = q\<lparr>kRedis := r'\<rparr>" "p = (if e = ErrRedisNil then Inr None else Inl e)"
          using pop z R Inr True b by (auto simp: RedisQueue_Pop_def Let_def)
        have mset_butlast: "mset (butlast xs) \<subseteq># mset xs" for xs :: "string list"
          by (metis append_butlast_last_id butlast.simps(1) mset_append mset_subset_eq_add_left subset_mset.refl)
        note e = brpop_err [OF b [unfolded Inl]]
        have "rq_ready q' \<subseteq># rq_ready q" "rq_inv q'" "rq_waiting q' = rq_waiting q"
          using e zn inv mset_butlast by (auto simp: q'(1) rq_ready_def rq_inv_def rq_waiting_def docs_ok_def)
        moreover have "rq_ready q = {#} \<and> rq_ready q' = {#}" if "p = Inr None"
        proof -
          have "e = ErrRedisNil" using that q'(2) by (auto split: if_splits)
          with brpop_nil b Inl have "cLists (cont r) redisPendingKey = []" by blast
          with zn have "rq_ready q = {#}" by (simp add: rq_ready_def)
          with calculation(1) show ?thesis by simp
        qed
        ultimately show thesis using failed q'(2) by auto
      next
        case u: (Inr u)
        then have q': "q' = q\<lparr>kRedis := r'\<rparr>" "p = getTask q' u"
          using pop z R Inr True b by (auto simp: RedisQueue_Pop_def Let_def)
        from brpop_some [OF b [unfolded u]] zn obtain xs where
          "cLists ?c redisPendingKey = xs @ [u]" "cont r' = set_list redisPendingKey xs ?c" by auto
        then have "rq_ready q = add_mset u (rq_ready q')" "rq_inv q'" "rq_waiting q' = rq_waiting q"
          "next_uid ?c u"
          using inv zn by (auto simp: q'(1) rq_ready_def rq_inv_def rq_waiting_def docs_ok_def next_uid_def)
        then show thesis using taken q'(2) by blast
      qed
    qed
  qed
qed

end

lemma RedisTaskQueue_sel [simp]:
  "q_Push RedisTaskQueue = RedisQueue_Push"
  "q_Pop RedisTaskQueue = RedisQueue_Pop"
  "q_PushPriority RedisTaskQueue = RedisQueue_PushPriority"
  "q_PushDelayed RedisTaskQueue = RedisQueue_PushDelayed"
  "q_Size RedisTaskQueue = RedisQueue_Size"
  by (simp_all add: RedisTaskQueue_def)

sublocale redis_store \<subseteq> rq: task_queue RedisTaskQueue rq_inv rq_ready rq_waiting
proof (unfold_locales, goal_cases)
  case (1 q now t r q')
  then show ?case using rq_push by simp
next
  case (2 q now t r q')
  then show ?case using rq_push_priority by simp
next
  case (3 q now t d r q')
  then show ?case using rq_push_delayed by simp
next
  case (4 q now d t q')
  then have "rq_inv q" "RedisQueue_Pop now q d = (Inr (Some t), q')" by simp_all
  then show ?case
  proof (cases rule: Pop_cases)
    case (taken u)
    with getTask_uid [of q' u t] show ?thesis by simp
  qed simp
next
  case (5 q now d p q')
  then have "rq_inv q" "RedisQueue_Pop now q d = (p, q')" by simp_all
  then show ?case by (cases rule: Pop_cases) simp_all
qed

section \<open>Delayed tasks\<close>

context redis_store
begin

lemma is_task_queue: "task_queue RedisTaskQueue rq_inv rq_ready rq_waiting"
  by unfold_locales

definition moved :: "string list \<Rightarrow> redis_content \<Rightarrow> redis_content" where
  "moved us c = set_list redisPendingKey (rev us @ cLists c redisPendingKey)
     (set_zset redisDelayedKey (cSets c redisDelayedKey |` (- set us)) c)"

lemma moved_Cons: "moved us (moved [u] c) = moved (u # us) c"
proof (rule redis_content.equality)
  show "cSets (moved us (moved [u] c)) = cSets (moved (u # us) c)"
    by (rule ext) (simp add: moved_def restrict_map_def fun_eq_iff)
qed (simp_all add: moved_def)

lemma move_due_moved:
  assumes up: "\<And>r k u. fst (rq_LPush R r k u) = None" "\<And>r k u. fst (rq_ZRem R r k u) = None"
  shows "kRdb q = R \<Longrightarrow> kRdb (move_due us q) = R \<and> cont (kRedis (move_due us q)) = moved us (cont (kRedis q))"
proof (induction us arbitrary: q)
  case Nil
  have "moved [] c = c" for c by (simp add: moved_def set_list_def set_zset_def restrict_map_def)
  with Nil show ?case by simp
next
  case (Cons u us)
  obtain r where l: "rq_LPush R (kRedis q) redisPendingKey u = (None, r)"
    using up(1) [of "kRedis q" redisPendingKey u] by (metis prod.collapse)
  obtain r' where z: "rq_ZRem R r redisDelayedKey u = (None, r')"
    using up(2) [of r redisDelayedKey u] by (metis prod.collapse)
  have "cont r' = moved [u] (cont (kRedis q))"
    using lpush [OF l] zrem [OF z]
    by (auto simp: executed_def moved_def set_list_def set_zset_def restrict_map_def fun_eq_iff)
  with Cons.IH [of "q\<lparr>kRedis := r'\<rparr>"] Cons.prems l z show ?case by (simp add: moved_Cons)
qed

end

section \<open>A Redis in memory\<close>

text \<open>No command fails, and nothing expires but the documents that \<open>mrExpired\<close> lists.\<close>

record mem_rq =
  mrLists :: "(string \<times> string list) list"
  mrSets :: "(string \<times> (string \<times> rat) list) list"
  mrDocs :: "(string \<times> Task json) list"
  mrExpired :: "string list"

definition mr_list :: "mem_rq \<Rightarrow> string \<Rightarrow> string list" where
  "mr_list r k = (case map_of (mrLists r) k of None \<Rightarrow> [] | Some xs \<Rightarrow> xs)"

definition mr_set :: "mem_rq \<Rightarrow> string \<Rightarrow> (string \<times> rat) list" where
  "mr_set r k = (case map_of (mrSets r) k of None \<Rightarrow> [] | Some xs \<Rightarrow> AList.clearjunk xs)"

definition mem_redis_queue :: "mem_rq redis_queue" where
  "mem_redis_queue = \<lparr>
     rq_ZRangeByScore = (\<lambda>r k lo hi. Inr (map fst (filter (\<lambda>(u, x). lo \<le> x \<and> x \<le> hi) (mr_set r k)))),
     rq_LPush = (\<lambda>r k u. (None, r\<lparr>mrLists := AList.update k (u # mr_list r k) (mrLists r)\<rparr>)),
     rq_ZRem = (\<lambda>r k u. (None, r\<lparr>mrSets := AList.update k (AList.delete u (mr_set r k)) (mrSets r)\<rparr>)),
     rq_SetEx = (\<lambda>r k d ttl. (None, r\<lparr>mrDocs := AList.update k d (mrDocs r)\<rparr>)),
     rq_Get = (\<lambda>r k. if List.member (mrExpired r) k then Inl ErrRedisNil else
        (case map_of (mrDocs r) k of None \<Rightarrow> Inl ErrRedisNil | Some d \<Rightarrow> Inr d)),
     rq_ZPopMin = (\<lambda>r k. case sort_key snd (mr_set r k) of
        [] \<Rightarrow> (Inr [], r)
      | (u, x) # rest \<Rightarrow> (Inr [u], r\<lparr>mrSets := AList.update k (AList.delete u (mr_set r k)) (mrSets r)\<rparr>)),
     rq_BRPop = (\<lambda>r d k. case mr_list r k of
        [] \<Rightarrow> (Inl ErrRedisNil, r)
      | xs \<Rightarrow> (Inr (last xs), r\<lparr>mrLists := AList.update k (butlast xs) (mrLists r)\<rparr>)),
     rq_ZAdd = (\<lambda>r k x u. (None, r\<lparr>mrSets := AList.update k (AList.update u x (mr_set r k)) (mrSets r)\<rparr>)),
     rq_LLen = (\<lambda>r k. Inr (int (length (mr_list r k)))),
     rq_ZCard = (\<lambda>r k. Inr (int (length (mr_set r k)))),
     rq_Close = (\<lambda>r. None)\<rparr>"

definition mem_content :: "mem_rq \<Rightarrow> redis_content" where
  "mem_content r = \<lparr>cLists = mr_list r, cSets = (\<lambda>k. map_of (mr_set r k)), cDocs = map_of (mrDocs r)\<rparr>"

lemma distinct_mr_set: "distinct (map fst (mr_set r k))"
  by (simp add: mr_set_def distinct_clearjunk split: option.split)

lemma mr_list_update: "mr_list (r\<lparr>mrLists := AList.update k xs (mrLists r)\<rparr>) = (mr_list r)(k := xs)"
  by (simp add: mr_list_def update_conv' fun_eq_iff)

lemma mr_set_update:
  "(\<lambda>j. map_of (mr_set (r\<lparr>mrSets := AList.update k z (mrSets r)\<rparr>) j)) =
   (\<lambda>j. map_of (mr_set r j))(k := map_of z)"
  by (auto simp: mr_set_def update_conv' map_of_clearjunk fun_eq_iff)

lemma mr_other [simp]:
  "mr_list (r\<lparr>mrSets := a\<rparr>) = mr_list r" "mr_list (r\<lparr>mrDocs := b\<rparr>) = mr_list r"
  "mr_set (r\<lparr>mrLists := c\<rparr>) = mr_set r" "mr_set (r\<lparr>mrDocs := b\<rparr>) = mr_set r"
  by (simp_all add: mr_list_def mr_set_def fun_eq_iff)

lemma mem_content_list:
  "mem_content (r\<lparr>mrLists := AList.update k xs (mrLists r)\<rparr>) = set_list k xs (mem_content r)"
  by (simp add: mem_content_def set_list_def mr_list_update)

lemma mem_content_zset:
  "mem_content (r\<lparr>mrSets := AList.update k z (mrSets r)\<rparr>) = set_zset k (map_of z) (mem_content r)"
  by (simp add: mem_content_def set_zset_def mr_set_update)

lemma mem_content_doc:
  "mem_content (r\<lparr>mrDocs := AList.update k d (mrDocs r)\<rparr>) = set_doc k d (mem_content r)"
  by (simp add: mem_content_def set_doc_def update_conv')

lemma mem_content_sel [simp]:
  "cLists (mem_content r) = mr_list r" "cSets (mem_content r) k = map_of (mr_set r k)"
  "cDocs (mem_content r) = map_of (mrDocs r)"
  by (simp_all add: mem_content_def)

lemmas mem_content_simps = mem_content_list mem_content_zset mem_content_doc update_conv' delete_conv'

interpretation rmem: redis_store mem_redis_queue mem_content
proof (unfold_locales, goal_cases)
  case (1 r k)
  show ?case by (simp add: finite_dom_map_of)
next
  case (2 r k lo hi us)
  then have us: "us = map fst (filter (\<lambda>(u, x). lo \<le> x \<and> x \<le> hi) (mr_set r k))"
    by (simp add: mem_redis_queue_def)
  have "distinct us" unfolding us by (rule distinct_map_filter [OF distinct_mr_set])
  moreover have "u \<in> set us \<longleftrightarrow> (\<exists>x. map_of (mr_set r k) u = Some x \<and> lo \<le> x \<and> x \<le> hi)" for u
    using distinct_mr_set [of r k] by (auto simp: us image_iff)
  ultimately show ?case by auto
next
  case (3 r k u err r')
  then show ?case by (auto simp: mem_redis_queue_def executed_def mem_content_simps)
next
  case (4 r k u err r')
  then show ?case by (auto simp: mem_redis_queue_def executed_def mem_content_simps)
next
  case (5 r k d ttl err r')
  then show ?case by (auto simp: mem_redis_queue_def executed_def mem_content_simps)
next
  case (6 r k d)
  then show ?case by (auto simp: mem_redis_queue_def split: if_splits option.splits)
next
  case (7 r k x u err r')
  then show ?case by (auto simp: mem_redis_queue_def executed_def mem_content_simps)
next
  case (8 r k us r')
  then obtain u x rest where s: "sort_key snd (mr_set r k) = (u, x) # rest"
    and r': "us = [u]" "r' = r\<lparr>mrSets := AList.update k (AList.delete u (mr_set r k)) (mrSets r)\<rparr>"
    by (auto simp: mem_redis_queue_def split: list.splits prod.splits)
  have set: "set (mr_set r k) = set ((u, x) # rest)" by (simp flip: s)
  then have u: "map_of (mr_set r k) u = Some x"
    using distinct_mr_set [of r k] by auto
  have "sorted (map snd ((u, x) # rest))" unfolding s [symmetric] by simp
  then have "x \<le> y" if "map_of (mr_set r k) v = Some y" for v y
    using map_of_SomeD [OF that] by (auto simp: set)
  with u r' show ?case by (simp add: mem_content_simps)
next
  case (9 r k r')
  then have "sort_key snd (mr_set r k) = []" "r' = r"
    by (auto simp: mem_redis_queue_def split: list.splits prod.splits)
  then show ?case by (metis map_of.simps(1) mem_content_sel(2) length_0_conv length_sort)
next
  case (10 r k e r')
  then show ?case by (auto simp: mem_redis_queue_def split: list.splits prod.splits)
next
  case (11 r tmo k u r')
  then show ?case
    by (auto simp: mem_redis_queue_def mem_content_simps split: list.splits intro!: exI [of _ "butlast (mr_list r k)"])
next
  case (12 r tmo k e r')
  then show ?case by (auto simp: mem_redis_queue_def split: list.splits)
next
  case (13 r tmo k r')
  then show ?case by (auto simp: mem_redis_queue_def split: list.splits)
next
  case (14 r k n)
  then show ?case by (simp add: mem_redis_queue_def)
next
  case (15 r k n)
  have "card (dom (map_of (mr_set r k))) = length (mr_set r k)"
    using distinct_mr_set [of r k] by (metis distinct_card dom_map_of_conv_image_fst length_map set_map)
  with 15 show ?case by (simp add: mem_redis_queue_def)
qed

section \<open>Properties\<close>

definition demo_redis :: "mem_rq RedisQueue" where
  "demo_redis = NewRedisQueue mem_redis_queue
     \<lparr>mrLists = [], mrSets = [], mrDocs = [], mrExpired = [''tasks:task:old'']\<rparr>"

definition demo_queued :: "mem_rq RedisQueue" where
  "demo_queued = (let put = (\<lambda>u p q. snd (RedisQueue_PushPriority 0 q ((NewTask u 0 ''n'' ''c'')\<lparr>tPriority := p\<rparr>)))
     in put ''low'' 1 (put ''old'' 9 (put ''high'' 5
        (snd (RedisQueue_Push 0 demo_redis (NewTask ''plain'' 0 ''n'' ''c''))))))"

text \<open>
  C30. \<open>Pop\<close> of the Redis queue, on every outcome. A task it returns was the next one: of the priority
  set a member of least score (of highest priority), and only when that set is empty the task at
  the right end of the list, the oldest; its UID is taken out and nothing else. No task and no error means that there was
  nothing to pop, or that the next task was taken out and its document has expired: that task is
  lost and the caller sees an empty queue, although others may wait. An error loses at most one task.
\<close>

theorem RedisQueue_Pop_outcome:
  assumes rs: "redis_store R cont" and inv: "redis_store.rq_inv R cont q"
    and pop: "RedisQueue_Pop now q timeout = (p, q')"
  shows "redis_store.rq_inv R cont q' \<and> redis_store.rq_waiting cont q' = redis_store.rq_waiting cont q \<and>
    (case p of
       Inr (Some t) \<Rightarrow> redis_store.rq_ready cont q = add_mset (tTaskUID t) (redis_store.rq_ready cont q') \<and>
         next_uid (cont (kRedis q)) (tTaskUID t)
     | Inr None \<Rightarrow> (redis_store.rq_ready cont q = {#} \<and> redis_store.rq_ready cont q' = {#}) \<or>
         (\<exists>u. redis_store.rq_ready cont q = add_mset u (redis_store.rq_ready cont q') \<and>
            next_uid (cont (kRedis q)) u \<and> rq_Get R (kRedis q') (redisTaskKey u) = Inl ErrRedisNil)
     | Inl e \<Rightarrow> redis_store.rq_ready cont q' \<subseteq># redis_store.rq_ready cont q)"
proof (cases rule: redis_store.Pop_cases [OF rs inv pop, case_names taken failed])
  case (taken u)
  show ?thesis
  proof (cases p)
    case (Inl e)
    have "redis_store.rq_ready cont q' \<subseteq># redis_store.rq_ready cont q" using taken(2) by simp
    with taken(1,3) Inl show ?thesis by simp
  next
    case (Inr r)
    show ?thesis
    proof (cases r)
      case None
      have "rq_Get R (kRedis q') (redisTaskKey u) = Inl ErrRedisNil"
        using taken(1,4) Inr None redis_store.rq_inv_def [OF rs]
        by (auto simp: getTask_def split: sum.splits if_splits)
      with taken(1-3,5) Inr None show ?thesis by auto
    next
      case (Some t)
      with redis_store.getTask_uid [OF rs taken(1), of u t] taken(4) Inr have "tTaskUID t = u" by simp
      with taken(1-3,5) Inr Some show ?thesis by simp
    qed
  qed
next
  case failed
  then show ?thesis by (cases p) (auto split: option.split)
qed

theorem RedisQueue_Pop_outcome_witness:
  "\<exists>q1 q2 t. RedisQueue_Pop 0 demo_queued (100 * Millisecond) = (Inr None, q1) \<and>
     RedisQueue_Pop 0 q1 (100 * Millisecond) = (Inr (Some t), q2) \<and> tTaskUID t = ''high'' \<and>
     next_uid (mem_content (kRedis q1)) ''high''"
proof -
  let ?p1 = "RedisQueue_Pop 0 demo_queued (100 * Millisecond)"
  let ?p2 = "RedisQueue_Pop 0 (snd ?p1) (100 * Millisecond)"
  have 1: "map_sum (\<lambda>_. ()) (map_option tTaskUID) (fst ?p1) = Inr None" by code_simp
  have 2: "map_sum (\<lambda>_. ()) (map_option tTaskUID) (fst ?p2) = Inr (Some ''high'')" by code_simp
  from 1 have p1: "?p1 = (Inr None, snd ?p1)" by (cases "fst ?p1") (auto simp: prod_eq_iff)
  from 2 obtain t where p2: "?p2 = (Inr (Some t), snd ?p2)" and t: "tTaskUID t = ''high''"
    by (cases "fst ?p2") (auto simp: prod_eq_iff)
  have inv0: "rmem.rq_inv demo_redis"
    by (simp add: rmem.rq_inv_def demo_redis_def NewRedisQueue_def rmem.docs_ok_def)
  have push: "rmem.rq_inv (snd (RedisQueue_PushPriority 0 q x))" "rmem.rq_inv (snd (RedisQueue_Push 0 q x))"
    if "rmem.rq_inv q" for q x
    using rmem.rq_push_priority [OF that prod.collapse [symmetric]] rmem.rq_push [OF that prod.collapse [symmetric]]
    by blast+
  have inv: "rmem.rq_inv demo_queued"
    by (simp add: demo_queued_def Let_def push inv0)
  have "rmem.rq_inv (snd ?p1)"
    using RedisQueue_Pop_outcome [OF rmem.redis_store_axioms inv p1] by blast
  from RedisQueue_Pop_outcome [OF rmem.redis_store_axioms this p2] t
  show ?thesis using p1 p2 by auto
qed

text \<open>
  When no command fails, one run over the delayed tasks moves exactly the due ones, those whose
  score is between 0 and the current Unix time: each goes once to the left end of the normal
  queue, in the order in which the range was read, and out of the delayed set; nothing else
  changes.
\<close>

lemma moveDueDelayed_outcome:
  assumes rs: "redis_store R cont" and R: "kRdb q = R"
    and up: "\<And>r k u. fst (rq_LPush R r k u) = None" "\<And>r k u. fst (rq_ZRem R r k u) = None"
  shows "case rq_ZRangeByScore R (kRedis q) redisDelayedKey 0 (of_int (Unix now)) of
      Inl e \<Rightarrow> moveDueDelayed now q = q
    | Inr us \<Rightarrow>
        distinct us \<and>
        (\<forall>u. u \<in> set us \<longleftrightarrow> (\<exists>x. cSets (cont (kRedis q)) redisDelayedKey u = Some x \<and>
           0 \<le> x \<and> x \<le> of_int (Unix now))) \<and>
        cont (kRedis (moveDueDelayed now q)) =
          set_list redisPendingKey (rev us @ cLists (cont (kRedis q)) redisPendingKey)
            (set_zset redisDelayedKey (cSets (cont (kRedis q)) redisDelayedKey |` (- set us)) (cont (kRedis q)))"
proof (cases "rq_ZRangeByScore R (kRedis q) redisDelayedKey 0 (of_int (Unix now))")
  case (Inl e)
  with R show ?thesis by (simp add: moveDueDelayed_def)
next
  case (Inr us)
  with redis_store.range_ok [OF rs Inr] redis_store.move_due_moved [OF rs up R, of us] R
  show ?thesis by (simp add: moveDueDelayed_def redis_store.moved_def [OF rs])
qed

lemma moveDueDelayed_outcome_witness:
  "case snd (RedisQueue_PushDelayed 0 (snd (RedisQueue_PushDelayed 0 demo_redis (NewTask ''a'' 0 ''n'' ''c'') Second))
       (NewTask ''b'' 0 ''n'' ''c'') (9 * Second)) of q \<Rightarrow>
     cLists (mem_content (kRedis (moveDueDelayed (3 * Second) q))) redisPendingKey = [''a''] \<and>
     cSets (mem_content (kRedis (moveDueDelayed (3 * Second) q))) redisDelayedKey ''a'' = None"
proof -
  let ?q = "snd (RedisQueue_PushDelayed 0 (snd (RedisQueue_PushDelayed 0 demo_redis
      (NewTask ''a'' 0 ''n'' ''c'') Second)) (NewTask ''b'' 0 ''n'' ''c'') (9 * Second))"
  have R: "kRdb ?q = mem_redis_queue"
    by (simp add: RedisQueue_PushDelayed_def storeTask_def json_Marshal_def demo_redis_def NewRedisQueue_def
        mem_redis_queue_def)
  have range: "rq_ZRangeByScore mem_redis_queue (kRedis ?q) redisDelayedKey 0 (of_int (Unix (3 * Second)))
      = Inr [''a'']"
    by code_simp
  have empty: "mr_list (kRedis ?q) redisPendingKey = []" by code_simp
  have up: "fst (rq_LPush mem_redis_queue r k u) = None" "fst (rq_ZRem mem_redis_queue r k u) = None" for r k u
    by (simp_all add: mem_redis_queue_def)
  from moveDueDelayed_outcome [OF rmem.redis_store_axioms R up, of "3 * Second"] range empty
  show ?thesis by (simp add: redisPendingKey_def redisDelayedKey_def)
qed

end
