(* ===== verification/System_Props.thy ===== *)
theory System_Props
  imports Leader_Election Task_Service Agent_Server Redis_Queue
begin

text \<open>
  Properties that span components: the node manager as the node source of the scheduler, the
  scheduler over the Redis queue, and the way of a task from its creation through the service
  into the scheduler, with and without a cancellation on the way.
\<close>

section \<open>Node manager and scheduler\<close>

lemma SelectNode_candidate:
  assumes "sorts_by_usage sorting" and "SelectNode sorting s t = Inr (Some n)"
    and "sNodeMgr s = Some mgr"
  shows "n \<in> set (mgr (tNodeSelector t))" and "nodeFits t n"
proof -
  let ?fit = "filter (nodeFits t) (mgr (tNodeSelector t))"
  have "?fit \<noteq> []" "n = hd (sorting ?fit)"
    using assms(2,3) by (auto simp: SelectNode_def filterNodes_filter Let_def split: if_splits)
  with hd_sorting(1) [OF assms(1), of ?fit] show "n \<in> set (mgr (tNodeSelector t))" "nodeFits t n"
    by auto
qed

text \<open>
  C27. A task goes only to a node that wants it: with the node manager as its node source, whatever
  node the scheduler selects is in the manager's cache, is online there (not drained and not
  offline), carries for every entry \<open>k = v\<close> of the task's selector one of the labels \<open>k=v\<close>, \<open>v\<close> or
  \<open>k\<close>, and has the CPUs and the memory the task asks for free by its last report.
\<close>

theorem selection_respects_manager:
  assumes "sorts_by_usage sorting"
    and "SelectNode sorting (SetNodeManager s (FindByLabels m)) t = Inr (Some n)"
  shows "n \<in> snd ` set (mOnlineNodes m) \<and> nStatus n = NodeStatusOnline \<and>
    list_all (\<lambda>(k, v). set (nLabels n) \<inter> {k @ ''='' @ v, v, k} \<noteq> {}) (tNodeSelector t) \<and>
    (tCPULimit t = 0 \<or> tCPULimit t \<le> nodeAvailableCPU n) \<and>
    (tMemoryLimit t = 0 \<or> tMemoryLimit t \<le> nodeAvailableMem n)"
proof -
  have mgr: "sNodeMgr (SetNodeManager s (FindByLabels m)) = Some (FindByLabels m)"
    by (simp add: SetNodeManager_def)
  note c = SelectNode_candidate [OF assms mgr]
  from c(1) have "n \<in> set (map snd (mOnlineNodes m))" "IsSchedulable n" "selector_match n (tNodeSelector t)"
    by (auto simp: FindByLabels_def find_by_labels_append)
  with c(2) show ?thesis by (simp add: nodeFits_def IsSchedulable_def selector_match_iff)
qed

theorem selection_respects_manager_witness:
  "\<exists>n. SelectNode sortSlice (SetNodeManager demo_sched
       (FindByLabels (snd (Register ''n1'' 1 demo_register demo_manager))))
       ((demo_task ''a'')\<lparr>tNodeSelector := [(''zone'', ''a'')]\<rparr>) = Inr (Some n) \<and>
     nNodeID n = ''n1'' \<and> nStatus n = NodeStatusOnline"
proof -
  let ?m = "snd (Register ''n1'' 1 demo_register demo_manager)"
  let ?t = "(demo_task ''a'')\<lparr>tNodeSelector := [(''zone'', ''a'')]\<rparr>"
  have "map_sum (\<lambda>_. ()) (map_option nNodeID)
      (SelectNode sortSlice (SetNodeManager demo_sched (FindByLabels ?m)) ?t) = Inr (Some ''n1'')"
    by code_simp
  then obtain n where "SelectNode sortSlice (SetNodeManager demo_sched (FindByLabels ?m)) ?t = Inr (Some n)"
    "nNodeID n = ''n1''"
    by (cases "SelectNode sortSlice (SetNodeManager demo_sched (FindByLabels ?m)) ?t") auto
  with selection_respects_manager [OF sortSlice_sorts this(1)] show ?thesis by blast
qed

section \<open>The scheduler over the Redis queue\<close>


definition demo_redis_sched :: "(task_row list, mem_rq RedisQueue, unit, unit) Scheduler" where
  "demo_redis_sched = NewScheduler (NewTaskStore mem_pg)
     (snd (TaskStore_Create mem_pg [] (demo_task ''a''))) Second 4 None ()
     (Some RedisTaskQueue) (snd (RedisQueue_Push 6 demo_redis (demo_task ''a''))) None () 0 ''0123456789'' 3"


section \<open>From the service into the scheduler\<close>

text \<open>Without etcd and node manager a dispatched task runs here, whatever its row says.\<close>

context scheduler_env
begin

lemma dispatchLocal_runs:
  assumes S: "sStore s = S" and up: "store_up S view" and row: "view (sDB s) (tTaskUID t) = Some old"
    and p: "tStatus t = TaskStatusPending"
  shows "\<exists>r t'. view (sDB (dispatchLocal now s t)) = (view (sDB s))(tTaskUID t \<mapsto> r) \<and>
    tStatus r = TaskStatusRunning \<and> tTaskUID t' = tTaskUID t \<and>
    sGoroutines (dispatchLocal now s t) = sGoroutines s @ [(sNextCtx s, t')]"
proof -
  let ?t = "t\<lparr>tStatus := TaskStatusRunning, tUpdatedAt := now, tStartedAt := Some now\<rparr>"
  have tr: "TransitionTo now t TaskStatusRunning = Inr (t\<lparr>tStatus := TaskStatusRunning, tUpdatedAt := now\<rparr>)"
    using p by (simp add: TransitionTo_iff lifecycle.start)
  obtain t' db where u: "ts_Update S now (sDB s) ?t = (None, t', db)"
    using up by (metis prod.collapse store_up_def)
  have d: "dispatchLocal now s t =
      spawnLocal (registerCancel (s\<lparr>sDB := db\<rparr>) (tTaskUID t')) (sNextCtx s) t'"
    using tr u S by (simp add: dispatchLocal_def storeUpdate_def)
  have "view db = (view (sDB s))(tTaskUID t \<mapsto> stored_task rnd old (?t\<lparr>tUpdatedAt := now\<rparr>))"
    using update_up [OF up, of "sDB s" ?t old now] row u by simp
  moreover have "tTaskUID t' = tTaskUID t" using update_task [OF u] by simp
  ultimately show ?thesis
    by (intro exI [of _ "stored_task rnd old (?t\<lparr>tUpdatedAt := now\<rparr>)"] exI [of _ t'])
      (simp add: d spawnLocal_def registerCancel_def stored_task_def)
qed

lemma dispatch_runs:
  assumes S: "sStore s = S" and up: "store_up S view" and row: "view (sDB s) (tTaskUID t) = Some old"
    and alone: "sEtcd s = None" "sNodeMgr s = None"
    and st: "tStatus t = TaskStatusCreated \<or> tStatus t = TaskStatusPending"
  shows "\<exists>r t'. view (sDB (dispatch sorting now s t)) = (view (sDB s))(tTaskUID t \<mapsto> r) \<and>
    tStatus r = TaskStatusRunning \<and> tTaskUID t' = tTaskUID t \<and>
    sGoroutines (dispatch sorting now s t) = sGoroutines s @ [(sNextCtx s, t')]"
  using st
proof
  assume p: "tStatus t = TaskStatusPending"
  have "dispatch sorting now s t = dispatchLocal now s t"
    using alone p by (simp add: dispatch_def ClaimTask_def SelectNode_def)
  with dispatchLocal_runs [OF S up row p] show ?thesis by simp
next
  assume c: "tStatus t = TaskStatusCreated"
  let ?t = "t\<lparr>tStatus := TaskStatusPending, tUpdatedAt := now\<rparr>"
  have tr: "TransitionTo now t TaskStatusPending = Inr ?t"
    using c by (simp add: TransitionTo_iff lifecycle.enqueue)
  obtain t2 db where u: "ts_Update S now (sDB s) ?t = (None, t2, db)"
    using up by (metis prod.collapse store_up_def)
  have t2: "tTaskUID t2 = tTaskUID t" "tStatus t2 = TaskStatusPending" using update_task [OF u] by simp_all
  let ?s = "s\<lparr>sDB := db\<rparr>"
  have d: "dispatch sorting now s t = dispatchLocal now ?s t2"
    using alone c tr u S by (simp add: dispatch_def ClaimTask_def SelectNode_def storeUpdate_def Let_def)
  have v: "view db = (view (sDB s))(tTaskUID t \<mapsto> stored_task rnd old (?t\<lparr>tUpdatedAt := now\<rparr>))"
    using update_up [OF up, of "sDB s" ?t old now] row u by simp
  then have "view (sDB ?s) (tTaskUID t2) = Some (stored_task rnd old (?t\<lparr>tUpdatedAt := now\<rparr>))"
    by (simp add: t2)
  from dispatchLocal_runs [OF _ up this t2(2), of now] S show ?thesis
    by (auto simp: d t2 v)
qed

end


definition demo_cancel :: "(task_row list, InMemQueue, unit, unit) Scheduler" where
  "demo_cancel = demo_sched\<lparr>sDB := vDB (snd (CancelTask 8 (NewTaskService (NewTaskStore mem_pg)
     (sDB demo_sched) (None :: unit redis_svc option) () (Some InMemTaskQueue) (sQ demo_sched)) ''a''))\<rparr>"


text \<open>The in-memory queue after a creation.\<close>

lemma CreateTask_ready:
  assumes "vQueue v = Some InMemTaskQueue" and "queue_inv (vQ v)" and "CreateTask uuid now req v = (Inr t, v')"
  shows "queue_inv (vQ v')" and "queue_ready (vQ v') = add_mset t (queue_ready (vQ v))"
proof -
  have "queue_inv (vQ v') \<and> queue_ready (vQ v') = add_mset t (queue_ready (vQ v))"
  proof (cases rule: CreateTask_cases [of v uuid now req])
    case (created s1 t' db' s'')
    then have e: "t' = t" "s'' = v'" using assms(3) by simp_all
    show ?thesis
    proof (cases "tPriority t > 0")
      case True
      then have "vQ v' = snd (InMemQueue_PushPriority now (vQ v) t)"
        using created(6) assms(1) by (simp add: e)
      with PushPriority_spec [OF assms(2), of now t, OF prod.collapse [symmetric]] show ?thesis by simp
    next
      case False
      then have "vQ v' = snd (InMemQueue_Push now (vQ v) t)"
        using created(6) assms(1) by (simp add: e)
      with Push_spec [OF assms(2), of now t, OF prod.collapse [symmetric]] show ?thesis by simp
    qed
  qed (use assms(3) in simp_all)
  then show "queue_inv (vQ v')" "queue_ready (vQ v') = add_mset t (queue_ready (vQ v))" by simp_all
qed



end
