(* ===== verification/System_Run.thy ===== *)
theory System_Run
  imports System_Moves System_Props
begin

text \<open>
  The running server as a state machine: the scheduler and the task service over the same store, queue
  and Redis, as \<^verbatim>\<open>cmd/server/main.go\<close> wires them. A step is one call of a handler, by an HTTP request, a
  report or a poll of an agent, a message, the ticker, or the end of a process; or a change in
  what the server does not control (the background loop of the queue, the nodes, etcd, Redis). A
  server whose scheduler has panicked makes no step.

  Every step is a sequence of moves of the abstract machine of \<^verbatim>\<open>System_Moves\<close>; so its invariants hold over every run, however
  the steps interleave, and a server never panics.
\<close>

section \<open>Steps\<close>

definition service_of :: "'r redis_svc option \<Rightarrow> ('db, 'q, 'r, 'e) Scheduler \<Rightarrow> ('db, 'q, 'r) TaskService" where
  "service_of R s = NewTaskService (sStore s) (sDB s) R (sRedis s) (sQueue s) (sQ s)"

definition after_service ::
    "('db, 'q, 'r, 'e) Scheduler \<Rightarrow> ('db, 'q, 'r) TaskService \<Rightarrow> ('db, 'q, 'r, 'e) Scheduler" where
  "after_service s v = s\<lparr>sDB := vDB v, sRedis := vRedis v, sQ := vQ v\<rparr>"

datatype server_event =
    Create string go_time CreateTaskRequest
  | Cancel go_time string
  | Rerun string go_time string
  | Tick go_time
  | Done go_time nat TaskResult
  | Report go_time string TaskResult
  | Poll string
  | CancelMessage string
  | ConfigChange string string
  | Environment

inductive server_step ::
    "'r redis_svc option \<Rightarrow> ('q \<Rightarrow> 'q \<Rightarrow> bool) \<Rightarrow> ('db, 'q, 'r, 'e) Scheduler \<Rightarrow> server_event \<Rightarrow>
     ('db, 'q, 'r, 'e) Scheduler \<Rightarrow> bool" for R moves where
  create: "\<not> sPanicked s \<Longrightarrow> CreateTask uuid now req (service_of R s) = (r, v) \<Longrightarrow>
    server_step R moves s (Create uuid now req) (after_service s v)"
| cancel: "\<not> sPanicked s \<Longrightarrow> CancelTask now (service_of R s) uid = (e, v) \<Longrightarrow>
    server_step R moves s (Cancel now uid) (after_service s v)"
| rerun: "\<not> sPanicked s \<Longrightarrow> RerunTask uuid now (service_of R s) uid = (r, v) \<Longrightarrow>
    server_step R moves s (Rerun uuid now uid) (after_service s v)"
| tick: "\<not> sPanicked s \<Longrightarrow> tick fuel sorting now s = Some (s', ds, fs) \<Longrightarrow>
    server_step R moves s (Tick now) s'"
| finished: "\<not> sPanicked s \<Longrightarrow> server_step R moves s (Done now i res) (goroutineDone now s i res)"
| report: "\<not> sPanicked s \<Longrightarrow> server_step R moves s (Report now uid res) (HandleRemoteResult now s uid res)"
| poll: "\<not> sPanicked s \<Longrightarrow> GetNextTaskForNode s n = (t, s') \<Longrightarrow> server_step R moves s (Poll n) s'"
| cancel_message: "\<not> sPanicked s \<Longrightarrow>
    server_step R moves s (CancelMessage channel) (onCancelMessage s channel)"
| config_change: "\<not> sPanicked s \<Longrightarrow>
    server_step R moves s (ConfigChange key val) (onConfigChange s key val)"
| queue: "\<not> sPanicked s \<Longrightarrow> moves (sQ s) q \<Longrightarrow> server_step R moves s Environment (s\<lparr>sQ := q\<rparr>)"
| nodes: "\<not> sPanicked s \<Longrightarrow> server_step R moves s Environment (SetNodeManager s nm)"
| etcd: "\<not> sPanicked s \<Longrightarrow> server_step R moves s Environment (s\<lparr>sEtcdState := e\<rparr>)"
| redis: "\<not> sPanicked s \<Longrightarrow> server_step R moves s Environment (s\<lparr>sRedis := r\<rparr>)"

inductive server_run ::
    "'r redis_svc option \<Rightarrow> ('q \<Rightarrow> 'q \<Rightarrow> bool) \<Rightarrow> ('db, 'q, 'r, 'e) Scheduler \<Rightarrow> server_event list \<Rightarrow>
     ('db, 'q, 'r, 'e) Scheduler \<Rightarrow> bool" for R moves where
  nil: "server_run R moves s [] s"
| snoc: "server_run R moves s evs s' \<Longrightarrow> server_step R moves s' ev s'' \<Longrightarrow>
    server_run R moves s (evs @ [ev]) s''"

section \<open>The abstract state\<close>

definition flying :: "('db, 'q, 'r, 'e) Scheduler \<Rightarrow> Task set" where
  "flying s = snd ` set (sGoroutines s) \<union> (\<Union>n. set (chan s n))"

definition sys_of :: "('db \<Rightarrow> string \<rightharpoonup> Task) \<Rightarrow> ('q \<Rightarrow> Task multiset) \<Rightarrow> ('db, 'q, 'r, 'e) Scheduler \<Rightarrow> sys" where
  "sys_of view tasks s = (view (sDB s), tasks (sQ s), flying s)"

text \<open>A task that fails gives one of two moves, or none.\<close>

lemma flying_frame [simp]:
  "flying (failTask now s t msg) = flying s" "flying (completeTask now s t res) = flying s"
  "flying (s\<lparr>sDB := db\<rparr>) = flying s" "flying (s\<lparr>sQ := q\<rparr>) = flying s" "flying (s\<lparr>sRedis := r\<rparr>) = flying s"
  "flying (deleteCancel s u) = flying s" "flying (s\<lparr>sPanicked := p\<rparr>) = flying s"
  by (simp_all add: flying_def chan_def sched_frame deleteCancel_def)

definition good :: "'db TaskStore \<Rightarrow> ('db \<Rightarrow> string \<rightharpoonup> Task) \<Rightarrow> 'q TaskQueue \<Rightarrow> ('q \<Rightarrow> bool) \<Rightarrow>
    ('q \<Rightarrow> Task multiset) \<Rightarrow> ('db, 'q, 'r, 'e) Scheduler \<Rightarrow> bool" where
  "good S view Q qinv tasks s \<longleftrightarrow>
     sched_ok S Q qinv s \<and> \<not> sPanicked s \<and> typed_sys (sys_of view tasks s)"

text \<open>What the rest of the world does to the queue: nothing to the tasks in it.\<close>

definition queue_moves_ok :: "('q \<Rightarrow> bool) \<Rightarrow> ('q \<Rightarrow> Task multiset) \<Rightarrow> ('q \<Rightarrow> 'q \<Rightarrow> bool) \<Rightarrow> bool" where
  "queue_moves_ok qinv tasks moves \<longleftrightarrow>
     (\<forall>q q'. qinv q \<longrightarrow> moves q q' \<longrightarrow> qinv q' \<and> tasks q' = tasks q)"

lemma retryDelay_some: "0 \<le> c \<Longrightarrow> \<exists>d. retryDelay i c = Some d"
  by (simp add: retryDelay_def shl64_def Let_def)

context reliable_env
begin

lemma storeUpdate_frame:
  assumes "storeUpdate now s t = (r, t', s1)"
  shows "sched_config s1 = sched_config s" "sQ s1 = sQ s" "sNodeTasks s1 = sNodeTasks s"
    "sGoroutines s1 = sGoroutines s" "sPanicked s1 = sPanicked s" "flying s1 = flying s"
  by (rule storeUpdate_obs [OF _ assms], simp add: sched_config_def)+

text \<open>An \<^verbatim>\<open>Update\<close> of a task that has a row.\<close>

lemma storeUpdate_cases [consumes 2, case_names written refused]:
  assumes u: "storeUpdate now s t = (r, t', s1)" and S: "sStore s = S" and row: "view (sDB s) (tTaskUID t) = Some old"
  obtains (written) "r = None" "view (sDB s1) = (view (sDB s))(tTaskUID t \<mapsto> stored_task rnd old t')"
      "t' = t\<lparr>tUpdatedAt := now\<rparr>"
    | (refused) e where "r = Some e" "view (sDB s1) = view (sDB s)" "\<not> store_up S view"
proof -
  obtain db where d: "ts_Update S now (sDB s) t = (r, t', db)" "sDB s1 = db"
    using u S by (auto simp: storeUpdate_def split: prod.splits)
  show thesis
  proof (cases r)
    case None
    with written update_ok [OF d(1) [unfolded None]] update_task [OF d(1)] row d(2) show thesis by simp
  next
    case (Some e)
    have "\<not> store_up S view" using d(1) Some by (auto simp: store_up_def) (metis fst_conv option.distinct(1))
    with refused [OF Some] update_err [OF d(1) [unfolded Some]] d(2) show thesis by simp
  qed
qed

lemma failTask_sim:
  assumes g: "good S view Q qinv tasks s" and c: "c \<in> copies (view (sDB s)) (flying s)"
    and t: "t = (with_output c a b)\<lparr>tFinishedAt := fin\<rparr>"
  shows "good S view Q qinv tasks (failTask now s t msg)"
    and "quiet rnd (sys_of view tasks s) (sys_of view tasks (failTask now s t msg)) \<or>
      sys_of view tasks (failTask now s t msg) = sys_of view tasks s"
proof -
  have ok: "sched_ok S Q qinv s" and np: "\<not> sPanicked s" and ty: "typed_sys (view (sDB s), tasks (sQ s), flying s)"
    using g by (simp_all add: good_def sys_of_def)
  have S: "sStore s = S" "sQueue s = Some Q" "qinv (sQ s)" using ok by (simp_all add: sched_ok_def)
  have tc: "typed_task c" using copies_typed [OF ty c] .
  obtain old where row: "view (sDB s) (tTaskUID c) = Some old"
    using c typed_sysD(1,8) [OF ty] by (fastforce simp: copies_def ran_def)
  have can: "CanRetry (t\<lparr>tErrorMessage := msg\<rparr>) = CanRetry c" by (simp add: t CanRetry_def with_output_def)
  let ?s = "failTask now s t msg"
  have "\<not> sPanicked ?s \<and>
    (quiet rnd (sys_of view tasks s) (sys_of view tasks ?s) \<or> sys_of view tasks ?s = sys_of view tasks s)"
  proof (cases "CanRetry c")
    case True
    let ?x = "t\<lparr>tErrorMessage := msg, tRetryCount := tRetryCount t + 1, tStatus := TaskStatusPending,
        tFinishedAt := None\<rparr>"
    have x: "?x\<lparr>tUpdatedAt := now\<rparr> = retried now msg (with_output c a b)" by (simp add: t outcome_defs)
    obtain r t' s1 where u: "storeUpdate now s ?x = (r, t', s1)" by (metis prod.collapse)
    have row': "view (sDB s) (tTaskUID ?x) = Some old" using row by (simp add: t with_output_def)
    note f = storeUpdate_frame [OF u]
    note q = f(1) [THEN sched_configD(2)]
    show ?thesis
    proof (cases rule: storeUpdate_cases [OF u S(1) row', case_names written refused])
      case written
      have "0 \<le> tRetryCount t'"
        using tc by (simp add: written(3) x retried_def with_output_def typed_task_def)
      then obtain d where d: "retryDelay (tRetryIntervalSec t') (tRetryCount t') = Some d"
        using retryDelay_some by blast
      have s: "?s = s1\<lparr>sQ := snd (q_PushDelayed Q now (sQ s1) t' d)\<rparr>"
        using True can u written(1) q S(2) d by (simp add: failTask_def Let_def)
      have t': "t' = retried now msg (with_output c a b)" using written(3) x by simp
      have "view (sDB ?s) = (view (sDB s))(tTaskUID c \<mapsto> stored_task rnd old t')"
        unfolding s using written(2) by (simp add: t with_output_def)
      moreover have "tasks (sQ ?s) = add_mset t' (tasks (sQ s))"
        unfolding s using push_delayed_tasks [OF S(3)] by (simp add: f)
      ultimately show ?thesis
        using quiet.retry [OF c True row t', of rnd "tasks (sQ s)"] np by (simp add: sys_of_def s f)
    next
      case (refused e)
      then have "?s = s1" using True can u by (simp add: failTask_def Let_def)
      then show ?thesis using refused np by (simp add: sys_of_def f)
    qed
  next
    case False
    let ?t = "t\<lparr>tErrorMessage := msg, tFinishedAt := Some now\<rparr>"
    show ?thesis
    proof (cases rule: TransitionTo_cases [of ?t TaskStatusFailed now])
      case ok
      let ?x = "?t\<lparr>tStatus := TaskStatusFailed, tUpdatedAt := now\<rparr>"
      have run: "tStatus c = TaskStatusRunning" using ok(1) by (auto simp: t with_output_def)
      have x: "?x\<lparr>tUpdatedAt := now\<rparr> = failed now msg (with_output c a b)" by (simp add: t outcome_defs)
      obtain r t' s1 where u: "storeUpdate now s ?x = (r, t', s1)" by (metis prod.collapse)
      have row': "view (sDB s) (tTaskUID ?x) = Some old" using row by (simp add: t with_output_def)
      note f = storeUpdate_frame [OF u]
      have s: "?s = countDaily now s1 ''failed''" using False can ok(2) u by (simp add: failTask_def Let_def)
      have p: "sPanicked (countDaily now s1 c) = sPanicked s1" for c by (rule countDaily_obs) simp
      have e: "sys_of view tasks ?s = (view (sDB s1), tasks (sQ s), flying s)"
        using f(2) by (simp add: sys_of_def s sched_frame) (simp add: s [symmetric])
      show ?thesis
      proof (cases rule: storeUpdate_cases [OF u S(1) row', case_names written refused])
        case written
        have t': "t' = failed now msg (with_output c a b)" using written(3) x by simp
        have "view (sDB s1) = (view (sDB s))(tTaskUID c \<mapsto> stored_task rnd old t')"
          using written(2) by (simp add: t with_output_def)
        with quiet.fail [OF c False run row t', of rnd "tasks (sQ s)"] np show ?thesis
          by (simp add: e) (simp add: sys_of_def s p f)
      qed (use np in \<open>simp add: e; simp add: sys_of_def s p f\<close>)
    next
      case (refused e)
      then have "?s = s" using False can by (simp add: failTask_def Let_def)
      with np show ?thesis by simp
    qed
  qed
  with ty failTask_ok(1) [OF ok] quiet_typed show
    "good S view Q qinv tasks ?s"
    "quiet rnd (sys_of view tasks s) (sys_of view tasks ?s) \<or> sys_of view tasks ?s = sys_of view tasks s"
    unfolding good_def sys_of_def by metis+
qed

text \<open>Handlers change the state by moves; a quiet handler by at most two of them.\<close>

definition quietly :: "('db, 'q, 'r, 'e) Scheduler \<Rightarrow> ('db, 'q, 'r, 'e) Scheduler \<Rightarrow> bool" where
  "quietly s s' \<longleftrightarrow> (quiet rnd)\<^sup>*\<^sup>* (sys_of view tasks s) (sys_of view tasks s')"

lemma quietly_refl [simp]: "sys_of view tasks s' = sys_of view tasks s \<Longrightarrow> quietly s s'"
  by (simp add: quietly_def)

lemma quietly_trans: "quietly s s' \<Longrightarrow> quietly s' s'' \<Longrightarrow> quietly s s''"
  unfolding quietly_def by (rule rtranclp_trans)

lemma completeTask_sim:
  assumes g: "good S view Q qinv tasks s" and c: "c \<in> copies (view (sDB s)) (flying s)"
  shows "good S view Q qinv tasks (completeTask now s c res)" and "quietly s (completeTask now s c res)"
proof -
  let ?t = "(with_output c (trStdout res) (trStderr res))\<lparr>tFinishedAt := Some now\<rparr>"
  let ?s = "completeTask now s c res"
  have "good S view Q qinv tasks ?s \<and> quietly s ?s"
  proof (cases "trError res")
    case (Some e)
    then obtain msg where s: "?s = failTask now s ?t msg"
      by (cases "trTimedOut res") (auto simp: completeTask_def Let_def with_output_def)
    from failTask_sim [OF g c refl, where now = now and msg = msg and a = "trStdout res" and
        b = "trStderr res" and fin = "Some now"] show ?thesis
      unfolding s quietly_def by auto
  next
    case None
    let ?t1 = "?t\<lparr>tExitCode := Some (trExitCode res)\<rparr>"
    have ok: "sched_ok S Q qinv s" and np: "\<not> sPanicked s"
      and ty: "typed_sys (view (sDB s), tasks (sQ s), flying s)"
      using g by (simp_all add: good_def sys_of_def)
    have S: "sStore s = S" using ok by (simp add: sched_ok_def)
    show ?thesis
    proof (cases rule: TransitionTo_cases [of ?t1 TaskStatusSuccess now])
      case ok': ok
      have run: "tStatus c = TaskStatusRunning" using ok'(1) by (auto simp: with_output_def)
      let ?x = "?t1\<lparr>tStatus := TaskStatusSuccess, tUpdatedAt := now\<rparr>"
      have x: "?x\<lparr>tUpdatedAt := now\<rparr> = succeeded now (trExitCode res) (with_output c (trStdout res) (trStderr res))"
        by (simp add: outcome_defs)
      obtain old where row: "view (sDB s) (tTaskUID c) = Some old"
        using c typed_sysD(1,8) [OF ty] by (fastforce simp: copies_def ran_def)
      obtain r t' s1 where u: "storeUpdate now s ?x = (r, t', s1)" by (metis prod.collapse)
      have row': "view (sDB s) (tTaskUID ?x) = Some old" using row by (simp add: with_output_def)
      note f = storeUpdate_frame [OF u]
      have s: "?s = countDaily now s1 ''success''"
        using None ok'(2) u by (simp add: completeTask_def Let_def with_output_def)
      have p: "sPanicked (countDaily now s1 d) = sPanicked s1" for d by (rule countDaily_obs) simp
      have cf: "sched_ok S Q qinv ?s"
        using ok completeTask_frame(1) [THEN sched_configD(1), of now s c res]
          completeTask_frame(1) [THEN sched_configD(2), of now s c res] f(2)
        by (simp add: sched_ok_def) (simp add: s sched_frame)
      have e: "sys_of view tasks ?s = (view (sDB s1), tasks (sQ s), flying s)"
        using f(2) by (simp add: sys_of_def s sched_frame) (simp add: s [symmetric])
      have "(quiet rnd)\<^sup>*\<^sup>* (sys_of view tasks s) (view (sDB s1), tasks (sQ s), flying s)"
      proof (cases rule: storeUpdate_cases [OF u S row', case_names written refused])
        case written
        have t': "t' = succeeded now (trExitCode res) (with_output c (trStdout res) (trStderr res))"
          using written(3) x by simp
        have "view (sDB s1) = (view (sDB s))(tTaskUID c \<mapsto> stored_task rnd old t')"
          using written(2) by (simp add: with_output_def)
        with quiet.succeed [OF c run row t', of rnd "tasks (sQ s)"] show ?thesis by (simp add: sys_of_def)
      qed (simp add: sys_of_def)
      moreover have "typed_sys (view (sDB s1), tasks (sQ s), flying s)"
        using calculation ty unfolding sys_of_def
        by (induction rule: rtranclp_induct) (auto intro: quiet_typed)
      moreover have "\<not> sPanicked ?s" using np by (simp add: s p f)
      ultimately show ?thesis using cf by (simp add: good_def quietly_def e)
    next
      case (refused e)
      then have "?s = s" using None by (simp add: completeTask_def Let_def with_output_def)
      with g show ?thesis by simp
    qed
  qed
  then show "good S view Q qinv tasks ?s" "quietly s ?s" by simp_all
qed

text \<open>The loop over the running tasks: their rows are distinct, so each is still as it was read.\<close>

lemma checkRunning_sim:
  "good S view Q qinv tasks s \<Longrightarrow> checkRunning now ts cpu mem s = (cpu', mem', s') \<Longrightarrow>
   distinct (map tTaskUID ts) \<Longrightarrow> \<forall>t \<in> set ts. view (sDB s) (tTaskUID t) = Some t \<Longrightarrow>
   good S view Q qinv tasks s' \<and> quietly s s'"
proof (induction now ts cpu mem s rule: checkRunning.induct)
  case (2 now t ts cpu mem s)
  let ?s = "if timedOut now t then failTask now s t ''task timed out'' else s"
  have np: "\<not> sPanicked s" and ok: "sched_ok S Q qinv s" using 2(2) by (simp_all add: good_def)
  have c: "t \<in> copies (view (sDB s)) (flying s)" using 2(5) by (auto simp: copies_def ran_def)
  have t: "t = (with_output t (tStdout t) (tStderr t))\<lparr>tFinishedAt := tFinishedAt t\<rparr>"
    by (simp add: with_output_def)
  note sim = failTask_sim [OF 2(2) c t, where now = now and msg = "''task timed out''"]
  have "quietly s (failTask now s t ''task timed out'')"
    using sim(2) unfolding quietly_def by (elim disjE) (rule r_into_rtranclp, assumption, simp)
  with sim(1) 2(2) have one: "good S view Q qinv tasks ?s \<and> quietly s ?s" by simp
  have "view (sDB ?s) u = view (sDB s) u" if "u \<noteq> tTaskUID t" for u
    using failTask_write [OF ok, of now t "''task timed out''"] that by (auto simp: row_write_def)
  moreover have "tTaskUID x \<noteq> tTaskUID t" if "x \<in> set ts" for x using 2(4) that by (auto simp: image_iff)
  ultimately have rest: "\<forall>x \<in> set ts. view (sDB ?s) (tTaskUID x) = Some x" using 2(5) by simp
  have dist: "distinct (map tTaskUID ts)" using 2(4) by simp
  have run: "checkRunning now ts (wrap64 (cpu + tCPULimit t)) (wrap64 (mem + tMemoryLimit t)) ?s = (cpu', mem', s')"
    using 2(3) np by simp
  from 2(1) [OF np conjunct1 [OF one] run dist rest] have "good S view Q qinv tasks s' \<and> quietly ?s s'" .
  with one quietly_trans show ?case by blast
qed (use quietly_refl in simp)

text \<open>One dispatch of the copy \<open>t\<close> that was just popped is one launch.\<close>

definition faultless :: "('db, 'q, 'r, 'e) Scheduler \<Rightarrow> bool" where
  "faultless s \<longleftrightarrow> store_up S view \<and> sEtcd s = None"

lemma flying_spawn [simp]: "flying (spawnLocal s ctx t) = insert t (flying s)"
  by (auto simp: flying_def chan_def spawnLocal_def)

lemma flying_register [simp]: "flying (registerCancel s u) = flying s"
  by (simp add: flying_def chan_def registerCancel_def)

lemma flying_channel:
  assumes "getOrCreateNodeQueue s n = (ch, s1)"
  shows "flying s1 = flying s" and "flying (s1\<lparr>sNodeTasks := (sNodeTasks s1)(n \<mapsto> ch @ [t])\<rparr>) = insert t (flying s)"
proof -
  have g: "sGoroutines s1 = sGoroutines s" by (rule getOrCreateNodeQueue_obs [OF _ assms]) simp
  have c: "chan s1 = chan s" "ch = chan s n"
    using assms by (auto simp: getOrCreateNodeQueue_def chan_def fun_eq_iff split: option.splits if_splits)
  show "flying s1 = flying s" by (simp add: flying_def g c)
  have "chan (s1\<lparr>sNodeTasks := (sNodeTasks s1)(n \<mapsto> ch @ [t])\<rparr>) = (chan s)(n := chan s n @ [t])"
    using c by (auto simp: chan_def fun_eq_iff)
  then have "(\<Union>m. set (chan (s1\<lparr>sNodeTasks := (sNodeTasks s1)(n \<mapsto> ch @ [t])\<rparr>) m)) = insert t (\<Union>m. set (chan s m))"
    by (auto split: if_splits)
  then show "flying (s1\<lparr>sNodeTasks := (sNodeTasks s1)(n \<mapsto> ch @ [t])\<rparr>) = insert t (flying s)"
    by (simp add: flying_def g)
qed

lemma launch_frame:
  "sDB (registerCancel s u) = sDB s" "sQ (registerCancel s u) = sQ s" "sDB (spawnLocal s c t) = sDB s"
  "sQ (spawnLocal s c t) = sQ s"
  by (simp_all add: registerCancel_def spawnLocal_def)

lemma dispatchRemote_frame:
  "sQ (dispatchRemote now s t n) = sQ s" "sPanicked (dispatchRemote now s t n) = sPanicked s"
  "sched_config (dispatchRemote now s t n) = sched_config s"
  by (rule dispatchRemote_obs; simp add: sched_config_def)+

text \<open>Running the waiting copy, here or on a node.\<close>

lemma run_write:
  assumes S: "sStore s = S" and row: "view (sDB s) (tTaskUID t) = Some old" and p: "tStatus t = TaskStatusPending"
    and u: "storeUpdate now s (t\<lparr>tStatus := TaskStatusRunning, tUpdatedAt := now, tAssignedNodeID := n, tStartedAt := Some now\<rparr>)
      = (r, t', s1)"
  obtains (written) "r = None" "view (sDB s1) = (view (sDB s))(tTaskUID t \<mapsto> stored_task rnd old t')"
      "t' = started now n t" "flying s1 = flying s" "sQ s1 = sQ s"
    | (refused) e where "r = Some e" "view (sDB s1) = view (sDB s)" "\<not> store_up S view" "flying s1 = flying s" "sQ s1 = sQ s"
proof -
  have row': "view (sDB s) (tTaskUID (t\<lparr>tStatus := TaskStatusRunning, tUpdatedAt := now, tAssignedNodeID := n,
      tStartedAt := Some now\<rparr>)) = Some old" using row by simp
  show thesis
    by (cases rule: storeUpdate_cases [OF u S row', case_names written refused])
      (use that storeUpdate_frame [OF u] in \<open>simp_all add: started_def\<close>)
qed

lemma place_sim:
  assumes S: "sStore s = S" and row: "view (sDB s) (tTaskUID t) = Some old" and p: "tStatus t = TaskStatusPending"
  obtains (run) node where "sys_of view tasks (case SelectNode sorting s t of
        Inl e \<Rightarrow> dispatchLocal now s t | Inr None \<Rightarrow> dispatchLocal now s t
      | Inr (Some nd) \<Rightarrow> dispatchRemote now s t nd) =
      ((view (sDB s))(tTaskUID t \<mapsto> stored_task rnd old (started now node t)), tasks (sQ s),
       insert (started now node t) (flying s))"
    | (refused) "sys_of view tasks (case SelectNode sorting s t of
        Inl e \<Rightarrow> dispatchLocal now s t | Inr None \<Rightarrow> dispatchLocal now s t
      | Inr (Some nd) \<Rightarrow> dispatchRemote now s t nd) = sys_of view tasks s" "\<not> store_up S view"
proof -
  have tr: "TransitionTo now t TaskStatusRunning = Inr (t\<lparr>tStatus := TaskStatusRunning, tUpdatedAt := now\<rparr>)"
    using p by (simp add: TransitionTo_iff lifecycle.start)
  have local: "(\<exists>node. sys_of view tasks (dispatchLocal now s t) =
      ((view (sDB s))(tTaskUID t \<mapsto> stored_task rnd old (started now node t)), tasks (sQ s),
       insert (started now node t) (flying s))) \<or>
    sys_of view tasks (dispatchLocal now s t) = sys_of view tasks s \<and> \<not> store_up S view"
  proof -
    obtain r t' s1 where u: "storeUpdate now s (t\<lparr>tStatus := TaskStatusRunning, tUpdatedAt := now,
        tAssignedNodeID := tAssignedNodeID t, tStartedAt := Some now\<rparr>) = (r, t', s1)" by (metis prod.collapse)
    then have d: "dispatchLocal now s t = (case r of Some e \<Rightarrow> s1
        | None \<Rightarrow> spawnLocal (registerCancel s1 (tTaskUID t')) (sNextCtx s1) t')"
      by (simp add: dispatchLocal_def tr split: option.split)
    show ?thesis
      by (cases rule: run_write [OF S row p u, case_names written refused])
        (auto simp: d sys_of_def launch_frame)
  qed
  have remote: "(\<exists>node. sys_of view tasks (dispatchRemote now s t nd) =
      ((view (sDB s))(tTaskUID t \<mapsto> stored_task rnd old (started now node t)), tasks (sQ s),
       insert (started now node t) (flying s))) \<or>
    sys_of view tasks (dispatchRemote now s t nd) = sys_of view tasks s \<and> \<not> store_up S view" for nd
  proof -
    obtain r t' s1 where u: "storeUpdate now s (t\<lparr>tStatus := TaskStatusRunning, tUpdatedAt := now,
        tAssignedNodeID := nNodeID nd, tStartedAt := Some now\<rparr>) = (r, t', s1)" by (metis prod.collapse)
    obtain ch s2 where c: "getOrCreateNodeQueue (registerCancel s1 (tTaskUID t')) (nNodeID nd) = (ch, s2)" by fastforce
    have d: "dispatchRemote now s t nd = (case r of Some e \<Rightarrow> s1 | None \<Rightarrow>
        if length ch < nodeQueueCap then s2\<lparr>sNodeTasks := (sNodeTasks s2)(nNodeID nd \<mapsto> ch @ [t'])\<rparr>
        else spawnLocal s2 (sNextCtx s1) t')"
      using u c by (simp add: dispatchRemote_def tr Let_def split: option.split)
    have q: "sDB s2 = sDB s1" "sQ s2 = sQ s1"
      using c by (auto simp: getOrCreateNodeQueue_def registerCancel_def split: option.splits)
    show ?thesis
      by (cases rule: run_write [OF S row p u, case_names written refused])
        (auto simp: d sys_of_def launch_frame q flying_channel [OF c])
  qed
  show thesis
  proof (cases "\<exists>nd. SelectNode sorting s t = Inr (Some nd)")
    case True
    with remote run refused show thesis by fastforce
  next
    case False
    then have "(case SelectNode sorting s t of Inl e \<Rightarrow> dispatchLocal now s t | Inr None \<Rightarrow> dispatchLocal now s t
      | Inr (Some nd) \<Rightarrow> dispatchRemote now s t nd) = dispatchLocal now s t"
      by (auto split: sum.split option.split)
    with local run refused show thesis by metis
  qed
qed

lemma stored_twice [simp]: "stored_task rnd (stored_task rnd old x) y = stored_task rnd old y"
  by (simp add: stored_task_def)

lemma started_admitted [simp]: "started now node (admitted now t) = started now node t"
  by (simp add: outcome_defs)

lemma dispatch_sim:
  assumes S: "sStore s = S" and row: "view (sDB s) (tTaskUID t) = Some old" and w: "waits t"
  shows "launch rnd (faultless s) (view (sDB s), add_mset t (tasks (sQ s)), flying s)
    (sys_of view tasks (dispatch sorting now s t))"
proof -
  let ?q = "tasks (sQ s)"
  obtain r s1 where c: "ClaimTask s (tTaskUID t) = (r, s1)" by fastforce
  note f = ClaimTask_frame [OF c]
  have S1: "sStore s1 = S" using f(1) S by (simp add: sched_config_def)
  have fl: "flying s1 = flying s" by (simp add: flying_def chan_def f)
  have e1: "sys_of view tasks s1 = (view (sDB s), ?q, flying s)" by (simp add: sys_of_def f fl)
  have dropped: ?thesis if "sys_of view tasks (dispatch sorting now s t) = (view (sDB s), ?q, flying s)" "\<not> faultless s"
    using launch.drop_copy [OF that(2), of t "add_mset t ?q" rnd "view (sDB s)" "flying s"] that(1) by simp
  have start: ?thesis if "sys_of view tasks (dispatch sorting now s t) =
      ((view (sDB s))(tTaskUID t \<mapsto> stored_task rnd old (started now node t)), ?q, insert (started now node t) (flying s))"
    for node
    using launch.start [where t = t and q = "add_mset t ?q" and v = "view (sDB s)" and x = "started now node t",
        OF _ w row refl] that by simp
  consider (skip) "\<not> (\<exists>b. r = Inr b \<and> b)" | (go) "r = Inr True" by (cases r) auto
  then show ?thesis
  proof cases
    case skip
    then have "dispatch sorting now s t = s1" by (auto simp: dispatch_def c split: sum.split)
    moreover have "\<not> faultless s" using skip c by (cases "sEtcd s") (auto simp: faultless_def ClaimTask_def)
    ultimately show ?thesis using dropped e1 by simp
  next
    case go
    show ?thesis
    proof (cases "tStatus t = TaskStatusCreated")
      case True
      let ?x = "t\<lparr>tStatus := TaskStatusPending, tUpdatedAt := now\<rparr>"
      have tr: "TransitionTo now t TaskStatusPending = Inr ?x"
        using True by (simp add: TransitionTo_iff lifecycle.enqueue)
      obtain r' x s2 where u: "storeUpdate now s1 ?x = (r', x, s2)" by (metis prod.collapse)
      have row': "view (sDB s1) (tTaskUID ?x) = Some old" using row by (simp add: f)
      note f2 = storeUpdate_frame [OF u]
      show ?thesis
      proof (cases rule: storeUpdate_cases [OF u S1 row', case_names written refused])
        case (refused e)
        then have "dispatch sorting now s t = s2" using True go tr u by (simp add: dispatch_def c)
        with refused dropped show ?thesis by (simp add: sys_of_def f f2 fl faultless_def)
      next
        case written
        have x: "x = admitted now t" using written(3) by (simp add: admitted_def)
        have d: "dispatch sorting now s t = (case SelectNode sorting s2 x of
            Inl e \<Rightarrow> dispatchLocal now s2 x | Inr None \<Rightarrow> dispatchLocal now s2 x
          | Inr (Some nd) \<Rightarrow> dispatchRemote now s2 x nd)"
          using True go tr u written(1) by (simp add: dispatch_def c Let_def)
        have v2: "view (sDB s2) = (view (sDB s))(tTaskUID t \<mapsto> stored_task rnd old x)"
          using written(2) f(2) by simp
        have S2: "sStore s2 = S" using f2(1) S1 by (simp add: sched_config_def)
        have row2: "view (sDB s2) (tTaskUID x) = Some (stored_task rnd old x)" and p: "tStatus x = TaskStatusPending"
          by (simp_all add: v2 x)
        show ?thesis
        proof (cases rule: place_sim [OF S2 row2 p, where sorting = sorting and now = now, case_names run refused])
          case (run node)
          show ?thesis by (rule start [of node]) (use run in \<open>simp add: d v2 x f2 fl f\<close>)
        next
          case refused
          then have "sys_of view tasks (dispatch sorting now s t) =
              ((view (sDB s))(tTaskUID t \<mapsto> stored_task rnd old (admitted now t)), ?q, flying s)"
            unfolding d by (simp add: sys_of_def v2 x f2 fl f)
          moreover have "\<not> faultless s" using refused(2) by (simp add: faultless_def)
          ultimately show ?thesis
            using launch.drop_admitted [where t = t and q = "add_mset t ?q" and v = "view (sDB s)",
              OF _ _ True row] by simp
        qed
      qed
    next
      case False
      then have p: "tStatus t = TaskStatusPending" using w by (simp add: waits_def)
      have d: "dispatch sorting now s t = (case SelectNode sorting s1 t of
          Inl e \<Rightarrow> dispatchLocal now s1 t | Inr None \<Rightarrow> dispatchLocal now s1 t
        | Inr (Some nd) \<Rightarrow> dispatchRemote now s1 t nd)"
        using False go by (simp add: dispatch_def c Let_def)
      have row1: "view (sDB s1) (tTaskUID t) = Some old" using row by (simp add: f)
      show ?thesis
      proof (cases rule: place_sim [OF S1 row1 p, where sorting = sorting and now = now, case_names run refused])
        case (run node)
        show ?thesis by (rule start [of node]) (use run in \<open>simp add: d fl f\<close>)
      next
        case refused
        then show ?thesis using dropped e1 unfolding d by (simp add: faultless_def)
      qed
    qed
  qed
qed

text \<open>The loop over the queue and the tick: only moves.\<close>

definition moving :: "('db, 'q, 'r, 'e) Scheduler \<Rightarrow> ('db, 'q, 'r, 'e) Scheduler \<Rightarrow> bool" where
  "moving s s' \<longleftrightarrow> (sys_move rnd (faultless s))\<^sup>*\<^sup>* (sys_of view tasks s) (sys_of view tasks s')"

lemma quietly_moving: "quietly s s' \<Longrightarrow> moving s s'"
  unfolding quietly_def moving_def by (rule rtranclp_mono [THEN predicate2D]) (auto simp: sys_move_def)

lemma moving_refl [simp]: "sys_of view tasks s' = sys_of view tasks s \<Longrightarrow> moving s s'"
  by (simp add: moving_def)

lemma moving_trans: "moving s s' \<Longrightarrow> moving s' s'' \<Longrightarrow> faultless s' = faultless s \<Longrightarrow> moving s s''"
  unfolding moving_def by (rule rtranclp_trans [of _ _ "sys_of view tasks s'"]) simp_all

lemma faultless_config: "sched_config s' = sched_config s \<Longrightarrow> faultless s' = faultless s"
  by (simp add: faultless_def sched_config_def)

lemma tickLoop_sim:
  "good S view Q qinv tasks s \<Longrightarrow> tickLoop fuel sorting now cpu mem slots s = Some (s', ds, fs) \<Longrightarrow>
   good S view Q qinv tasks s' \<and> moving s s' \<and> sched_config s' = sched_config s"
proof (induction fuel arbitrary: cpu mem slots s ds fs)
  case (Suc fuel)
  have ok: "sched_ok S Q qinv s" and np: "\<not> sPanicked s"
    and ty: "typed_sys (view (sDB s), tasks (sQ s), flying s)"
    using Suc.prems(1) by (simp_all add: good_def sys_of_def)
  have q: "sStore s = S" "sQueue s = Some Q" "qinv (sQ s)" using ok by (simp_all add: sched_ok_def)
  show ?case
  proof (cases rule: tickLoop_cases [of sorting now cpu mem slots s])
    case (stop s1)
    have "sys_of view tasks s1 = sys_of view tasks s \<and> good S view Q qinv tasks s1 \<and> sched_config s1 = sched_config s"
    proof (cases "s1 = s")
      case False
      then obtain p q1 where p: "q_Pop Q now (sQ s) (100 * Millisecond) = (p, q1)" "\<forall>t. p \<noteq> Inr (Some t)"
        and s1: "s1 = s\<lparr>sQ := q1\<rparr>" using stop(2) q(2) by auto
      have "qinv q1" "tasks q1 = tasks (sQ s)"
        using pop_other [OF q(3) p] pop_ok [OF q(3) p(1)] p(2) by (auto split: sum.splits option.splits)
      then show ?thesis using Suc.prems(1) by (simp add: s1 good_def sched_ok_def sys_of_def sched_config_def)
    qed (use Suc.prems(1) in simp)
    with stop(1) Suc.prems(2) show ?thesis by (auto simp del: tickLoop.simps)
  next
    case (run Q' t q1)
    with q(2) have pop: "q_Pop Q now (sQ s) (100 * Millisecond) = (Inr (Some t), q1)" by simp
    have t: "tasks (sQ s) = add_mset t (tasks q1)" using pop_ok [OF q(3) pop] by simp
    then have w: "waits t" and "view (sDB s) (tTaskUID t) \<noteq> None" using typed_sysD(4,5) [OF ty] by simp_all
    then obtain old where row: "view (sDB (s\<lparr>sQ := q1\<rparr>)) (tTaskUID t) = Some old" by auto
    let ?d = "dispatch sorting now (s\<lparr>sQ := q1\<rparr>) t"
    have fs: "faultless (s\<lparr>sQ := q1\<rparr>) = faultless s" by (simp add: faultless_def)
    have l: "launch rnd (faultless s) (sys_of view tasks s) (sys_of view tasks ?d)"
      using dispatch_sim [OF _ row w, of sorting now] q(1) by (simp add: fs sys_of_def t)
    have cfg: "sched_config ?d = sched_config s" by (simp add: sched_frame) (simp add: sched_config_def)
    have gd: "good S view Q qinv tasks ?d"
      using dispatch_ok [OF sched_ok_queue [OF ok pop_inv [OF q(3) pop]]] launch_typed [OF l] ty np
      by (simp add: good_def sys_of_def sched_frame)
    have m: "moving s ?d" using l unfolding moving_def sys_move_def by (intro r_into_rtranclp) simp
    obtain ds' where r: "tickLoop fuel sorting now (wrap64 (cpu - tCPULimit t)) (wrap64 (mem - tMemoryLimit t))
        (slots - 1) ?d = Some (s', ds', fs)"
      using Suc.prems(2) unfolding run(5) by auto
    from Suc.IH [OF gd r] moving_trans [OF m _ faultless_config [OF cfg]] cfg show ?thesis by simp
  next
    case (postpone Q' t q1)
    with q(2) have pop: "q_Pop Q now (sQ s) (100 * Millisecond) = (Inr (Some t), q1)" and "Q' = Q"
      by simp_all
    let ?s = "s\<lparr>sQ := snd (q_PushDelayed Q now q1 t (1 * Second))\<rparr>"
    obtain fs' where r: "tickLoop fuel sorting now cpu mem slots ?s = Some (s', ds, fs')"
      using Suc.prems(2) unfolding postpone(5) \<open>Q' = Q\<close> by auto
    have e: "sys_of view tasks ?s = sys_of view tasks s"
      using defer_tasks [OF q(3) pop prod.collapse [symmetric]] by (simp add: sys_of_def)
    have "good S view Q qinv tasks ?s"
      using ok np ty e push_delayed_inv [OF pop_inv [OF q(3) pop]] by (simp add: good_def sched_ok_def sys_of_def)
    from Suc.IH [OF this r] e show ?thesis by (simp add: moving_def faultless_def sched_config_def)
  qed
qed simp

lemma tick_sim:
  assumes g: "good S view Q qinv tasks s" and t: "tick fuel sorting now s = Some (s', ds, fs)"
  shows "good S view Q qinv tasks s' \<and> moving s s' \<and> sched_config s' = sched_config s"
proof -
  have ok: "sched_ok S Q qinv s" using g by (simp add: good_def)
  show ?thesis
  proof (cases rule: tick_cases [OF ok t, case_names idle work])
    case (work running cpu mem s1)
    have c: "good S view Q qinv tasks s1 \<and> quietly s s1"
      using running_ok [OF work(1)] by (intro checkRunning_sim [OF g work(2)]) auto
    have "good S view Q qinv tasks s' \<and> moving s1 s' \<and> sched_config s' = sched_config s1"
      using work(5) tickLoop_sim [OF conjunct1 [OF c]] c by auto
    moreover from this moving_trans [OF quietly_moving _ faultless_config [OF work(4)]] c have "moving s s'" by blast
    ultimately show ?thesis using work(4) by simp
  qed (use g in simp)
qed

text \<open>The end of a local run: the goroutine is gone before its result is recorded, which makes no difference.\<close>

lemma completeTask_goroutines:
  "completeTask now (s\<lparr>sGoroutines := gs\<rparr>) t res = (completeTask now s t res)\<lparr>sGoroutines := gs\<rparr>"
proof -
  have c: "countDaily now (s\<lparr>sGoroutines := gs, sDB := db\<rparr>) d = (countDaily now (s\<lparr>sDB := db\<rparr>) d)\<lparr>sGoroutines := gs\<rparr>"
    for s db d by (simp add: countDaily_def split: option.split)
  have f: "failTask now (s\<lparr>sGoroutines := gs\<rparr>) t msg = (failTask now s t msg)\<lparr>sGoroutines := gs\<rparr>" for t msg
  proof (cases "CanRetry (t\<lparr>tErrorMessage := msg\<rparr>)")
    case True
    obtain r t' db where u: "ts_Update (sStore s) now (sDB s) (t\<lparr>tErrorMessage := msg,
        tRetryCount := tRetryCount t + 1, tStatus := TaskStatusPending, tFinishedAt := None\<rparr>) = (r, t', db)"
      by (metis prod.collapse)
    then show ?thesis
      using True by (cases r; cases "sQueue s"; cases "retryDelay (tRetryIntervalSec t') (tRetryCount t')")
        (simp_all add: failTask_def storeUpdate_def Let_def)
  next
    case False
    then show ?thesis by (simp add: failTask_def storeUpdate_def Let_def c split: sum.split prod.split)
  qed
  show ?thesis
    by (simp add: completeTask_def storeUpdate_def Let_def c f split: option.split sum.split prod.split)
qed

lemma good_deleteCancel [simp]: "good S view Q qinv tasks (deleteCancel s u) = good S view Q qinv tasks s"
  by (simp add: good_def sched_ok_def sys_of_def) (simp add: deleteCancel_def)

lemma sys_of_deleteCancel [simp]: "sys_of view tasks (deleteCancel s u) = sys_of view tasks s"
  by (simp add: sys_of_def)

lemma leave_sim:
  assumes g: "good S view Q qinv tasks s" and sub: "flying s' \<subseteq> flying s"
    and same: "sDB s' = sDB s" "sQ s' = sQ s" "sStore s' = sStore s" "sQueue s' = sQueue s" "sPanicked s' = sPanicked s"
  shows "good S view Q qinv tasks s'" and "quietly s s'"
proof -
  have q: "quiet rnd (sys_of view tasks s) (sys_of view tasks s')"
    unfolding sys_of_def same using sub by (rule quiet.leave)
  then show "quietly s s'" unfolding quietly_def by (rule r_into_rtranclp)
  from quiet_typed [OF q] g show "good S view Q qinv tasks s'" by (simp add: good_def sched_ok_def same)
qed

lemma goroutineDone_sim:
  assumes g: "good S view Q qinv tasks s"
  shows "good S view Q qinv tasks (goroutineDone now s i res) \<and> quietly s (goroutineDone now s i res)"
proof (cases "i < length (sGoroutines s)")
  case True
  obtain ctx t where i: "sGoroutines s ! i = (ctx, t)" by fastforce
  let ?gs = "take i (sGoroutines s) @ drop (i + 1) (sGoroutines s)"
  let ?c = "completeTask now s t res"
  have "(ctx, t) \<in> set (sGoroutines s)" using True i by (metis nth_mem)
  then have "t \<in> copies (view (sDB s)) (flying s)" by (force simp: copies_def flying_def)
  note c = completeTask_sim [OF g this, of now res]
  have "set ?gs \<subseteq> set (sGoroutines s)" using set_take_subset set_drop_subset by fastforce
  then have "flying (?c\<lparr>sGoroutines := ?gs\<rparr>) \<subseteq> flying ?c"
    by (auto simp: flying_def chan_def sched_frame)
  note l = leave_sim [OF c(1) this]
  have "goroutineDone now s i res = deleteCancel (?c\<lparr>sGoroutines := ?gs\<rparr>) (tTaskUID t)"
    using True i by (simp add: goroutineDone_def completeTask_goroutines)
  with l quietly_trans [OF c(2)] show ?thesis by (simp add: quietly_def)
qed (use g in \<open>simp add: goroutineDone_def\<close>)

lemma HandleRemoteResult_sim:
  assumes g: "good S view Q qinv tasks s"
  shows "good S view Q qinv tasks (HandleRemoteResult now s uid res) \<and> quietly s (HandleRemoteResult now s uid res)"
proof (cases "ts_GetByUID S (sDB s) uid")
  case (Inl e)
  with g show ?thesis by (simp add: HandleRemoteResult_def good_def sched_ok_def)
next
  case (Inr t)
  let ?s = "deleteCancel s uid"
  have "view (sDB ?s) uid = Some t" using get_ok [OF Inr] by simp
  then have c: "t \<in> copies (view (sDB ?s)) (flying ?s)" by (auto simp: copies_def ran_def)
  have h: "HandleRemoteResult now s uid res = completeTask now ?s t res"
    using Inr g by (simp add: HandleRemoteResult_def good_def sched_ok_def)
  from completeTask_sim [OF _ c, of now res] g show ?thesis by (simp add: h quietly_def)
qed

lemma GetNextTaskForNode_sim:
  assumes g: "good S view Q qinv tasks s" and t: "GetNextTaskForNode s n = (r, s')"
  shows "good S view Q qinv tasks s' \<and> quietly s s'"
proof -
  have "flying s' \<subseteq> flying s"
  proof (cases "chan s n")
    case Nil
    then have "s' = s" using t by (auto simp: GetNextTaskForNode_def chan_def split: option.splits list.splits)
    then show ?thesis by simp
  next
    case (Cons x xs)
    then have s': "s' = s\<lparr>sNodeTasks := (sNodeTasks s)(n \<mapsto> xs)\<rparr>"
      using t by (auto simp: GetNextTaskForNode_def chan_def split: option.splits list.splits)
    then have "chan s' = (chan s)(n := xs)" by (auto simp: chan_def fun_eq_iff)
    then have "set (chan s' m) \<subseteq> set (chan s m)" for m using Cons by auto
    then show ?thesis by (fastforce simp: flying_def s')
  qed
  moreover have "sDB s' = sDB s" "sQ s' = sQ s" "sStore s' = sStore s" "sQueue s' = sQueue s" "sPanicked s' = sPanicked s"
    using t by (auto simp: GetNextTaskForNode_def split: option.splits list.splits)
  ultimately show ?thesis using leave_sim [OF g] by blast
qed

section \<open>The handlers of the service\<close>

lemma CreateTask_sim:
  assumes g: "good S view Q qinv tasks s" and c: "CreateTask uuid now req (service_of R s) = (r, v)"
  shows "good S view Q qinv tasks (after_service s v) \<and> quietly s (after_service s v)"
proof -
  have ok: "sched_ok S Q qinv s" and np: "\<not> sPanicked s" and ty: "typed_sys (sys_of view tasks s)"
    using g by (simp_all add: good_def)
  have "service_ok S Q qinv (service_of R s)"
    using ok by (simp add: service_ok_def service_of_def NewTaskService_def sched_ok_def)
  note out = CreateTask_stores_and_queues_env [OF task_store_axioms reliable_queue_axioms this c]
  have sel: "vDB (service_of R s) = sDB s" "vQ (service_of R s) = sQ s"
    by (simp_all add: service_of_def NewTaskService_def)
  let ?s = "after_service s v"
  have sys: "sys_of view tasks ?s = (view (vDB v), tasks (vQ v), flying s)"
    by (simp add: sys_of_def after_service_def)
  show ?thesis
  proof (cases r)
    case (Inl e)
    then have e: "view (vDB v) = view (sDB s)" "vQ v = sQ s" using out sel by simp_all
    with sys have "sys_of view tasks ?s = sys_of view tasks s" by (simp add: sys_of_def)
    moreover have "sched_ok S Q qinv ?s" using ok e by (simp add: sched_ok_def after_service_def)
    ultimately show ?thesis using np ty by (simp add: good_def) (simp add: after_service_def)
  next
    case (Inr t)
    with out sel obtain i where t: "t = (request_task uuid now req)\<lparr>tID := i\<rparr>" and free: "view (sDB s) uuid = None"
      and v: "view (vDB v) = (view (sDB s))(uuid \<mapsto> created_task rnd t)"
        "tasks (vQ v) = add_mset t (tasks (sQ s))" "qinv (vQ v)"
      by (auto simp: service_ok_def)
    have q: "quiet rnd (sys_of view tasks s) (sys_of view tasks ?s)"
      unfolding sys v unfolding sys_of_def by (rule quiet.create [where v = "view (sDB s)" and uuid = uuid and t = t, OF free t])
    moreover have "sched_ok S Q qinv ?s" using ok v(3) by (simp add: sched_ok_def after_service_def)
    ultimately show ?thesis
      using np quiet_typed [OF q ty] unfolding good_def quietly_def by (simp add: after_service_def r_into_rtranclp)
  qed
qed

lemma RerunTask_sim:
  assumes g: "good S view Q qinv tasks s" and c: "RerunTask uuid now (service_of R s) uid = (r, v)"
  shows "good S view Q qinv tasks (after_service s v) \<and> quietly s (after_service s v)"
proof (cases "ts_GetByUID (vStore (service_of R s)) (vDB (service_of R s)) uid")
  case (Inl e)
  then have "v = service_of R s" using c by (simp add: RerunTask_def)
  then have "after_service s v = s" by (simp add: after_service_def service_of_def NewTaskService_def)
  with g show ?thesis by simp
next
  case (Inr t)
  then obtain req where "CreateTask uuid now req (service_of R s) = (r, v)"
    using c by (auto simp: RerunTask_def)
  from CreateTask_sim [OF g this] show ?thesis .
qed

text \<open>What a cancellation does to the table.\<close>

lemma CancelTask_rows:
  assumes S: "vStore s = S" and c: "CancelTask now s uid = (e, s')"
  shows "vQ s' = vQ s \<and> (view (vDB s') = view (vDB s) \<or>
    (\<exists>t. view (vDB s) uid = Some t \<and> lifecycle (tStatus t) TaskStatusCanceled \<and>
       view (vDB s') = (view (vDB s))(uid \<mapsto> stored_task rnd t (cancelled now t))))"
proof (cases "ts_GetByUID S (vDB s) uid")
  case (Inl e)
  with c S show ?thesis by (auto simp: CancelTask_def)
next
  case (Inr t)
  have v: "view (vDB s) uid = Some t" using get_ok [OF Inr] .
  then have uid: "tTaskUID t = uid" using view_uid by blast
  show ?thesis
  proof (cases rule: TransitionTo_cases [of t TaskStatusCanceled now])
    case ok
    let ?t = "t\<lparr>tStatus := TaskStatusCanceled, tUpdatedAt := now\<rparr>"
    obtain r t' db where u: "ts_Update S now (vDB s) ?t = (r, t', db)" by (metis prod.collapse)
    have "vDB s' = vDB s \<or> vDB s' = db" and q: "vQ s' = vQ s"
      using c Inr ok(2) u S by (auto simp: CancelTask_def Let_def split: if_splits option.splits prod.splits)
    moreover have "view db = view (vDB s) \<or> view db = (view (vDB s))(uid \<mapsto> stored_task rnd t (cancelled now t))"
      using update_cases [of now "vDB s" ?t] u v uid by (auto simp: cancelled_def)
    ultimately show ?thesis using v ok(1) by metis
  next
    case (refused e')
    with c Inr S show ?thesis by (auto simp: CancelTask_def split: if_splits)
  qed
qed

lemma CancelTask_sim:
  assumes g: "good S view Q qinv tasks s" and c: "CancelTask now (service_of R s) uid = (e, v)"
  shows "good S view Q qinv tasks (after_service s v) \<and> quietly s (after_service s v)"
proof -
  have ok: "sched_ok S Q qinv s" and np: "\<not> sPanicked s" and ty: "typed_sys (sys_of view tasks s)"
    using g by (simp_all add: good_def)
  have sel: "vStore (service_of R s) = S" "vDB (service_of R s) = sDB s" "vQ (service_of R s) = sQ s"
    using ok by (simp_all add: service_of_def NewTaskService_def sched_ok_def)
  note rows = CancelTask_rows [OF sel(1) c, unfolded sel(2,3)]
  let ?s = "after_service s v"
  have sys: "sys_of view tasks ?s = (view (vDB v), tasks (sQ s), flying s)"
    using rows by (simp add: sys_of_def after_service_def)
  have ok': "sched_ok S Q qinv ?s" using ok rows by (simp add: sched_ok_def after_service_def)
  have "quiet rnd (sys_of view tasks s) (sys_of view tasks ?s) \<or> sys_of view tasks ?s = sys_of view tasks s"
  proof -
    have "quiet rnd (view (sDB s), tasks (sQ s), flying s) (view (vDB v), tasks (sQ s), flying s) \<or>
        view (vDB v) = view (sDB s)"
      using rows quiet.cancel [where v = "view (sDB s)" and u = uid] by metis
    then show ?thesis unfolding sys by (auto simp: sys_of_def)
  qed
  then have "quietly s ?s \<and> typed_sys (sys_of view tasks ?s)"
    using quiet_typed ty unfolding quietly_def by (metis r_into_rtranclp rtranclp.rtrancl_refl)
  with ok' np show ?thesis unfolding good_def by (simp add: after_service_def)
qed

section \<open>Every step\<close>

lemma same_sim:
  assumes g: "good S view Q qinv tasks s"
    and same: "sDB s' = sDB s" "sQ s' = sQ s" "sStore s' = sStore s" "sQueue s' = sQueue s"
      "sPanicked s' = sPanicked s" "sGoroutines s' = sGoroutines s" "sNodeTasks s' = sNodeTasks s"
  shows "good S view Q qinv tasks s' \<and> quietly s s'"
proof -
  have "flying s' = flying s" by (simp add: flying_def chan_def same)
  with leave_sim [OF g _ same(1-5)] show ?thesis by simp
qed

lemma onConfigChange_frame [simp]:
  "sDB (onConfigChange s k v) = sDB s" "sQ (onConfigChange s k v) = sQ s"
  "sStore (onConfigChange s k v) = sStore s" "sQueue (onConfigChange s k v) = sQueue s"
  "sPanicked (onConfigChange s k v) = sPanicked s" "sGoroutines (onConfigChange s k v) = sGoroutines s"
  "sNodeTasks (onConfigChange s k v) = sNodeTasks s" "sEtcd (onConfigChange s k v) = sEtcd s"
  by (simp_all add: onConfigChange_def Let_def)

lemma step_sim:
  assumes m: "queue_moves_ok qinv tasks moves" and g: "good S view Q qinv tasks s" and step: "server_step R moves s ev s'"
  shows "good S view Q qinv tasks s' \<and> (if \<exists>now. ev = Tick now then moving s s' else quietly s s')"
  using step
proof cases
  case (tick fuel sorting now ds fs)
  with tick_sim [OF g] show ?thesis by auto
next
  case (cancel_message channel)
  with same_sim [OF g, of s'] show ?thesis
    by (simp add: onCancelMessage_def deleteCancel_def Let_def split: option.splits)
next
  case (config_change key val)
  with same_sim [OF g, of s'] show ?thesis by simp
next
  case (queue q)
  then have "qinv q" "tasks q = tasks (sQ s)" using m g by (auto simp: queue_moves_ok_def good_def sched_ok_def)
  with queue g show ?thesis by (simp add: good_def sched_ok_def sys_of_def)
next
  case (nodes nm)
  with same_sim [OF g, of s'] show ?thesis by (simp add: SetNodeManager_def)
next
  case (etcd e)
  with same_sim [OF g, of s'] show ?thesis by simp
next
  case (redis r)
  with same_sim [OF g, of s'] show ?thesis by simp
qed (use CreateTask_sim [OF g] CancelTask_sim [OF g] RerunTask_sim [OF g] goroutineDone_sim [OF g]
    HandleRemoteResult_sim [OF g] GetNextTaskForNode_sim [OF g] in auto)

text \<open>What no step changes, and what only a configuration change does.\<close>

lemma tick_config: "good S view Q qinv tasks s \<Longrightarrow> tick fuel sorting now s = Some (s', ds, fs) \<Longrightarrow>
  sched_config s' = sched_config s"
  using tick_sim by blast

lemma step_config:
  assumes g: "good S view Q qinv tasks s" and step: "server_step R moves s ev s'"
  shows "sEtcd s' = sEtcd s"
    and "sMaxConcurrent s' = sMaxConcurrent s \<or>
      (\<exists>key val. ev = ConfigChange key val \<and> sMaxConcurrent s' = Sscanf_d val \<and> 0 < Sscanf_d val)"
proof -
  have c: "sEtcd s' = sEtcd s \<and> (sMaxConcurrent s' = sMaxConcurrent s \<or>
      (\<exists>key val. ev = ConfigChange key val \<and> sMaxConcurrent s' = Sscanf_d val \<and> 0 < Sscanf_d val))"
    using step
  proof cases
    case (tick fuel sorting now ds fs)
    from sched_configD [OF tick_config [OF g tick(3)]] show ?thesis by simp
  next
    case (finished now i res)
    have "sEtcd (goroutineDone now s i res) = sEtcd s \<and> sMaxConcurrent (goroutineDone now s i res) = sMaxConcurrent s"
      by (simp add: goroutineDone_def completeTask_goroutines deleteCancel_def
          completeTask_frame(1) [THEN sched_configD(3)] completeTask_frame(1) [THEN sched_configD(6)] split: prod.split)
    with finished show ?thesis by simp
  next
    case (report now uid res)
    have "sEtcd (HandleRemoteResult now s uid res) = sEtcd s \<and>
        sMaxConcurrent (HandleRemoteResult now s uid res) = sMaxConcurrent s"
      by (simp add: HandleRemoteResult_def deleteCancel_def completeTask_frame(1) [THEN sched_configD(3)]
          completeTask_frame(1) [THEN sched_configD(6)] split: sum.split)
    with report show ?thesis by simp
  next
    case (poll n t)
    then show ?thesis by (auto simp: GetNextTaskForNode_def split: option.splits list.splits)
  next
    case (cancel_message channel)
    then show ?thesis by (simp add: onCancelMessage_def deleteCancel_def Let_def split: option.splits)
  next
    case (config_change key val)
    then show ?thesis by (auto simp: onConfigChange_def Let_def)
  qed (simp_all add: after_service_def SetNodeManager_def)
  from conjunct1 [OF c] show "sEtcd s' = sEtcd s" .
  from conjunct2 [OF c] show "sMaxConcurrent s' = sMaxConcurrent s \<or>
      (\<exists>key val. ev = ConfigChange key val \<and> sMaxConcurrent s' = Sscanf_d val \<and> 0 < Sscanf_d val)" .
qed

section \<open>Every run\<close>

lemma run_sim:
  assumes m: "queue_moves_ok qinv tasks moves" and "server_run R moves s evs s'" and "good S view Q qinv tasks s"
  shows "good S view Q qinv tasks s' \<and> moving s s' \<and> sEtcd s' = sEtcd s"
  using assms(2,3)
proof (induction rule: server_run.induct)
  case (snoc s evs s' ev s'')
  then have IH: "good S view Q qinv tasks s'" "moving s s'" "sEtcd s' = sEtcd s" by simp_all
  note st = step_sim [OF m IH(1) snoc(2)]
  then have "moving s' s''" using quietly_moving by (auto split: if_splits)
  with moving_trans [OF IH(2)] st step_config(1) [OF IH(1) snoc(2)] IH(3) show ?case
    by (simp add: faultless_def)
qed simp

lemma moving_no_task_lost:
  assumes "moving s s'" and "faultless s" and "no_task_lost (sys_of view tasks s)"
  shows "no_task_lost (sys_of view tasks s')"
proof -
  have "(sys_move rnd True)\<^sup>*\<^sup>* (sys_of view tasks s) (sys_of view tasks s')"
    using assms(1,2) by (simp add: moving_def)
  then show ?thesis using assms(3) by (induction rule: rtranclp_induct) (auto intro: move_no_task_lost)
qed

lemma quietly_running:
  assumes "quietly s s'"
  shows "running_set (view (sDB s')) \<subseteq> running_set (view (sDB s))"
proof -
  have "running_set (fst b) \<subseteq> running_set (fst a)" if "(quiet rnd)\<^sup>*\<^sup>* a b" for a b
    using that by (induction rule: rtranclp_induct) (auto dest: quiet_running)
  from this [OF assms [unfolded quietly_def]] show ?thesis by (simp add: sys_of_def)
qed

lemma run_bounded:
  assumes m: "queue_moves_ok qinv tasks moves" and "server_run R moves s evs s'" and "good S view Q qinv tasks s"
    and "0 \<le> sMaxConcurrent s" "sMaxConcurrent s \<le> M" "int64_range M"
    and "\<forall>key val. ConfigChange key val \<in> set evs \<longrightarrow> Sscanf_d val \<le> M"
    and "int (card (running_set (view (sDB s)))) \<le> M"
  shows "0 \<le> sMaxConcurrent s' \<and> sMaxConcurrent s' \<le> M \<and> int (card (running_set (view (sDB s')))) \<le> M"
  using assms(2-)
proof (induction rule: server_run.induct)
  case (snoc s evs s' ev s'')
  then have IH: "0 \<le> sMaxConcurrent s'" "sMaxConcurrent s' \<le> M" "int (card (running_set (view (sDB s')))) \<le> M" by simp_all
  have g: "good S view Q qinv tasks s'" using run_sim [OF m snoc(1,4)] by simp
  note cfg = step_config(2) [OF g snoc(2)]
  have lim: "0 \<le> sMaxConcurrent s'' \<and> sMaxConcurrent s'' \<le> M"
    using cfg IH(1,2) snoc(8) by auto
  have "int (card (running_set (view (sDB s'')))) \<le> M"
  proof (cases "\<exists>now. ev = Tick now")
    case True
    with snoc(2) obtain fuel sorting now ds fs where t: "tick fuel sorting now s' = Some (s'', ds, fs)"
      by (auto elim: server_step.cases)
    have ok: "sched_ok S Q qinv s'" using g by (simp add: good_def)
    have "int64_range (sMaxConcurrent s')" "int64_range (int (card (running_set (view (sDB s')))))"
      using IH snoc(7) by (auto simp: int64_range_def)
    from tick_slots [OF ok t IH(1) this] IH show ?thesis by linarith
  next
    case False
    then have "quietly s' s''" using step_sim [OF m g snoc(2)] by simp
    from card_mono [OF finite_running quietly_running [OF this]] IH(3) show ?thesis by simp
  qed
  with lim show ?case by blast
qed simp

lemma step_exists:
  assumes g: "good S view Q qinv tasks s"
  shows "\<exists>s'. server_step R moves s ev s'"
proof -
  have np: "\<not> sPanicked s" and ok: "sched_ok S Q qinv s" using g by (simp_all add: good_def)
  show ?thesis
  proof (cases ev)
    case (Tick now)
    obtain s' ds fs where "tick (Suc (size (ready (sQ s)))) sortSlice now s = Some (s', ds, fs)"
      using tick_terminates [OF ok, of "Suc (size (ready (sQ s)))" sortSlice now] by (metis lessI prod_cases3)
    with server_step.tick [OF np] Tick show ?thesis by blast
  next
    case (Create uuid now req)
    with server_step.create [OF np] show ?thesis by (metis prod.collapse)
  next
    case (Cancel now uid)
    with server_step.cancel [OF np] show ?thesis by (metis prod.collapse)
  next
    case (Rerun uuid now uid)
    with server_step.rerun [OF np] show ?thesis by (metis prod.collapse)
  next
    case (Poll n)
    with server_step.poll [OF np] show ?thesis by (metis prod.collapse)
  next
    case Environment
    with server_step.nodes [OF np] show ?thesis by blast
  next
    case (Done now i res)
    with server_step.finished [OF np] show ?thesis by blast
  next
    case (Report now uid res)
    with server_step.report [OF np] show ?thesis by blast
  next
    case (CancelMessage channel)
    with server_step.cancel_message [OF np] show ?thesis by blast
  next
    case (ConfigChange key val)
    with server_step.config_change [OF np] show ?thesis by blast
  qed
qed

end

end
