(* ===== verification/System_Safety.thy ===== *)
theory System_Safety
  imports System_Run
begin

text \<open>
  Properties of every run of the server, in any interleaving of requests, ticks, reports, polls, messages and
  changes of the environment: it refines the abstract machine, its tasks are well typed, it neither panics
  nor gets stuck, the number of running tasks stays within the limit, and no waiting task is
  lost. They hold of every store and every reliable queue.
\<close>

section \<open>A server that has just started\<close>

text \<open>No task waits in the table and nothing is in flight.\<close>

definition fresh_server :: "'db TaskStore \<Rightarrow> ('db \<Rightarrow> string \<rightharpoonup> Task) \<Rightarrow> 'q TaskQueue \<Rightarrow> ('q \<Rightarrow> bool) \<Rightarrow>
    ('q \<Rightarrow> Task multiset) \<Rightarrow> ('db, 'q, 'r, 'e) Scheduler \<Rightarrow> bool" where
  "fresh_server S view Q qinv tasks s \<longleftrightarrow>
     sStore s = S \<and> sQueue s = Some Q \<and> qinv (sQ s) \<and> tasks (sQ s) = {#} \<and> \<not> sPanicked s \<and>
     sGoroutines s = [] \<and> sNodeTasks s = Map.empty \<and>
     (\<forall>u x. view (sDB s) u = Some x \<longrightarrow> typed_task x \<and> \<not> waits x)"

lemma fresh_good:
  assumes "task_store S view rnd" and "fresh_server S view Q qinv tasks s"
  shows "good S view Q qinv tasks s" and "no_task_lost (sys_of view tasks s)"
  using assms task_store.view_uid [OF assms(1)]
  by (auto simp: fresh_server_def good_def sched_ok_def sys_of_def typed_sys.simps flying_def chan_def)

lemma run_env:
  assumes "task_store S view rnd" and "reliable_queue Q qinv ready waiting tasks"
  shows "reliable_env S view rnd Q qinv ready waiting tasks"
  using assms reliable_queue.axioms(1) [OF assms(2)]
  by (intro reliable_env.intro scheduler_env.intro)

lemma run_exists:
  assumes env: "reliable_env S view rnd Q qinv ready waiting tasks" and m: "queue_moves_ok qinv tasks moves"
    and g: "good S view Q qinv tasks s"
  shows "\<exists>s'. server_run R moves s evs s'"
proof (induction evs rule: rev_induct)
  case (snoc ev evs)
  then obtain s' where r: "server_run R moves s evs s'" by blast
  with reliable_env.step_exists [OF env conjunct1 [OF reliable_env.run_sim [OF env m r g]], of R moves ev]
    server_run.snoc show ?case by blast
qed (use server_run.nil in blast)

section \<open>A small instance\<close>

definition drains :: "InMemQueue \<Rightarrow> InMemQueue \<Rightarrow> bool" where
  "drains q q' \<longleftrightarrow> (\<exists>now. q' = drainDelayedLoop_tick now q)"

lemma drains_ok: "queue_moves_ok queue_inv queue_tasks drains"
  by (auto simp: queue_moves_ok_def drains_def)

definition demo_fresh :: "(task_row list, InMemQueue, (string \<times> string) list, unit) Scheduler" where
  "demo_fresh = NewScheduler (NewTaskStore mem_pg) [] Second 4 None [] (Some InMemTaskQueue) (NewInMemQueue 10)
     None () 0 ''0123456789'' 3"

lemma demo_fresh_server:
  "fresh_server (NewTaskStore mem_pg) mem_view InMemTaskQueue queue_inv queue_tasks demo_fresh"
  "sMaxConcurrent demo_fresh = 4" "sEtcd demo_fresh = None" "running_set (mem_view (sDB demo_fresh)) = {}"
  "service_of (Some mem_redis) demo_fresh = demo_service"
  by (auto simp: fresh_server_def demo_fresh_def NewScheduler_def NewInMemQueue_def queue_inv_def queue_views
      mem.task_view_def mem_rows_def running_set_def service_of_def demo_service_def NewTaskService_def)

lemmas demo_env = run_env [OF mem.st.task_store_axioms inmem.reliable_queue_axioms]
lemmas demo_good = fresh_good [OF mem.st.task_store_axioms demo_fresh_server(1)]
lemmas demo_contracts = mem.st.task_store_axioms inmem.reliable_queue_axioms drains_ok demo_fresh_server(1)

abbreviation "demo_events \<equiv> [Create ''a'' 1 (demo_request ''ls'')]"

text \<open>The first creation on the fresh server.\<close>

lemma demo_created:
  obtains s x where "server_run (Some mem_redis) drains demo_fresh demo_events s"
    "mem_view (sDB s) ''a'' = Some x" "tStatus x = TaskStatusCreated"
proof -
  obtain t v where c: "CreateTask ''a'' 1 (demo_request ''ls'') demo_service = (Inr t, v)"
    and t: "t = (request_task ''a'' 1 (demo_request ''ls''))\<lparr>tID := 1\<rparr>" by (rule demo_create)
  have row: "mem_view (vDB v) ''a'' = Some (created_task (\<lambda>t. t) t)"
    using CreateTask_stores_and_queues_env [OF mem.st.task_store_axioms inmem.reliable_queue_axioms
        demo_service_ok c] by simp
  have np: "\<not> sPanicked demo_fresh" by (simp add: demo_fresh_def NewScheduler_def)
  have "server_run (Some mem_redis) drains demo_fresh ([] @ demo_events) (after_service demo_fresh v)"
    using server_run.nil
    by (rule server_run.snoc) (rule server_step.create [OF np], simp add: c demo_fresh_server)
  moreover have "mem_view (sDB (after_service demo_fresh v)) ''a'' = Some (created_task (\<lambda>t. t) t)"
    using row by (simp add: after_service_def)
  moreover have "tStatus (created_task (\<lambda>t. t) t) = TaskStatusCreated" by (simp add: created_task_def t)
  ultimately show thesis using that by simp
qed

lemma demo_run: obtains s where "server_run (Some mem_redis) drains demo_fresh (demo_events @ [Tick 9]) s"
  using run_exists [OF demo_env drains_ok demo_good(1)] by blast

section \<open>Properties\<close>

text \<open>
  C4. The server refines the abstract machine: whatever a run of it does to the table, the queue and the
  copies in flight is a sequence of the moves the machine allows (a task is created, started, retried, failed,
  succeeds or is cancelled, each with exactly the writes of that move), and where the store does not
  fail and no other scheduler claims tasks, no queued copy is dropped.
\<close>

theorem server_refines_machine:
  assumes ts: "task_store S view rnd" and rq: "reliable_queue Q qinv ready waiting tasks"
    and m: "queue_moves_ok qinv tasks moves" and f: "fresh_server S view Q qinv tasks s"
    and run: "server_run R moves s evs s'"
  shows "(sys_move rnd (store_up S view \<and> sEtcd s = None))\<^sup>*\<^sup>* (sys_of view tasks s) (sys_of view tasks s')"
proof -
  note env = run_env [OF ts rq]
  from reliable_env.run_sim [OF env m run fresh_good(1) [OF ts f]]
  show ?thesis by (simp add: reliable_env.moving_def [OF env] reliable_env.faultless_def [OF env])
qed

theorem server_refines_machine_witness:
  "\<exists>s. server_run (Some mem_redis) drains demo_fresh demo_events s \<and> mem_view (sDB s) ''a'' \<noteq> None \<and>
     (sys_move (\<lambda>t. t) True)\<^sup>*\<^sup>* (Map.empty, {#}, {}) (mem_view (sDB s), queue_tasks (sQ s), flying s)"
proof -
  obtain s x where r: "server_run (Some mem_redis) drains demo_fresh demo_events s"
    and x: "mem_view (sDB s) ''a'' = Some x" by (rule demo_created)
  have "sys_of mem_view queue_tasks demo_fresh = (Map.empty, {#}, {})"
    by (auto simp: sys_of_def demo_fresh_def NewScheduler_def NewInMemQueue_def queue_views mem.task_view_def
        mem_rows_def flying_def chan_def)
  with server_refines_machine [OF demo_contracts r] r x mem_store_up demo_fresh_server(3) show ?thesis
    by (auto simp: sys_of_def)
qed

text \<open>
  C3. The types of the state, over every run: each row sits under its UID, has one of the six known
  statuses, limits and counts in their ranges and the fields that belong to its status (a running
  task has a start and no end, a finished one has both, a success has an exit code); each queued copy
  is typed the same, waits and has a row; and each copy in a goroutine or in the channel of a
  node is typed, running and has a row.
\<close>

theorem server_state_typed:
  assumes ts: "task_store S view rnd" and rq: "reliable_queue Q qinv ready waiting tasks"
    and m: "queue_moves_ok qinv tasks moves" and f: "fresh_server S view Q qinv tasks s"
    and run: "server_run R moves s evs s'"
  shows "(\<forall>u x. view (sDB s') u = Some x \<longrightarrow> tTaskUID x = u \<and> typed_task x) \<and>
    (\<forall>t. t \<in># tasks (sQ s') \<longrightarrow> typed_task t \<and> waits t \<and> view (sDB s') (tTaskUID t) \<noteq> None) \<and>
    (\<forall>t \<in> flying s'. typed_task t \<and> tStatus t = TaskStatusRunning \<and> view (sDB s') (tTaskUID t) \<noteq> None)"
  using reliable_env.run_sim [OF run_env [OF ts rq] m run fresh_good(1) [OF ts f]]
  by (simp add: good_def sys_of_def typed_sys.simps)

theorem server_state_typed_witness:
  "\<exists>s x. server_run (Some mem_redis) drains demo_fresh demo_events s \<and>
     mem_view (sDB s) ''a'' = Some x \<and> tStatus x = TaskStatusCreated \<and> typed_task x"
  using demo_created server_state_typed [OF demo_contracts] by metis

text \<open>
  C11. The server neither panics nor gets stuck: after any run, whatever requests, reports, messages
  and ticks come next, each has a step (so every handler returns, the loop of the tick
  included), and no handler has panicked: no retry has a negative count, no queue is missing.
\<close>

theorem server_never_stuck:
  assumes ts: "task_store S view rnd" and rq: "reliable_queue Q qinv ready waiting tasks"
    and m: "queue_moves_ok qinv tasks moves" and f: "fresh_server S view Q qinv tasks s"
    and run: "server_run R moves s evs s'"
  shows "\<not> sPanicked s' \<and> (\<forall>ev. \<exists>s''. server_step R moves s' ev s'' \<and> \<not> sPanicked s'')"
proof -
  note env = run_env [OF ts rq]
  have g: "good S view Q qinv tasks s'" using reliable_env.run_sim [OF env m run fresh_good(1) [OF ts f]] by simp
  have "\<exists>s''. server_step R moves s' ev s'' \<and> \<not> sPanicked s''" for ev
    using reliable_env.step_exists [OF env g] reliable_env.step_sim [OF env m g] by (metis good_def)
  with g show ?thesis by (simp add: good_def)
qed

theorem server_never_stuck_witness:
  "\<exists>s. server_run (Some mem_redis) drains demo_fresh demo_events s \<and> \<not> sPanicked s \<and>
     (\<exists>s'. server_step (Some mem_redis) drains s (Tick 9) s')"
  using demo_created server_never_stuck [OF demo_contracts] by metis

text \<open>
  C1. At most \<open>max_concurrent_tasks\<close> tasks run, over every run: if the limit a server starts with and every limit a
  configuration change sets is at most \<open>M\<close>, and at most \<open>M\<close> tasks run at the start, then at
  every moment at most \<open>M\<close> rows say running.
\<close>

theorem running_bounded:
  assumes ts: "task_store S view rnd" and rq: "reliable_queue Q qinv ready waiting tasks"
    and m: "queue_moves_ok qinv tasks moves" and f: "fresh_server S view Q qinv tasks s"
    and run: "server_run R moves s evs s'"
    and lim: "0 \<le> sMaxConcurrent s" "sMaxConcurrent s \<le> M" "int64_range M"
      "\<forall>key val. ConfigChange key val \<in> set evs \<longrightarrow> Sscanf_d val \<le> M"
    and start: "int (card (running_set (view (sDB s)))) \<le> M"
  shows "int (card (running_set (view (sDB s')))) \<le> M"
  using reliable_env.run_bounded [OF run_env [OF ts rq] m run fresh_good(1) [OF ts f] lim start] by simp

theorem running_bounded_witness:
  "\<exists>s. server_run (Some mem_redis) drains demo_fresh (demo_events @ [Tick 9]) s \<and>
     int (card (running_set (mem_view (sDB s)))) \<le> 4"
proof -
  obtain s where r: "server_run (Some mem_redis) drains demo_fresh (demo_events @ [Tick 9]) s" by (rule demo_run)
  from running_bounded [OF demo_contracts r, of 4] r show ?thesis
    by (auto simp: demo_fresh_server int64_range_def)
qed

text \<open>
  C2. No waiting task is lost: while the store does not fail and no other scheduler claims tasks, after
  every run each row that says created or pending has a copy in the queue, so a later tick will find it,
  whatever was created, retried, cancelled, reported or timed out before.
\<close>

theorem no_waiting_task_lost:
  assumes ts: "task_store S view rnd" and rq: "reliable_queue Q qinv ready waiting tasks"
    and m: "queue_moves_ok qinv tasks moves" and f: "fresh_server S view Q qinv tasks s"
    and run: "server_run R moves s evs s'" and up: "store_up S view" "sEtcd s = None"
    and row: "view (sDB s') u = Some x" "tStatus x = TaskStatusCreated \<or> tStatus x = TaskStatusPending"
  shows "\<exists>t. t \<in># tasks (sQ s') \<and> tTaskUID t = u"
proof -
  note env = run_env [OF ts rq]
  have "reliable_env.moving S view rnd tasks s s'" using reliable_env.run_sim [OF env m run fresh_good(1) [OF ts f]] by simp
  from reliable_env.moving_no_task_lost [OF env this _ fresh_good(2) [OF ts f]] up row show ?thesis
    by (auto simp: reliable_env.faultless_def [OF env] sys_of_def waits_def)
qed

theorem no_waiting_task_lost_witness:
  "\<exists>s t. server_run (Some mem_redis) drains demo_fresh demo_events s \<and> t \<in># queue_tasks (sQ s) \<and> tTaskUID t = ''a''"
proof -
  obtain s x where r: "server_run (Some mem_redis) drains demo_fresh demo_events s"
    and x: "mem_view (sDB s) ''a'' = Some x" "tStatus x = TaskStatusCreated" by (rule demo_created)
  from no_waiting_task_lost [OF demo_contracts r mem_store_up demo_fresh_server(3) x(1)] x(2) r show ?thesis by blast
qed

text \<open>
  C35. One timeout queues a task twice: the check of the tick fails a running task whose time is over, but
  neither cancels its process nor forgets it, so when the process ends, too, with an error (its own timeout, say)
  the task is failed again: two copies of it are in the queue, both will run, and two of its retries are spent.
\<close>

theorem timeout_queues_twice:
  assumes ts: "task_store S view rnd" and rq: "reliable_queue Q qinv ready waiting tasks" and up: "store_up S view"
    and ok: "sched_ok S Q qinv s" "\<not> sPanicked s"
    and row: "view (sDB s) uid = Some t" "timedOut now t" "0 \<le> tRetryCount t" "tRetryCount t + 1 < tMaxRetries t"
    and tick: "checkRunning now [t] 0 0 s = (cpu, mem, s1)" and res: "trError res = Some e"
  shows "sCancelled s1 = sCancelled s \<and> sGoroutines s1 = sGoroutines s \<and> sNodeTasks s1 = sNodeTasks s \<and>
    (\<exists>x y. tTaskUID x = uid \<and> tTaskUID y = uid \<and>
      tasks (sQ (HandleRemoteResult later s1 uid res)) = tasks (sQ s) + {#x, y#})"
proof -
  note env = run_env [OF ts rq]
  have uid: "tTaskUID t = uid" using task_store.view_uid [OF ts row(1)] .
  have s1: "s1 = failTask now s t ''task timed out''" using tick ok(2) row(2) by simp
  have row': "view (sDB s) (tTaskUID t) = Some t" using row(1) uid by simp
  have can: "CanRetry t" using row(4) by (simp add: CanRetry_def)
  obtain y q where y: "view (sDB s1) = (view (sDB s))(uid \<mapsto> y)" "tRetryCount y = tRetryCount t + 1"
    "tMaxRetries y = tMaxRetries t" "tTaskUID q = uid" "tasks (sQ s1) = add_mset q (tasks (sQ s))"
    using reliable_env.failTask_requeues [OF env ok(1) up row' can row(3), of now "''task timed out''"]
    unfolding s1 uid by auto
  have ok1: "sched_ok S Q qinv s1"
    unfolding s1 by (rule scheduler_env.failTask_ok(1) [OF reliable_env.axioms(1) [OF env] ok(1)])
  have "view (sDB s1) uid = Some y" "CanRetry y" "0 \<le> tRetryCount y" using y row(3,4) by (simp_all add: CanRetry_def)
  from reliable_env.HandleRemoteResult_requeues [OF env ok1 up this res, of later] obtain q' where
    "tTaskUID q' = uid" "tasks (sQ (HandleRemoteResult later s1 uid res)) = add_mset q' (tasks (sQ s1))" by blast
  moreover have "sCancelled s1 = sCancelled s" unfolding s1 by (rule failTask_obs) simp_all
  ultimately show ?thesis using y(4,5)
    by (intro conjI exI [of _ q'] exI [of _ q]) (simp_all add: s1 sched_frame)
qed

definition demo_overdue :: "(task_row list, InMemQueue, unit, unit) Scheduler" where
  "demo_overdue = dispatchLocal 9 demo_sched ((demo_task ''a'')\<lparr>tStatus := TaskStatusPending, tMaxRetries := 3\<rparr>)"

theorem timeout_queues_twice_witness:
  "\<exists>t cpu mem s1 x y. mem_view (sDB demo_overdue) ''a'' = Some t \<and>
     checkRunning (9 + 301 * Second) [t] 0 0 demo_overdue = (cpu, mem, s1) \<and>
     tTaskUID x = ''a'' \<and> tTaskUID y = ''a'' \<and>
     queue_tasks (sQ (HandleRemoteResult (9 + 302 * Second) s1 ''a'' demo_failure)) =
       queue_tasks (sQ demo_overdue) + {#x, y#}"
proof -
  have "map_option (\<lambda>r. (timedOut (9 + 301 * Second) (scanTask r), r_retry_count r, r_max_retries r))
      (mem_rows (sDB demo_overdue) ''a'') = Some (True, 0, 3)" by code_simp
  then obtain t where t: "mem_view (sDB demo_overdue) ''a'' = Some t" "timedOut (9 + 301 * Second) t"
    "tRetryCount t = 0" "tMaxRetries t = 3"
    by (auto simp: mem.task_view_def scanTask_def)
  have ok: "sched_ok (NewTaskStore mem_pg) InMemTaskQueue queue_inv demo_overdue" "\<not> sPanicked demo_overdue"
    using demo_ok by (simp_all add: sched_ok_def demo_overdue_def sched_frame
        dispatchLocal_frame(1) [THEN sched_configD(1)] dispatchLocal_frame(1) [THEN sched_configD(2)])
      (simp add: demo_sched_def NewScheduler_def)
  obtain cpu mem s1 where c: "checkRunning (9 + 301 * Second) [t] 0 0 demo_overdue = (cpu, mem, s1)"
    by (metis prod.collapse)
  have e: "trError demo_failure = Some (ErrExit 1 ''exit status 1'')" by (simp add: demo_failure_def)
  have n: "0 \<le> tRetryCount t" "tRetryCount t + 1 < tMaxRetries t" using t(3,4) by simp_all
  from timeout_queues_twice [OF mem.st.task_store_axioms inmem.reliable_queue_axioms mem_store_up ok t(1,2) n c e,
      of "9 + 302 * Second"] t(1) c show ?thesis by blast
qed

end
