(* ===== verification/Go_Strconv.thy ===== *)
theory Go_Strconv
  imports MB_Prelude
begin

text \<open>
  Go's \<^verbatim>\<open>strconv\<close> and \<^verbatim>\<open>fmt\<close> on decimal integers, as far as configuration, API and log stream
  use them: \<open>Itoa\<close> (also \<^verbatim>\<open>%d\<close>), and \<open>Atoi\<close> (also \<^verbatim>\<open>ParseInt(s, 10, 64)\<close>) with its value next to its error: a
  number out of range gives the nearest 64-bit value and an error, anything else that is not a
  number gives 0 and an error. What \<open>Itoa\<close> prints, \<open>Atoi\<close> reads.
\<close>

definition digit :: "nat \<Rightarrow> char" where
  "digit d = char_of (48 + d)"

definition is_digit :: "char \<Rightarrow> bool" where
  "is_digit c \<longleftrightarrow> CHR ''0'' \<le> c \<and> c \<le> CHR ''9''"

fun nat_digits :: "nat \<Rightarrow> string" where
  "nat_digits n = (if n < 10 then [digit n] else nat_digits (n div 10) @ [digit (n mod 10)])"

declare nat_digits.simps [simp del]

definition Itoa :: "int \<Rightarrow> string" where
  "Itoa n = (if n < 0 then CHR ''-'' # nat_digits (nat (- n)) else nat_digits (nat n))"

definition dec_value :: "string \<Rightarrow> int" where
  "dec_value ds = foldl (\<lambda>n c. n * 10 + (of_char c - 48)) 0 ds"

definition Atoi :: "string \<Rightarrow> int \<times> error option" where
  "Atoi s =
     (let (neg, ds) = (case s of [] \<Rightarrow> (False, [])
            | c # cs \<Rightarrow> if c = CHR ''-'' then (True, cs) else if c = CHR ''+'' then (False, cs) else (False, s));
          v = (if neg then - dec_value ds else dec_value ds)
      in if ds = [] \<or> \<not> list_all is_digit ds then (0, Some (ErrOther ''invalid syntax''))
         else if int64_range v then (v, None)
         else (if neg then - (2 ^ 63) else 2 ^ 63 - 1, Some (ErrOther ''value out of range'')))"

lemma of_char_digit_nat: "d < 10 \<Longrightarrow> (of_char (digit d) :: nat) = 48 + d"
  by (simp add: digit_def of_char_of)

lemma of_char_digit: "d < 10 \<Longrightarrow> (of_char (digit d) :: int) = 48 + int d"
proof -
  assume "d < 10"
  have "(of_char (digit d) :: int) = int (of_char (digit d))" by (simp only: of_nat_of_char)
  also have "\<dots> = 48 + int d" by (subst of_char_digit_nat [OF \<open>d < 10\<close>]) simp
  finally show ?thesis .
qed

lemma is_digit_digit: "d < 10 \<Longrightarrow> is_digit (digit d)"
  by (simp add: is_digit_def less_eq_char_def of_char_digit_nat)

lemma nat_digits_all: "list_all is_digit (nat_digits n)"
  by (induction n rule: nat_digits.induct) (subst nat_digits.simps, simp add: is_digit_digit)

lemma nat_digits_not_Nil [simp]: "nat_digits n \<noteq> []"
  by (subst nat_digits.simps) simp

lemma dec_value_append: "dec_value (xs @ [c]) = dec_value xs * 10 + (of_char c - 48)"
  by (simp add: dec_value_def)

lemma dec_value_digits: "dec_value (nat_digits n) = int n"
proof (induction n rule: nat_digits.induct)
  case (1 n)
  show ?case
  proof (cases "n < 10")
    case True
    then show ?thesis by (subst nat_digits.simps) (simp add: dec_value_def of_char_digit)
  next
    case False
    with 1 have "dec_value (nat_digits n) = int (n div 10) * 10 + int (n mod 10)"
      by (subst nat_digits.simps) (simp add: dec_value_append of_char_digit)
    also have "\<dots> = int n" by (metis div_mult_mod_eq of_nat_add of_nat_mult of_nat_numeral)
    finally show ?thesis .
  qed
qed

lemma digit_head:
  "nat_digits n = c # cs \<Longrightarrow> c \<noteq> CHR ''-'' \<and> c \<noteq> CHR ''+''"
  using nat_digits_all [of n] by (auto simp: is_digit_def less_eq_char_def)

lemma Atoi_Itoa: "int64_range n \<Longrightarrow> Atoi (Itoa n) = (n, None)"
proof (cases "n < 0")
  case True
  moreover assume "int64_range n"
  ultimately show ?thesis
    by (simp add: Atoi_def Itoa_def dec_value_digits nat_digits_all)
next
  case False
  moreover assume "int64_range n"
  moreover obtain c cs where "nat_digits (nat n) = c # cs" by (cases "nat_digits (nat n)") auto
  moreover from this have "c \<noteq> CHR ''-'' \<and> c \<noteq> CHR ''+''" by (rule digit_head)
  ultimately show ?thesis
    using dec_value_digits [of "nat n"] nat_digits_all [of "nat n"]
    by (simp add: Atoi_def Itoa_def)
qed

lemma Atoi_range: "int64_range (fst (Atoi s))"
  by (auto simp: Atoi_def Let_def int64_range_def split: prod.split list.split)

end
