(* ===== verification/Config.thy ===== *)
theory Config
  imports Go_Strconv
begin

text \<open>
  \<^verbatim>\<open>internal/config/config.go\<close> and \<^verbatim>\<open>internal/config/watcher.go\<close>: the configuration with its
  defaults and the overrides by environment variables, and the watch on configuration keys in
  etcd. The library \<^verbatim>\<open>viper\<close> is a record of what \<open>Load\<close> uses of it: reading the file of a path (or of the
  search path), and the values that result from the defaults, the file and its own environment
  lookup; the process environment is a function.
\<close>

section \<open>Configuration\<close>

record ServerConfig =
  svPort :: int
  svHost :: string

record DatabaseConfig =
  dbHost :: string
  dbPort :: int
  dbUser :: string
  dbPassword :: string
  dbName :: string
  dbSSLMode :: string

record RedisConfig =
  rdAddr :: string
  rdPassword :: string
  rdDB :: int

record EtcdConfig =
  ecEndpoints :: "string list"
  ecDialTimeoutSec :: int

record SchedulerConfig =
  scTickIntervalMs :: int
  scMaxConcurrentTasks :: int

record ExecutorConfig =
  exDefaultTimeoutSec :: int
  exDefaultWorkdir :: string

record RetryConfig =
  rtMaxAttempts :: int
  rtInitialIntervalSec :: int
  rtMaxIntervalSec :: int
  rtMultiplier :: int

record RateLimitConfig =
  rlEnabled :: bool
  rlRequestsPerMinute :: int

record GRPCConfig =
  grPort :: int

record AgentConfig =
  agHeartbeatIntervalSec :: int
  agHeartbeatTimeoutSec :: int

record Config =
  cfServer :: ServerConfig
  cfDatabase :: DatabaseConfig
  cfRedis :: RedisConfig
  cfEtcd :: EtcdConfig
  cfScheduler :: SchedulerConfig
  cfExecutor :: ExecutorConfig
  cfRetry :: RetryConfig
  cfRateLimit :: RateLimitConfig
  cfGRPC :: GRPCConfig
  cfAgent :: AgentConfig

definition ServerConfig_Addr :: "ServerConfig \<Rightarrow> string" where
  "ServerConfig_Addr s = svHost s @ '':'' @ Itoa (svPort s)"

definition DatabaseConfig_DSN :: "DatabaseConfig \<Rightarrow> string" where
  "DatabaseConfig_DSN d =
     ''postgres://'' @ dbUser d @ '':'' @ dbPassword d @ ''@'' @ dbHost d @ '':'' @ Itoa (dbPort d) @
     ''/'' @ dbName d @ ''?sslmode='' @ dbSSLMode d"

section \<open>Load\<close>

datatype setting = SStr string | SInt int | SBool bool | SList "string list"

datatype read_result = ReadOk | ReadNotFound | ReadError error

record viper =
  vpRead :: "string \<Rightarrow> read_result"
  vpUnmarshal :: "string \<Rightarrow> (string \<times> setting) list \<Rightarrow> Config result"

definition config_defaults :: "(string \<times> setting) list" where
  "config_defaults = [
     (''server.port'', SInt 8080),
     (''server.host'', SStr ''0.0.0.0''),
     (''database.host'', SStr ''localhost''),
     (''database.port'', SInt 5432),
     (''database.sslmode'', SStr ''disable''),
     (''redis.addr'', SStr ''localhost:6379''),
     (''redis.password'', SStr ''''),
     (''redis.db'', SInt 0),
     (''scheduler.tick_interval_ms'', SInt 500),
     (''scheduler.max_concurrent_tasks'', SInt 10),
     (''executor.default_timeout_sec'', SInt 300),
     (''executor.default_workdir'', SStr ''/tmp''),
     (''retry.max_attempts'', SInt 3),
     (''retry.initial_interval_sec'', SInt 1),
     (''retry.max_interval_sec'', SInt 60),
     (''retry.multiplier'', SInt 2),
     (''rate_limit.enabled'', SBool True),
     (''rate_limit.requests_per_minute'', SInt 100),
     (''grpc.port'', SInt 50051),
     (''etcd.endpoints'', SList [''localhost:2379'']),
     (''etcd.dial_timeout_sec'', SInt 5),
     (''agent.heartbeat_interval_sec'', SInt 10),
     (''agent.heartbeat_timeout_sec'', SInt 30)]"

text \<open>The override of an integer field, which a value that is no number leaves alone, and of a
  string field.\<close>

definition env_int :: "(string \<Rightarrow> string) \<Rightarrow> string \<Rightarrow> (int \<Rightarrow> Config \<Rightarrow> Config) \<Rightarrow> Config \<Rightarrow> Config" where
  "env_int getenv name assign cfg =
     (if getenv name \<noteq> [] then
        (case Atoi (getenv name) of
           (v, Some err) \<Rightarrow> cfg
         | (v, None) \<Rightarrow> assign v cfg)
      else cfg)"

definition env_str :: "(string \<Rightarrow> string) \<Rightarrow> string \<Rightarrow> (string \<Rightarrow> Config \<Rightarrow> Config) \<Rightarrow> Config \<Rightarrow> Config" where
  "env_str getenv name assign cfg = (if getenv name \<noteq> [] then assign (getenv name) cfg else cfg)"

definition env_overrides :: "(string \<Rightarrow> string) \<Rightarrow> Config \<Rightarrow> Config" where
  "env_overrides getenv cfg0 =
     (let cfg1 = env_int getenv ''MINIBK_SERVER_PORT''
            (\<lambda>v c. c\<lparr>cfServer := (cfServer c)\<lparr>svPort := v\<rparr>\<rparr>) cfg0;
          cfg2 = env_str getenv ''MINIBK_DATABASE_HOST''
            (\<lambda>v c. c\<lparr>cfDatabase := (cfDatabase c)\<lparr>dbHost := v\<rparr>\<rparr>) cfg1;
          cfg3 = env_int getenv ''MINIBK_DATABASE_PORT''
            (\<lambda>v c. c\<lparr>cfDatabase := (cfDatabase c)\<lparr>dbPort := v\<rparr>\<rparr>) cfg2;
          cfg4 = env_str getenv ''MINIBK_DATABASE_USER''
            (\<lambda>v c. c\<lparr>cfDatabase := (cfDatabase c)\<lparr>dbUser := v\<rparr>\<rparr>) cfg3;
          cfg5 = env_str getenv ''MINIBK_DATABASE_PASSWORD''
            (\<lambda>v c. c\<lparr>cfDatabase := (cfDatabase c)\<lparr>dbPassword := v\<rparr>\<rparr>) cfg4;
          cfg6 = env_str getenv ''MINIBK_DATABASE_DBNAME''
            (\<lambda>v c. c\<lparr>cfDatabase := (cfDatabase c)\<lparr>dbName := v\<rparr>\<rparr>) cfg5;
          cfg7 = env_str getenv ''MINIBK_DATABASE_SSLMODE''
            (\<lambda>v c. c\<lparr>cfDatabase := (cfDatabase c)\<lparr>dbSSLMode := v\<rparr>\<rparr>) cfg6;
          cfg8 = env_int getenv ''MINIBK_SCHEDULER_TICK_INTERVAL_MS''
            (\<lambda>v c. c\<lparr>cfScheduler := (cfScheduler c)\<lparr>scTickIntervalMs := v\<rparr>\<rparr>) cfg7;
          cfg9 = env_int getenv ''MINIBK_SCHEDULER_MAX_CONCURRENT_TASKS''
            (\<lambda>v c. c\<lparr>cfScheduler := (cfScheduler c)\<lparr>scMaxConcurrentTasks := v\<rparr>\<rparr>) cfg8;
          cfg10 = env_int getenv ''MINIBK_EXECUTOR_DEFAULT_TIMEOUT_SEC''
            (\<lambda>v c. c\<lparr>cfExecutor := (cfExecutor c)\<lparr>exDefaultTimeoutSec := v\<rparr>\<rparr>) cfg9
      in env_str getenv ''MINIBK_EXECUTOR_DEFAULT_WORKDIR''
           (\<lambda>v c. c\<lparr>cfExecutor := (cfExecutor c)\<lparr>exDefaultWorkdir := v\<rparr>\<rparr>) cfg10)"

definition Load :: "viper \<Rightarrow> (string \<Rightarrow> string) \<Rightarrow> string \<Rightarrow> Config result" where
  "Load v getenv configPath =
     (case vpRead v configPath of
        ReadError e \<Rightarrow> Inl (ErrWrap ''read config'' e)
      | _ \<Rightarrow>
          (case vpUnmarshal v configPath config_defaults of
             Inl e \<Rightarrow> Inl (ErrWrap ''unmarshal config'' e)
           | Inr cfg \<Rightarrow> Inr (env_overrides getenv cfg)))"

section \<open>The watch\<close>

datatype config_event = ConfigPut string string | ConfigDelete string

record 'e config_etcd =
  wcGet :: "'e \<Rightarrow> string \<Rightarrow> ((string \<times> string) list \<times> int) result"
  wcWatch :: "'e \<Rightarrow> string \<Rightarrow> int \<Rightarrow> config_event list"
  wcPut :: "'e \<Rightarrow> string \<Rightarrow> string \<Rightarrow> error option \<times> 'e"

text \<open>\<^verbatim>\<open>Watch\<close> with a callback on a state, and \<^verbatim>\<open>UpdateConfig\<close>; \<open>None\<close> is a missing client.\<close>

definition config_callback :: "(string \<Rightarrow> string \<Rightarrow> 's \<Rightarrow> 's) \<Rightarrow> config_event \<Rightarrow> 's \<Rightarrow> 's" where
  "config_callback callback ev s = (case ev of ConfigPut k v \<Rightarrow> callback k v s | ConfigDelete k \<Rightarrow> s)"

definition ConfigWatcher_Watch ::
    "'e config_etcd option \<Rightarrow> 'e \<Rightarrow> string \<Rightarrow> (string \<Rightarrow> string \<Rightarrow> 's \<Rightarrow> 's) \<Rightarrow> 's \<Rightarrow> 's" where
  "ConfigWatcher_Watch cw st prefix callback s =
     (case cw of
        None \<Rightarrow> s
      | Some E \<Rightarrow>
          (case wcGet E st prefix of
             Inl e \<Rightarrow> fold (config_callback callback) (wcWatch E st prefix 0) s
           | Inr (kvs, revision) \<Rightarrow>
               fold (config_callback callback) (wcWatch E st prefix (revision + 1))
                 (fold (\<lambda>(k, v). callback k v) kvs s)))"

definition UpdateConfig :: "'e config_etcd option \<Rightarrow> 'e \<Rightarrow> string \<Rightarrow> string \<Rightarrow> error option \<times> 'e" where
  "UpdateConfig cw st key val = (case cw of None \<Rightarrow> (None, st) | Some E \<Rightarrow> wcPut E st key val)"

section \<open>Properties\<close>

lemma Itoa_not_Nil [simp]: "Itoa n \<noteq> []"
  by (simp add: Itoa_def)

lemma env_int_sel:
  "f (env_int getenv name assign c) =
     (if getenv name \<noteq> [] \<and> snd (Atoi (getenv name)) = None
      then f (assign (fst (Atoi (getenv name))) c) else f c)"
  by (simp add: env_int_def split: prod.split option.split)

lemma env_str_sel:
  "f (env_str getenv name assign c) = (if getenv name \<noteq> [] then f (assign (getenv name) c) else f c)"
  by (simp add: env_str_def)

lemma env_frame:
  "(\<And>v c. f (assign v c) = f c) \<Longrightarrow> f (env_int getenv name assign c) = f c"
  "(\<And>v c. f (assign' v c) = f c) \<Longrightarrow> f (env_str getenv name assign' c) = f c"
  by (simp_all add: env_int_sel [of f] env_str_sel [of f])

lemmas env_frames =
  env_frame [of "\<lambda>c. cfServer c"]
  env_frame [of "\<lambda>c. cfRedis c"]
  env_frame [of "\<lambda>c. cfEtcd c"]
  env_frame [of "\<lambda>c. cfRateLimit c"]
  env_frame [of "\<lambda>c. svPort (cfServer c)"]
  env_frame [of "\<lambda>c. scMaxConcurrentTasks (cfScheduler c)"]
  env_frame [of "\<lambda>c. scTickIntervalMs (cfScheduler c)"]
  env_frame [of "\<lambda>c. dbPort (cfDatabase c)"]
  env_frame [of "\<lambda>c. dbPassword (cfDatabase c)"]

lemmas env_hits =
  env_int_sel [of cfServer _ "''MINIBK_SERVER_PORT''"]
  env_int_sel [of "\<lambda>c. svPort (cfServer c)" _ "''MINIBK_SERVER_PORT''"]
  env_int_sel [of "\<lambda>c. scMaxConcurrentTasks (cfScheduler c)" _ "''MINIBK_SCHEDULER_MAX_CONCURRENT_TASKS''"]
  env_int_sel [of "\<lambda>c. scTickIntervalMs (cfScheduler c)" _ "''MINIBK_SCHEDULER_TICK_INTERVAL_MS''"]
  env_int_sel [of "\<lambda>c. dbPort (cfDatabase c)" _ "''MINIBK_DATABASE_PORT''"]
  env_str_sel [of "\<lambda>c. dbPassword (cfDatabase c)" _ "''MINIBK_DATABASE_PASSWORD''"]


definition demo_settings :: Config where
  "demo_settings = \<lparr>
     cfServer = \<lparr>svPort = 8080, svHost = ''0.0.0.0''\<rparr>,
     cfDatabase = \<lparr>dbHost = ''localhost'', dbPort = 5432, dbUser = ''u'', dbPassword = ''p'', dbName = ''d'',
       dbSSLMode = ''disable''\<rparr>,
     cfRedis = \<lparr>rdAddr = ''localhost:6379'', rdPassword = [], rdDB = 0\<rparr>,
     cfEtcd = \<lparr>ecEndpoints = [''localhost:2379''], ecDialTimeoutSec = 5\<rparr>,
     cfScheduler = \<lparr>scTickIntervalMs = 500, scMaxConcurrentTasks = 10\<rparr>,
     cfExecutor = \<lparr>exDefaultTimeoutSec = 300, exDefaultWorkdir = ''/tmp''\<rparr>,
     cfRetry = \<lparr>rtMaxAttempts = 3, rtInitialIntervalSec = 1, rtMaxIntervalSec = 60, rtMultiplier = 2\<rparr>,
     cfRateLimit = \<lparr>rlEnabled = True, rlRequestsPerMinute = 100\<rparr>,
     cfGRPC = \<lparr>grPort = 50051\<rparr>,
     cfAgent = \<lparr>agHeartbeatIntervalSec = 10, agHeartbeatTimeoutSec = 30\<rparr>\<rparr>"

definition demo_viper :: viper where
  "demo_viper = \<lparr>vpRead = (\<lambda>p. ReadNotFound), vpUnmarshal = (\<lambda>p ds. Inr demo_settings)\<rparr>"


end
