(* ===== verification/Server_Loops.thy ===== *)
theory Server_Loops
  imports System_Safety Config
begin

text \<open>
  The goroutines \<^verbatim>\<open>Start\<close> of \<^verbatim>\<open>internal/scheduler/scheduler.go\<close> launches next to the tick loop: the listener
  for cancellations over Redis, and the watch of the configuration in etcd. Every event they handle, and every
  turn of the tick loop, is a step of the running server, so what holds of every run holds of what
  \<^verbatim>\<open>Start\<close> does.
\<close>

section \<open>Cancellations\<close>

text \<open>What the \<^verbatim>\<open>select\<close> of the listener takes: the end of the context, a message of the channel named, or that
  the subscription is closed.\<close>

datatype sub_event = SubCtxDone | SubMessage string | SubClosed

fun cancelListener :: "sub_event list \<Rightarrow> ('db, 'q, 'r, 'e) Scheduler \<Rightarrow> ('db, 'q, 'r, 'e) Scheduler" where
  "cancelListener [] s = s"
| "cancelListener (SubCtxDone # evs) s = s"
| "cancelListener (SubMessage channel # evs) s = cancelListener evs (onCancelMessage s channel)"
| "cancelListener (SubClosed # evs) s = s"

text \<open>The subscription may fail; without Redis there is none.\<close>

definition listenForCancel ::
    "error option \<Rightarrow> sub_event list \<Rightarrow> ('db, 'q, 'r, 'e) Scheduler \<Rightarrow> ('db, 'q, 'r, 'e) Scheduler" where
  "listenForCancel receiveErr evs s =
     (case sRdb s of
        None \<Rightarrow> s
      | Some rdb \<Rightarrow> (case receiveErr of Some err \<Rightarrow> s | None \<Rightarrow> cancelListener evs s))"

section \<open>Configuration\<close>

text \<open>The scheduler has a watcher if it has an etcd client.\<close>

definition watchConfig ::
    "'w config_etcd \<Rightarrow> 'w \<Rightarrow> ('db, 'q, 'r, 'e) Scheduler \<Rightarrow> ('db, 'q, 'r, 'e) Scheduler" where
  "watchConfig E st s =
     (case sEtcd s of
        None \<Rightarrow> s
      | Some etcd \<Rightarrow>
          ConfigWatcher_Watch (Some E) st ''/config/scheduler/'' (\<lambda>key val s'. onConfigChange s' key val) s)"

section \<open>The goroutines as runs\<close>

lemma server_run_trans:
  "server_run R moves s evs s' \<Longrightarrow> server_run R moves s' evs' s'' \<Longrightarrow> server_run R moves s (evs @ evs') s''"
proof (rotate_tac, induction rule: server_run.induct)
  case (snoc s' evs' t ev t')
  from server_run.snoc [OF snoc(3) [OF snoc(4)] snoc(2)] show ?case by simp
qed simp

lemma server_run_one: "server_step R moves s ev s' \<Longrightarrow> server_run R moves s [ev] s'"
  using server_run.snoc [OF server_run.nil] by fastforce

lemma onCancelMessage_panicked [simp]: "sPanicked (onCancelMessage s channel) = sPanicked s"
  by (simp add: onCancelMessage_def deleteCancel_def Let_def split: option.split)

lemma cancelListener_run:
  "\<not> sPanicked s \<Longrightarrow> \<exists>cs. server_run R moves s (map CancelMessage cs) (cancelListener evs s)"
proof (induction evs s rule: cancelListener.induct)
  case (3 channel evs s)
  have one: "server_run R moves s [CancelMessage channel] (onCancelMessage s channel)"
    using server_step.cancel_message [OF 3(2)] by (rule server_run_one)
  obtain cs where "server_run R moves (onCancelMessage s channel) (map CancelMessage cs)
      (cancelListener evs (onCancelMessage s channel))" using 3 by auto
  from server_run_trans [OF one this] show ?case by (intro exI [of _ "channel # cs"]) simp
qed (auto intro!: exI [of _ "[]"] server_run.nil)

lemma config_fold_run:
  "\<not> sPanicked s \<Longrightarrow>
   server_run R moves s (map (\<lambda>(k, v). ConfigChange k v) kvs) (fold (\<lambda>(k, v) s'. onConfigChange s' k v) kvs s)"
proof (induction kvs arbitrary: s)
  case (Cons kv kvs)
  obtain k v where kv: "kv = (k, v)" by fastforce
  have one: "server_run R moves s [ConfigChange k v] (onConfigChange s k v)"
    using server_step.config_change [OF Cons(2)] by (rule server_run_one)
  from server_run_trans [OF one Cons(1)] Cons(2) show ?case by (simp add: kv)
qed (simp add: server_run.nil)

lemma config_events_fold:
  "fold (config_callback (\<lambda>key val s'. onConfigChange s' key val)) evs s =
     fold (\<lambda>(k, v) s'. onConfigChange s' k v) [(k, v). ConfigPut k v \<leftarrow> evs] s"
  by (induction evs arbitrary: s) (simp_all add: config_callback_def split: config_event.split)

lemma watchConfig_run:
  assumes "\<not> sPanicked s"
  shows "\<exists>kvs. server_run R moves s (map (\<lambda>(k, v). ConfigChange k v) kvs) (watchConfig E st s)"
proof -
  let ?f = "\<lambda>kvs s. fold (\<lambda>(k, v) s'. onConfigChange s' k v) kvs s"
  have "\<exists>kvs. watchConfig E st s = ?f kvs s"
  proof (cases "sEtcd s")
    case None
    then show ?thesis by (intro exI [of _ "[]"]) (simp add: watchConfig_def)
  next
    case (Some etcd)
    show ?thesis
    proof (cases "wcGet E st ''/config/scheduler/''")
      case (Inl e)
      then show ?thesis
        by (simp add: watchConfig_def Some ConfigWatcher_Watch_def config_events_fold) blast
    next
      case (Inr r)
      obtain kvs rev where r: "r = (kvs, rev)" by fastforce
      let ?evs = "wcWatch E st ''/config/scheduler/'' (rev + 1)"
      have "watchConfig E st s = ?f (kvs @ [(k, v). ConfigPut k v \<leftarrow> ?evs]) s"
        by (simp add: watchConfig_def Some ConfigWatcher_Watch_def Inr r config_events_fold)
      then show ?thesis by blast
    qed
  qed
  with config_fold_run [OF assms] show ?thesis by metis
qed

lemma tickTurns_run:
  "tickTurns fuel sorting e script s = Some (n, s') \<Longrightarrow>
   \<exists>ts. length ts = n \<and> server_run R moves s (map Tick ts) s'"
proof (induction script arbitrary: s n)
  case (Cons x script)
  obtain leader ev where x: "x = (leader, ev)" by fastforce
  show ?case
  proof (cases "e \<and> \<not> leader \<or> sPanicked s \<or> ev = CtxDone")
    case True
    then have "n = 0 \<and> s' = s" using Cons(2) by (auto simp: x split: loop_event.splits)
    then show ?thesis by (intro exI [of _ "[]"]) (simp add: server_run.nil)
  next
    case False
    then obtain now where ev: "ev = TickAt now" by (cases ev) auto
    with False Cons(2) obtain s1 ds fs m where t: "tick fuel sorting now s = Some (s1, ds, fs)"
      and r: "tickTurns fuel sorting e script s1 = Some (m, s')" "n = m + 1"
      by (auto simp: x split: option.splits)
    from Cons(1) [OF r(1)] obtain ts where ts: "length ts = m" "server_run R moves s1 (map Tick ts) s'" by blast
    have "server_run R moves s [Tick now] s1"
      using server_step.tick [OF _ t] False by (intro server_run_one) blast
    from server_run_trans [OF this ts(2)] ts(1) r(2) show ?thesis by (intro exI [of _ "now # ts"]) simp
  qed
qed (auto intro!: exI [of _ "[]"] server_run.nil)

text \<open>Whether or not there is an election, what \<^verbatim>\<open>Start\<close> does from a positive interval on is a run of as many ticks as it
  counts (none with an election).\<close>

lemma Start_run:
  assumes "0 < sTickInterval s" and "Start fuel sorting election ticks evs s = Some (n, s')"
  shows "\<exists>ts. length ts = n \<and> server_run R moves s (map Tick ts) s'"
proof (cases election)
  case None
  with assms tickTurns_run [of fuel sorting False ticks s n s'] show ?thesis
    by (simp add: Start_def runTickLoop_def)
next
  case (Some le)
  with assms show ?thesis
    by (auto simp: Start_def electionLoop_idle intro!: exI [of _ "[]"] server_run.nil)
qed

end
