(* ===== verification/Connections.thy ===== *)
theory Connections
  imports MB_Prelude
begin

text \<open>
  \<^verbatim>\<open>internal/store/postgres.go\<close>, \<^verbatim>\<open>redis.go\<close> and \<^verbatim>\<open>etcd.go\<close>: opening, testing and closing the clients. The
  drivers (\<^verbatim>\<open>database/sql\<close>, \<^verbatim>\<open>go-redis\<close>, \<^verbatim>\<open>etcd/client\<close>) are outside; a client is a handle, and a driver a record
  of functions on a state, in which \<open>opened\<close> are the handles that hold resources. What is
  relied on is the locale \<open>client_driver\<close>: opening gives a fresh handle or none, a ping changes no handle,
  closing gives one back.

  The lemmas: what each constructor leaves open, on success and on each of its failures.
\<close>

section \<open>Drivers\<close>

text \<open>\<open>'o\<close> are the options of the driver, \<open>'c\<close> its handles; a ping has a deadline.\<close>

record ('w, 'o, 'c) driver =
  drOpen :: "'w \<Rightarrow> 'o \<Rightarrow> 'c result \<times> 'w"
  drPing :: "'w \<Rightarrow> 'c \<Rightarrow> go_time \<Rightarrow> error option \<times> 'w"
  drClose :: "'w \<Rightarrow> 'c \<Rightarrow> error option \<times> 'w"

locale client_driver =
  fixes D :: "('w, 'o, 'c) driver"
    and opened :: "'w \<Rightarrow> 'c set"
  assumes open_ok: "drOpen D w opts = (Inr c, w') \<Longrightarrow> c \<notin> opened w \<and> opened w' = insert c (opened w)"
    and open_err: "drOpen D w opts = (Inl e, w') \<Longrightarrow> opened w' = opened w"
    and ping_same: "drPing D w c deadline = (r, w') \<Longrightarrow> opened w' = opened w"
    and close_handle: "drClose D w c = (r, w') \<Longrightarrow> opened w' = opened w - {c}"

text \<open>\<^verbatim>\<open>context.WithTimeout\<close>: the earlier of the deadline of the parent and now plus the timeout.\<close>

definition with_timeout :: "go_time \<Rightarrow> go_time \<Rightarrow> duration \<Rightarrow> go_time" where
  "with_timeout now parent d = min parent (now + d)"

section \<open>The constructors\<close>

record 'c Postgres =
  pgDB :: 'c

record pool_settings =
  psMaxOpenConns :: int
  psMaxIdleConns :: int
  psConnMaxLifetime :: duration

definition pg_settings :: pool_settings where
  "pg_settings = \<lparr>psMaxOpenConns = 25, psMaxIdleConns = 5, psConnMaxLifetime = 5 * Minute\<rparr>"

text \<open>\<open>set\<close> applies the settings of the pool to the handle.\<close>

definition NewPostgres ::
    "('w, string, 'c) driver \<Rightarrow> ('w \<Rightarrow> 'c \<Rightarrow> pool_settings \<Rightarrow> 'w) \<Rightarrow> go_time \<Rightarrow> go_time \<Rightarrow> string \<Rightarrow> 'w \<Rightarrow>
     'c Postgres result \<times> 'w" where
  "NewPostgres D settings now deadline dsn w =
     (case drOpen D w dsn of
        (Inl err, w1) \<Rightarrow> (Inl (ErrWrap ''open postgres'' err), w1)
      | (Inr db, w1) \<Rightarrow>
          (let w2 = settings w1 db pg_settings in
           case drPing D w2 db (with_timeout now deadline (5 * Second)) of
             (Some err, w3) \<Rightarrow> (Inl (ErrWrap ''ping postgres'' err), snd (drClose D w3 db))
           | (None, w3) \<Rightarrow> (Inr \<lparr>pgDB = db\<rparr>, w3)))"

definition Postgres_Close :: "('w, string, 'c) driver \<Rightarrow> 'c Postgres \<Rightarrow> 'w \<Rightarrow> error option \<times> 'w" where
  "Postgres_Close D p w = drClose D w (pgDB p)"

record redis_options =
  roAddr :: string
  roPassword :: string
  roDB :: int

record 'c Redis =
  rcClient :: 'c

text \<open>\<^verbatim>\<open>redis.NewClient\<close> cannot fail: \<open>fresh\<close> is its handle.\<close>

definition NewRedis ::
    "('w, redis_options, 'c) driver \<Rightarrow> ('w \<Rightarrow> redis_options \<Rightarrow> 'c \<times> 'w) \<Rightarrow> go_time \<Rightarrow> string \<Rightarrow> string \<Rightarrow> int \<Rightarrow> 'w \<Rightarrow>
     'c Redis result \<times> 'w" where
  "NewRedis D newClient deadline addr password db w =
     (case newClient w \<lparr>roAddr = addr, roPassword = password, roDB = db\<rparr> of
        (rdb, w1) \<Rightarrow>
          (case drPing D w1 rdb deadline of
             (Some err, w2) \<Rightarrow> (Inl (ErrWrap ''ping redis'' err), w2)
           | (None, w2) \<Rightarrow> (Inr \<lparr>rcClient = rdb\<rparr>, w2)))"

definition Redis_Close :: "('w, redis_options, 'c) driver \<Rightarrow> 'c Redis \<Rightarrow> 'w \<Rightarrow> error option \<times> 'w" where
  "Redis_Close D r w = drClose D w (rcClient r)"

record etcd_options =
  eoEndpoints :: "string list"
  eoDialTimeout :: duration

record 'c EtcdStore =
  esClient :: 'c

text \<open>The ping is a \<^verbatim>\<open>Get\<close> of the key \<^verbatim>\<open>/\<close> that asks for the count only.\<close>

definition NewEtcdStore ::
    "('w, etcd_options, 'c) driver \<Rightarrow> go_time \<Rightarrow> go_time \<Rightarrow> string list \<Rightarrow> duration \<Rightarrow> 'w \<Rightarrow>
     'c EtcdStore result \<times> 'w" where
  "NewEtcdStore D now deadline endpoints dialTimeout w =
     (case drOpen D w \<lparr>eoEndpoints = endpoints, eoDialTimeout = dialTimeout\<rparr> of
        (Inl err, w1) \<Rightarrow> (Inl (ErrWrap ''connect etcd'' err), w1)
      | (Inr cli, w1) \<Rightarrow>
          (case drPing D w1 cli (with_timeout now deadline (3 * Second)) of
             (Some err, w2) \<Rightarrow> (Inl (ErrWrap ''ping etcd'' err), snd (drClose D w2 cli))
           | (None, w2) \<Rightarrow> (Inr \<lparr>esClient = cli\<rparr>, w2)))"

definition EtcdStore_Close :: "('w, etcd_options, 'c) driver \<Rightarrow> 'c EtcdStore \<Rightarrow> 'w \<Rightarrow> error option \<times> 'w" where
  "EtcdStore_Close D s w = drClose D w (esClient s)"

section \<open>What stays open\<close>

context client_driver
begin

lemma ping_close:
  assumes "c \<notin> opened w" "opened w1 = insert c (opened w)" "drPing D w1 c d = (r, w2)"
  shows "opened (snd (drClose D w2 c)) = opened w"
  using ping_same [OF assms(3)] close_handle [of w2 c, OF prod.collapse [symmetric]] assms(1,2) by simp

end

text \<open>A constructor that gives a client has opened it and nothing else; one that fails leaves
  nothing open, whether it could not open the client or got no answer to its ping.\<close>

lemma NewPostgres_opened:
  assumes "client_driver D opened" and set: "\<And>w c ps. opened (settings w c ps) = opened w"
    and "NewPostgres D settings now deadline dsn w = (r, w')"
  shows "case r of Inl e \<Rightarrow> opened w' = opened w
    | Inr p \<Rightarrow> pgDB p \<notin> opened w \<and> opened w' = insert (pgDB p) (opened w) \<and>
        opened (snd (Postgres_Close D p w')) = opened w"
proof -
  obtain ro w1 where o': "drOpen D w dsn = (ro, w1)" by fastforce
  show ?thesis
  proof (cases ro)
    case (Inl e)
    with o' assms(3) client_driver.open_err [OF assms(1)] show ?thesis by (auto simp: NewPostgres_def)
  next
    case (Inr db)
    note new = client_driver.open_ok [OF assms(1) o' [unfolded Inr]]
    obtain rp w3 where p: "drPing D (settings w1 db pg_settings) db (with_timeout now deadline (5 * Second)) = (rp, w3)"
      by fastforce
    have op: "opened (settings w1 db pg_settings) = insert db (opened w)" using new by (simp add: set)
    note closed = client_driver.ping_close [OF assms(1) conjunct1 [OF new] op p]
    show ?thesis
      using assms(3) o' Inr p new closed client_driver.ping_same [OF assms(1) p] op
      by (auto simp: NewPostgres_def Postgres_Close_def Let_def split: option.splits)
  qed
qed

lemma NewEtcdStore_opened:
  assumes "client_driver D opened" and "NewEtcdStore D now deadline endpoints dialTimeout w = (r, w')"
  shows "case r of Inl e \<Rightarrow> opened w' = opened w
    | Inr s \<Rightarrow> esClient s \<notin> opened w \<and> opened w' = insert (esClient s) (opened w) \<and>
        opened (snd (EtcdStore_Close D s w')) = opened w"
proof -
  let ?o = "\<lparr>eoEndpoints = endpoints, eoDialTimeout = dialTimeout\<rparr>"
  obtain ro w1 where o': "drOpen D w ?o = (ro, w1)" by fastforce
  show ?thesis
  proof (cases ro)
    case (Inl e)
    with o' assms(2) client_driver.open_err [OF assms(1)] show ?thesis by (auto simp: NewEtcdStore_def)
  next
    case (Inr cli)
    note new = client_driver.open_ok [OF assms(1) o' [unfolded Inr]]
    obtain rp w2 where p: "drPing D w1 cli (with_timeout now deadline (3 * Second)) = (rp, w2)" by fastforce
    note closed = client_driver.ping_close [OF assms(1) conjunct1 [OF new] conjunct2 [OF new] p]
    show ?thesis
      using assms(2) o' Inr p new closed client_driver.ping_same [OF assms(1) p]
      by (auto simp: NewEtcdStore_def EtcdStore_Close_def split: option.splits)
  qed
qed

text \<open>The Redis constructor does not close its client when the ping fails: the handle stays open, and the
  caller, which got an error, has no way to close it.\<close>

lemma NewRedis_opened:
  assumes "client_driver D opened"
    and new: "\<And>w opts. fst (newClient w opts) \<notin> opened w \<and>
      opened (snd (newClient w opts)) = insert (fst (newClient w opts)) (opened w)"
    and "NewRedis D newClient deadline addr password db w = (r, w')"
  shows "\<exists>c. c \<notin> opened w \<and> opened w' = insert c (opened w) \<and>
    (case r of Inl e \<Rightarrow> True | Inr rc \<Rightarrow> rcClient rc = c \<and> opened (snd (Redis_Close D rc w')) = opened w)"
proof -
  let ?o = "\<lparr>roAddr = addr, roPassword = password, roDB = db\<rparr>"
  obtain c w1 where c: "newClient w ?o = (c, w1)" by fastforce
  have o': "c \<notin> opened w" "opened w1 = insert c (opened w)" using new [of w ?o] by (simp_all add: c)
  obtain rp w2 where p: "drPing D w1 c deadline = (rp, w2)" by fastforce
  note closed = client_driver.ping_close [OF assms(1) o' p]
  show ?thesis
    using assms(3) c p o' closed client_driver.ping_same [OF assms(1) p]
    by (auto simp: NewRedis_def Redis_Close_def split: option.splits)
qed

section \<open>A driver in memory\<close>

text \<open>Handles are numbers, the state is the next one with those that are open, and hosts in a list answer.\<close>

definition mem_driver :: "('o \<Rightarrow> bool) \<Rightarrow> (nat \<times> nat list \<times> nat list, 'o, nat) driver" where
  "mem_driver answers = \<lparr>
     drOpen = (\<lambda>(n, ups, hs) opts. (Inr n, (n + 1, if answers opts then n # ups else ups, n # hs))),
     drPing = (\<lambda>(n, ups, hs) c d. (if c \<in> set ups then None else Some ErrDeadlineExceeded, (n, ups, hs))),
     drClose = (\<lambda>(n, ups, hs) c. (None, (n, ups, removeAll c hs)))\<rparr>"

definition mem_open :: "nat \<times> nat list \<times> nat list \<Rightarrow> nat set" where
  "mem_open w = {c \<in> set (snd (snd w)). c < fst w}"

text \<open>Only handles below the next one count as open, so a new handle is fresh in every state.\<close>

interpretation memdr: client_driver "mem_driver answers" mem_open
  by unfold_locales (auto simp: mem_driver_def mem_open_def split: prod.splits)

end
