(* ===== verification/Grpc_Pool.thy ===== *)
theory Grpc_Pool
  imports MB_Prelude
begin

text \<open>
  \<^verbatim>\<open>internal/grpcclient/pool.go\<close>: the pool of connections to the agents. A connection is a number,
  and so is the client made of it; dialling is the environment's. \<open>GetOrCreate\<close> has two critical
  sections with the dial between them, so any number of its calls overlap: they are the first
  lookup, the dial, and the second section with its double check, as steps of their own in the
  relation \<open>pool_step\<close> over the pool, the connections that are open, and the dialled connections
  not yet in the pool.
\<close>

record Pool =
  pClients :: "string \<rightharpoonup> nat"
  pConns :: "string \<rightharpoonup> nat"

definition NewPool :: Pool where
  "NewPool = \<lparr>pClients = Map.empty, pConns = Map.empty\<rparr>"

text \<open>The two critical sections of \<open>GetOrCreate\<close>: the client that is found, and the client that is
  returned with the pool and the connection to close.\<close>

definition pool_lookup :: "Pool \<Rightarrow> string \<Rightarrow> nat option" where
  "pool_lookup p nodeID = pClients p nodeID"

definition pool_store :: "Pool \<Rightarrow> string \<Rightarrow> nat \<Rightarrow> nat \<times> Pool \<times> nat option" where
  "pool_store p nodeID conn =
     (case pClients p nodeID of
        Some existing \<Rightarrow> (existing, p, Some conn)
      | None \<Rightarrow> (conn, p\<lparr>pClients := (pClients p)(nodeID \<mapsto> conn), pConns := (pConns p)(nodeID \<mapsto> conn)\<rparr>, None))"

text \<open>The whole call when nothing interferes; \<open>dial\<close> is the result of the dial.\<close>

definition GetOrCreate :: "nat result \<Rightarrow> Pool \<Rightarrow> string \<Rightarrow> string \<Rightarrow> nat result \<times> Pool" where
  "GetOrCreate dial p nodeID addr =
     (case pool_lookup p nodeID of
        Some c \<Rightarrow> (Inr c, p)
      | None \<Rightarrow>
          (case dial of
             Inl e \<Rightarrow> (Inl (ErrWrap (''dial agent '' @ nodeID @ '' at '' @ addr) e), p)
           | Inr conn \<Rightarrow> (case pool_store p nodeID conn of (c, p', _) \<Rightarrow> (Inr c, p'))))"

definition Pool_Remove :: "Pool \<Rightarrow> string \<Rightarrow> nat option \<times> Pool" where
  "Pool_Remove p nodeID =
     (pConns p nodeID,
      p\<lparr>pConns := (pConns p)(nodeID := None), pClients := (pClients p)(nodeID := None)\<rparr>)"

definition Pool_Close :: "Pool \<Rightarrow> Pool" where
  "Pool_Close p = p\<lparr>pConns := Map.empty, pClients := Map.empty\<rparr>"

definition Pool_Len :: "Pool \<Rightarrow> nat" where
  "Pool_Len p = card (dom (pClients p))"

section \<open>Overlapping calls\<close>

record pool_state =
  psPool :: Pool
  psOpen :: "nat set"
  psDialled :: "(string \<times> nat) list"

definition pool_init :: pool_state where
  "pool_init = \<lparr>psPool = NewPool, psOpen = {}, psDialled = []\<rparr>"

text \<open>The lookup before a dial was made in a pool \<open>p\<close> of some earlier moment.\<close>

inductive pool_step :: "pool_state \<Rightarrow> pool_state \<Rightarrow> bool" where
  dial: "pool_lookup p nodeID = None \<Longrightarrow> c \<notin> op \<Longrightarrow>
    pool_step \<lparr>psPool = p0, psOpen = op, psDialled = ds\<rparr>
      \<lparr>psPool = p0, psOpen = insert c op, psDialled = (nodeID, c) # ds\<rparr>"
| store: "pool_store p nodeID c = (client, p', closed) \<Longrightarrow>
    pool_step \<lparr>psPool = p, psOpen = op, psDialled = ds @ (nodeID, c) # ds'\<rparr>
      \<lparr>psPool = p', psOpen = op - set_option closed, psDialled = ds @ ds'\<rparr>"
| remove: "Pool_Remove p nodeID = (closed, p') \<Longrightarrow>
    pool_step \<lparr>psPool = p, psOpen = op, psDialled = ds\<rparr>
      \<lparr>psPool = p', psOpen = op - set_option closed, psDialled = ds\<rparr>"
| close: "pool_step \<lparr>psPool = p, psOpen = op, psDialled = ds\<rparr>
      \<lparr>psPool = Pool_Close p, psOpen = op - ran (pConns p), psDialled = ds\<rparr>"

inductive_cases pool_stepE: "pool_step s s'"

text \<open>Every client in the pool is the client of its node's connection; the open connections are
  those in the pool and those just dialled, each held once.\<close>

definition pool_ok :: "pool_state \<Rightarrow> bool" where
  "pool_ok s \<longleftrightarrow> pClients (psPool s) = pConns (psPool s) \<and> finite (dom (pConns (psPool s))) \<and>
     psOpen s = ran (pConns (psPool s)) \<union> snd ` set (psDialled s) \<and>
     inj_on (pConns (psPool s)) (dom (pConns (psPool s))) \<and>
     distinct (map snd (psDialled s)) \<and>
     ran (pConns (psPool s)) \<inter> snd ` set (psDialled s) = {}"

lemma pool_ok_init: "pool_ok pool_init"
  by (simp add: pool_ok_def pool_init_def NewPool_def)

lemma pool_ok_step: "pool_step s s' \<Longrightarrow> pool_ok s \<Longrightarrow> pool_ok s'"
proof (induction rule: pool_step.induct)
  case (dial p nodeID c op p0 ds)
  then show ?case by (auto simp: pool_ok_def)
next
  case (store p nodeID c client p' closed op ds ds')
  show ?case
  proof (cases "pClients p nodeID")
    case None
    with store have p': "p' = p\<lparr>pClients := (pClients p)(nodeID \<mapsto> c), pConns := (pConns p)(nodeID \<mapsto> c)\<rparr>"
      "closed = None"
      by (auto simp: pool_store_def)
    have none: "pConns p nodeID = None" using store.prems None by (simp add: pool_ok_def)
    then have ran: "ran ((pConns p)(nodeID \<mapsto> c)) = insert c (ran (pConns p))" by simp
    have inj: "inj_on ((pConns p)(nodeID \<mapsto> c)) (dom ((pConns p)(nodeID \<mapsto> c)))"
      using store.prems none by (auto simp: pool_ok_def inj_on_def ran_def)
    show ?thesis
      using store.prems inj by (auto simp: pool_ok_def p' ran)
  next
    case (Some e)
    with store have "p' = p" "closed = Some c" by (auto simp: pool_store_def)
    with store.prems show ?thesis by (auto simp: pool_ok_def)
  qed
next
  case (remove p nodeID closed p' op ds)
  then have p': "p' = p\<lparr>pConns := (pConns p)(nodeID := None), pClients := (pClients p)(nodeID := None)\<rparr>"
    "closed = pConns p nodeID"
    by (simp_all add: Pool_Remove_def)
  have ran: "ran ((pConns p)(nodeID := None)) = ran (pConns p) - set_option (pConns p nodeID)"
    using remove.prems
    by (auto simp: pool_ok_def ran_def inj_on_def dom_def split: if_splits)
  have "set_option (pConns p nodeID) \<subseteq> ran (pConns p)"
    by (cases "pConns p nodeID") (auto intro: ranI)
  then show ?case
    using remove.prems ran
    by (auto simp: pool_ok_def p' inj_on_def split: if_splits)
next
  case (close p op ds)
  then show ?case by (auto simp: pool_ok_def Pool_Close_def)
qed

lemma pool_ok_run: "pool_step\<^sup>*\<^sup>* pool_init s \<Longrightarrow> pool_ok s"
  by (induction rule: rtranclp_induct) (auto intro: pool_ok_init pool_ok_step)

text \<open>
  C25. The pool leaks no connection: however calls of \<open>GetOrCreate\<close>, \<open>Remove\<close> and \<open>Close\<close> overlap, the
  open connections are exactly those in the pool and those a call has dialled and not yet decided
  on; so when no call is under way, \<open>Len\<close> is the number of open connections, and each node has
  at most one.
\<close>

theorem pool_no_leak:
  assumes "pool_step\<^sup>*\<^sup>* pool_init s"
  shows "psOpen s = ran (pClients (psPool s)) \<union> snd ` set (psDialled s) \<and>
    card (psOpen s) = Pool_Len (psPool s) + length (psDialled s)"
proof -
  from pool_ok_run [OF assms] have ok: "pool_ok s" .
  let ?m = "pConns (psPool s)"
  have ran: "ran ?m = (\<lambda>u. the (?m u)) ` dom ?m"
    by (force simp: ran_def dom_def image_iff)
  have "inj_on (\<lambda>u. the (?m u)) (dom ?m)"
    using ok by (auto simp: pool_ok_def inj_on_def dom_def)
  then have "card (ran ?m) = card (dom ?m)" unfolding ran by (rule card_image)
  moreover have "card (snd ` set (psDialled s)) = length (psDialled s)"
    using ok by (metis distinct_card length_map list.set_map pool_ok_def)
  moreover have "finite (ran ?m)" using ok by (simp add: pool_ok_def finite_ran)
  ultimately show ?thesis
    using ok by (simp add: pool_ok_def Pool_Len_def card_Un_disjoint)
qed

theorem pool_no_leak_witness:
  "\<exists>s. pool_step\<^sup>*\<^sup>* pool_init s \<and> psOpen s = {1} \<and> Pool_Len (psPool s) = 1"
proof -
  let ?p1 = "\<lparr>pClients = [''n'' \<mapsto> 1], pConns = [''n'' \<mapsto> 1]\<rparr>"
  let ?s1 = "\<lparr>psPool = NewPool, psOpen = {1}, psDialled = [(''n'', 1)]\<rparr>"
  let ?s2 = "\<lparr>psPool = NewPool, psOpen = {2, 1}, psDialled = [(''n'', 2), (''n'', 1)]\<rparr>"
  let ?s3 = "\<lparr>psPool = ?p1, psOpen = {2, 1}, psDialled = [(''n'', 2)]\<rparr>"
  let ?s4 = "\<lparr>psPool = ?p1, psOpen = {1}, psDialled = []\<rparr>"
  have e: "pool_lookup NewPool ''n'' = None" by (simp add: pool_lookup_def NewPool_def)
  have "pool_step pool_init ?s1" unfolding pool_init_def
    using pool_step.dial [OF e, of 1 "{}" NewPool "[]"] by simp
  moreover have "pool_step ?s1 ?s2"
    using pool_step.dial [OF e, of 2 "{1}" NewPool "[(''n'', 1)]"] by simp
  moreover have "pool_step ?s2 ?s3"
    using pool_step.store [of NewPool "''n''" 1 1 ?p1 None "{2, 1}" "[(''n'', 2)]" "[]"]
    by (simp add: pool_store_def NewPool_def)
  moreover have "pool_step ?s3 ?s4"
  proof -
    have "{2, 1} - set_option (Some 2) = {1::nat}" by auto
    with pool_step.store [of ?p1 "''n''" 2 1 ?p1 "Some 2" "{2, 1}" "[]" "[]"]
    show ?thesis by (simp add: pool_store_def)
  qed
  ultimately have run: "pool_step\<^sup>*\<^sup>* pool_init ?s4"
    by (meson converse_rtranclp_into_rtranclp rtranclp.rtrancl_refl)
  from pool_no_leak [OF run] show ?thesis by (intro exI [of _ ?s4]) (use run in simp)
qed

end
