(* ===== verification/Discovery.thy ===== *)
theory Discovery
  imports Node_Manager
begin

text \<open>
  \<^verbatim>\<open>internal/discovery/discovery.go\<close>: the cache of the nodes registered in etcd, filled by an initial
  load and kept by a watch, with channels of bounded size for its subscribers. The answers of etcd
  are arguments: the result of the initial \<^verbatim>\<open>Get\<close> with its revision, and the events of the watch
  as a function of the revision it starts from.
\<close>

datatype NodeEventType = NodeAdded | NodeUpdated | NodeRemoved

record NodeEvent =
  evType :: NodeEventType
  evNodeID :: string
  evKey :: string
  evValue :: string

datatype kv_event = KvPut string string | KvDelete string

record ServiceDiscovery =
  sdNodes :: "(string \<times> string) list"
  sdListeners :: "NodeEvent list list"

definition NewServiceDiscovery :: ServiceDiscovery where
  "NewServiceDiscovery = \<lparr>sdNodes = [], sdListeners = []\<rparr>"

definition sd_extractNodeID :: "string \<Rightarrow> string" where
  "sd_extractNodeID key =
     (let parts = Split CHR ''/'' (TrimPrefix key ''/nodes/'')
      in if length parts > 0 \<and> parts ! 0 \<noteq> [] then parts ! 0 else [])"

definition emit :: "NodeEvent \<Rightarrow> ServiceDiscovery \<Rightarrow> ServiceDiscovery" where
  "emit evt sd = sd\<lparr>sdListeners := map (\<lambda>ch. if length ch < 100 then ch @ [evt] else ch) (sdListeners sd)\<rparr>"

definition load_kv :: "string \<times> string \<Rightarrow> ServiceDiscovery \<Rightarrow> ServiceDiscovery" where
  "load_kv kv sd =
     (let nodeID = sd_extractNodeID (fst kv) in
      if nodeID = [] then sd
      else emit \<lparr>evType = NodeAdded, evNodeID = nodeID, evKey = fst kv, evValue = snd kv\<rparr>
        (sd\<lparr>sdNodes := AList.update nodeID (snd kv) (sdNodes sd)\<rparr>))"

definition watch_kv :: "kv_event \<Rightarrow> ServiceDiscovery \<Rightarrow> ServiceDiscovery" where
  "watch_kv ev sd =
     (case ev of
        KvPut key val \<Rightarrow>
          (let nodeID = sd_extractNodeID key in
           if nodeID = [] then sd
           else let existed = (map_of (sdNodes sd) nodeID \<noteq> None) in
             emit \<lparr>evType = (if existed then NodeUpdated else NodeAdded), evNodeID = nodeID,
                 evKey = key, evValue = val\<rparr>
               (sd\<lparr>sdNodes := AList.update nodeID val (sdNodes sd)\<rparr>))
      | KvDelete key \<Rightarrow>
          (let nodeID = sd_extractNodeID key in
           if nodeID = [] then sd
           else emit \<lparr>evType = NodeRemoved, evNodeID = nodeID, evKey = key, evValue = []\<rparr>
             (sd\<lparr>sdNodes := AList.delete nodeID (sdNodes sd)\<rparr>)))"

definition StartWatching ::
    "((string \<times> string) list \<times> int) result \<Rightarrow> (int \<Rightarrow> kv_event list) \<Rightarrow> ServiceDiscovery \<Rightarrow> ServiceDiscovery" where
  "StartWatching loaded watch sd =
     (case loaded of
        Inl e \<Rightarrow> fold watch_kv (watch 0) sd
      | Inr (kvs, revision) \<Rightarrow> fold watch_kv (watch (revision + 1)) (fold load_kv kvs sd))"

definition GetOnlineNodeIDs :: "ServiceDiscovery \<Rightarrow> string list" where
  "GetOnlineNodeIDs sd = map fst (sdNodes sd)"

definition GetNodeInfo :: "ServiceDiscovery \<Rightarrow> string \<Rightarrow> string option" where
  "GetNodeInfo sd nodeID = map_of (sdNodes sd) nodeID"

definition Subscribe :: "ServiceDiscovery \<Rightarrow> ServiceDiscovery" where
  "Subscribe sd = sd\<lparr>sdListeners := sdListeners sd @ [[]]\<rparr>"

section \<open>Keys\<close>

text \<open>The two functions that read a node identifier out of a key, here and in the node manager,
  are the same, and they invert \<open>nodeKey\<close>.\<close>

lemma extractNodeID_take:
  "extractNodeID key = takeWhile (\<lambda>c. c \<noteq> CHR ''/'') (TrimPrefix key ''/nodes/'')"
proof -
  have "SplitN2 CHR ''/'' s \<noteq> [] \<and> SplitN2 CHR ''/'' s ! 0 = takeWhile (\<lambda>c. c \<noteq> CHR ''/'') s" for s
  proof -
    have s: "takeWhile (\<lambda>c. c \<noteq> CHR ''/'') s = s" if "CHR ''/'' \<notin> set s"
      using that by (simp only: takeWhile_eq_all_conv) auto
    show ?thesis by (cases "CHR ''/'' \<in> set s") (simp_all add: SplitN2_cases s)
  qed
  then show ?thesis by (auto simp: extractNodeID_def Let_def)
qed

lemma sd_extractNodeID_take:
  "sd_extractNodeID key = takeWhile (\<lambda>c. c \<noteq> CHR ''/'') (TrimPrefix key ''/nodes/'')"
proof -
  have "Split CHR ''/'' s ! 0 = takeWhile (\<lambda>c. c \<noteq> CHR ''/'') s" for s
    using hd_Split [of "CHR ''/''" s] by (simp add: hd_conv_nth)
  then show ?thesis by (auto simp: sd_extractNodeID_def)
qed

lemma extractNodeID_same: "sd_extractNodeID key = extractNodeID key"
  by (simp add: extractNodeID_take sd_extractNodeID_take)

definition plain_id :: "string \<Rightarrow> bool" where
  "plain_id u \<longleftrightarrow> u \<noteq> [] \<and> CHR ''/'' \<notin> set u"

lemma extract_nodeKey: "CHR ''/'' \<notin> set u \<Longrightarrow> extractNodeID (nodeKey u) = u"
proof -
  assume "CHR ''/'' \<notin> set u"
  then have "\<forall>c \<in> set u. c \<noteq> CHR ''/''" by auto
  then have "takeWhile (\<lambda>c. c \<noteq> CHR ''/'') (u @ ''/status'') = u" by (simp add: takeWhile_append)
  moreover have "TrimPrefix (nodeKey u) ''/nodes/'' = u @ ''/status''"
    unfolding nodeKey_def by (rule TrimPrefix_append)
  ultimately show ?thesis by (simp only: extractNodeID_take)
qed

lemma nodeKey_inj: "nodeKey u = nodeKey w \<longleftrightarrow> u = w"
  by (simp add: nodeKey_def)

section \<open>The cache mirrors etcd\<close>

text \<open>The keys of etcd after an event.\<close>

fun apply_kv :: "kv_event \<Rightarrow> (string \<rightharpoonup> string) \<Rightarrow> (string \<rightharpoonup> string)" where
  "apply_kv (KvPut k v) m = m(k \<mapsto> v)"
| "apply_kv (KvDelete k) m = m(k := None)"

fun event_key :: "kv_event \<Rightarrow> string" where
  "event_key (KvPut k v) = k"
| "event_key (KvDelete k) = k"

definition node_key :: "string \<Rightarrow> bool" where
  "node_key k \<longleftrightarrow> plain_id (extractNodeID k) \<and> k = nodeKey (extractNodeID k)"

text \<open>The cache holds for every node what etcd holds under the key of the node.\<close>

definition mirrors :: "ServiceDiscovery \<Rightarrow> (string \<rightharpoonup> string) \<Rightarrow> bool" where
  "mirrors sd m \<longleftrightarrow> (\<forall>u. plain_id u \<longrightarrow> map_of (sdNodes sd) u = m (nodeKey u))"

lemma emit_nodes [simp]: "sdNodes (emit evt sd) = sdNodes sd"
  by (simp add: emit_def)

lemma mirrors_load:
  assumes "mirrors sd m" and "node_key (fst kv)"
  shows "mirrors (load_kv kv sd) (m(fst kv \<mapsto> snd kv))"
proof -
  obtain u where u: "fst kv = nodeKey u" "extractNodeID (fst kv) = u" "plain_id u"
    using assms(2) by (auto simp: node_key_def)
  have "sdNodes (load_kv kv sd) = AList.update u (snd kv) (sdNodes sd)"
    using u by (simp add: load_kv_def extractNodeID_same plain_id_def)
  with assms(1) u(1) show ?thesis by (auto simp: mirrors_def update_conv' nodeKey_inj)
qed

lemma mirrors_watch:
  assumes "mirrors sd m" and "node_key (event_key ev)"
  shows "mirrors (watch_kv ev sd) (apply_kv ev m)"
proof -
  obtain u where u: "event_key ev = nodeKey u" "extractNodeID (event_key ev) = u" "plain_id u"
    using assms(2) by (auto simp: node_key_def)
  show ?thesis
  proof (cases ev)
    case (KvPut k v)
    then have "sdNodes (watch_kv ev sd) = AList.update u v (sdNodes sd)"
      using u by (simp add: watch_kv_def extractNodeID_same plain_id_def Let_def)
    with assms(1) u(1) KvPut show ?thesis by (auto simp: mirrors_def update_conv' nodeKey_inj)
  next
    case (KvDelete k)
    then have "sdNodes (watch_kv ev sd) = AList.delete u (sdNodes sd)"
      using u by (simp add: watch_kv_def extractNodeID_same plain_id_def Let_def)
    with assms(1) u(1) KvDelete show ?thesis by (auto simp: mirrors_def delete_conv' nodeKey_inj)
  qed
qed

lemma mirrors_loads:
  "mirrors sd m \<Longrightarrow> list_all (\<lambda>kv. node_key (fst kv)) kvs \<Longrightarrow>
   mirrors (fold load_kv kvs sd) (fold (\<lambda>kv m. m(fst kv \<mapsto> snd kv)) kvs m)"
  by (induction kvs arbitrary: sd m) (simp_all add: mirrors_load)

lemma mirrors_events:
  "mirrors sd m \<Longrightarrow> list_all (\<lambda>ev. node_key (event_key ev)) evs \<Longrightarrow>
   mirrors (fold watch_kv evs sd) (fold apply_kv evs m)"
  by (induction evs arbitrary: sd m) (simp_all add: mirrors_watch)

lemma fold_load_map_of:
  "wf_map kvs \<Longrightarrow> fold (\<lambda>kv m. m(fst kv \<mapsto> snd kv)) kvs m = m ++ map_of kvs"
proof (induction kvs arbitrary: m)
  case (Cons kv kvs)
  then have "fst kv \<notin> dom (map_of kvs)" by (auto simp: wf_map_def dom_map_of_conv_image_fst)
  with Cons show ?case
    by (cases kv) (auto simp: wf_map_def map_add_def fun_eq_iff dom_def split: option.split)
qed simp

text \<open>
  C28. The discovery mirrors etcd: when the initial load returned the node keys as they were at its
  revision and the watch delivers every change from the next revision on, the cache holds, for
  every node, exactly the value etcd has under the key of the node after those changes, and
  nothing for a node whose key is gone.
\<close>

theorem discovery_mirrors:
  assumes "wf_map kvs" and "list_all (\<lambda>kv. node_key (fst kv)) kvs"
    and "list_all (\<lambda>ev. node_key (event_key ev)) (watch (revision + 1))"
    and "plain_id u"
  shows "GetNodeInfo (StartWatching (Inr (kvs, revision)) watch NewServiceDiscovery) u =
    fold apply_kv (watch (revision + 1)) (map_of kvs) (nodeKey u)"
proof -
  have "mirrors NewServiceDiscovery Map.empty" by (simp add: mirrors_def NewServiceDiscovery_def)
  from mirrors_events [OF mirrors_loads [OF this assms(2)] assms(3)] assms(1,4)
  show ?thesis by (simp add: mirrors_def StartWatching_def GetNodeInfo_def fold_load_map_of)
qed

theorem discovery_mirrors_witness:
  "GetNodeInfo (StartWatching (Inr ([(nodeKey ''a'', ''1''), (nodeKey ''b'', ''2'')], 7))
     (\<lambda>r. [KvPut (nodeKey ''c'') ''3'', KvDelete (nodeKey ''a'')]) NewServiceDiscovery) ''a'' = None"
proof -
  have k: "node_key (nodeKey ''a'')" "node_key (nodeKey ''b'')" "node_key (nodeKey ''c'')" "plain_id ''a''"
    by (simp_all add: node_key_def extract_nodeKey plain_id_def)
  from discovery_mirrors [of "[(nodeKey ''a'', ''1''), (nodeKey ''b'', ''2'')]"
      "\<lambda>r. [KvPut (nodeKey ''c'') ''3'', KvDelete (nodeKey ''a'')]" 7 "''a''"] k
  show ?thesis by (simp add: wf_map_def nodeKey_inj)
qed

text \<open>A subscriber sees the first hundred events it does not take; later ones are dropped.\<close>

lemma emit_listener:
  "ch \<in> set (sdListeners (emit evt sd)) \<Longrightarrow> \<forall>c \<in> set (sdListeners sd). length c \<le> 100 \<Longrightarrow> length ch \<le> 100"
  by (auto simp: emit_def split: if_splits)

end
