(* ===== verification/Rate_Limit.thy ===== *)
theory Rate_Limit
  imports Node_Model
begin

text \<open>
  \<^verbatim>\<open>internal/middleware/ratelimit.go\<close>: the rate limit of the HTTP interface, a counter in Redis per
  client address with a time to live of one minute. The Redis client is a record of the three
  commands the file uses, and may be missing (\<^verbatim>\<open>nil\<close>). A header is its name and the number that
  its value renders in decimal.
\<close>

record 'r redis_rate =
  rr_Incr :: "'r \<Rightarrow> string \<Rightarrow> int result \<times> 'r"
  rr_Expire :: "'r \<Rightarrow> string \<Rightarrow> duration \<Rightarrow> 'r"
  rr_TTL :: "'r \<Rightarrow> string \<Rightarrow> duration"

text \<open>The request goes on (\<open>Pass\<close>), is answered with status 429, or the handler panics.\<close>

datatype rate_outcome =
    Pass "(string \<times> int) list"
  | TooManyRequests "(string \<times> int) list"
  | RatePanic

definition rateKey :: "string \<Rightarrow> string" where
  "rateKey ip = ''ratelimit:'' @ ip"

definition RateLimit ::
    "'r redis_rate option \<Rightarrow> bool \<Rightarrow> int \<Rightarrow> string \<Rightarrow> go_time \<Rightarrow> 'r \<Rightarrow> rate_outcome \<times> 'r" where
  "RateLimit rdb enabled requestsPerMinute ip now r =
     (if \<not> enabled then (Pass [], r)
      else case rdb of
        None \<Rightarrow> (RatePanic, r)
      | Some R \<Rightarrow>
          (case rr_Incr R r (rateKey ip) of
             (Inl e, r1) \<Rightarrow> (Pass [], r1)
           | (Inr cnt, r1) \<Rightarrow>
               (let r2 = (if cnt = 1 then rr_Expire R r1 (rateKey ip) Minute else r1) in
                if cnt > requestsPerMinute then
                  (let ttl = rr_TTL R r2 (rateKey ip) in
                   (TooManyRequests
                      [(''X-RateLimit-Limit'', requestsPerMinute), (''X-RateLimit-Remaining'', 0),
                       (''X-RateLimit-Reset'', Unix (now + ttl)), (''Retry-After'', go_trunc (Seconds ttl))], r2))
                else
                  (Pass [(''X-RateLimit-Limit'', requestsPerMinute),
                         (''X-RateLimit-Remaining'', wrap64 (requestsPerMinute - cnt))], r2))))"

section \<open>A window\<close>

text \<open>The requests of one window, in the order Redis sees them, each with its client.\<close>

fun rate_run :: "'r redis_rate option \<Rightarrow> bool \<Rightarrow> int \<Rightarrow> (string \<times> go_time) list \<Rightarrow> 'r \<Rightarrow> (string \<times> rate_outcome) list" where
  "rate_run rdb enabled rpm [] r = []"
| "rate_run rdb enabled rpm ((ip, now) # xs) r =
     (case RateLimit rdb enabled rpm ip now r of (out, r1) \<Rightarrow> (ip, out) # rate_run rdb enabled rpm xs r1)"

fun passed :: "rate_outcome \<Rightarrow> bool" where
  "passed (Pass h) = True"
| "passed _ = False"

text \<open>Redis within a window: \<^verbatim>\<open>INCR\<close> counts, per key, and no key expires.\<close>

definition incr_laws :: "'r redis_rate \<Rightarrow> ('r \<Rightarrow> string \<Rightarrow> int) \<Rightarrow> bool" where
  "incr_laws R cnt \<longleftrightarrow>
     (\<forall>r k. fst (rr_Incr R r k) = Inr (cnt r k + 1) \<and>
        cnt (snd (rr_Incr R r k)) = (cnt r)(k := cnt r k + 1)) \<and>
     (\<forall>r k d. cnt (rr_Expire R r k d) = cnt r)"

lemma RateLimit_counts:
  assumes "incr_laws R cnt" and "RateLimit (Some R) True rpm ip now r = (out, r')"
  shows "cnt r' = (cnt r)(rateKey ip := cnt r (rateKey ip) + 1)"
    and "passed out \<longleftrightarrow> cnt r (rateKey ip) < rpm"
proof -
  let ?k = "rateKey ip"
  from assms(1) obtain r1 where i: "rr_Incr R r ?k = (Inr (cnt r ?k + 1), r1)"
    "cnt r1 = (cnt r)(?k := cnt r ?k + 1)"
    unfolding incr_laws_def by (metis prod.collapse)
  let ?r2 = "if cnt r ?k + 1 = 1 then rr_Expire R r1 ?k Minute else r1"
  have r2: "cnt ?r2 = cnt r1" using assms(1) by (simp add: incr_laws_def)
  have "r' = ?r2 \<and> (passed out \<longleftrightarrow> \<not> cnt r ?k + 1 > rpm)"
    using assms(2) i(1) by (auto simp: RateLimit_def Let_def split: if_splits)
  then show "cnt r' = (cnt r)(?k := cnt r ?k + 1)" "passed out \<longleftrightarrow> cnt r ?k < rpm"
    using r2 i(2) by auto
qed

lemma rateKey_inj [simp]: "rateKey a = rateKey b \<longleftrightarrow> a = b"
  by (simp add: rateKey_def)

text \<open>
  C24. The limit holds per client and window: while Redis counts without error and no key expires, of
  all requests of a client exactly as many pass as the limit has room left when the window is looked at (none
  when it has none), whatever other clients do; the rest are answered with status 429.
\<close>

theorem rate_limit_window:
  assumes "incr_laws R cnt"
  shows "length (filter (\<lambda>(c, out). c = ip \<and> passed out) (rate_run (Some R) True rpm xs r)) =
    min (nat (rpm - cnt r (rateKey ip))) (length (filter (\<lambda>x. fst x = ip) xs))"
proof (induction xs arbitrary: r)
  case (Cons x xs)
  obtain c now where x: "x = (c, now)" by fastforce
  obtain out r1 where s: "RateLimit (Some R) True rpm c now r = (out, r1)" by fastforce
  note c = RateLimit_counts [OF assms s]
  show ?case
  proof (cases "c = ip")
    case True
    then have "nat (rpm - cnt r (rateKey ip)) =
        (if passed out then Suc (nat (rpm - cnt r1 (rateKey ip))) else 0)" and
      "\<not> passed out \<longrightarrow> nat (rpm - cnt r1 (rateKey ip)) = 0"
      using c by auto
    with True Cons.IH [of r1] s x show ?thesis by (auto split: if_splits)
  next
    case False
    with c(1) have "cnt r1 (rateKey ip) = cnt r (rateKey ip)" by simp
    with False Cons.IH [of r1] s x show ?thesis by simp
  qed
qed simp

definition mem_rate :: "(string \<Rightarrow> int) redis_rate" where
  "mem_rate = \<lparr>rr_Incr = (\<lambda>r k. (Inr (r k + 1), r(k := r k + 1))), rr_Expire = (\<lambda>r k d. r),
     rr_TTL = (\<lambda>r k. Minute)\<rparr>"

theorem rate_limit_window_witness:
  "length (filter (\<lambda>(c, out). c = ''a'' \<and> passed out)
     (rate_run (Some mem_rate) True 2 [(''a'', 1), (''b'', 2), (''a'', 3), (''a'', 4)] (\<lambda>_. 0))) = 2"
proof -
  have "incr_laws mem_rate (\<lambda>r. r)" by (simp add: incr_laws_def mem_rate_def)
  from rate_limit_window [OF this, of "''a''" 2 "[(''a'', 1), (''b'', 2), (''a'', 3), (''a'', 4)]" "\<lambda>_. 0"]
  show ?thesis by simp
qed

text \<open>Without Redis, which the configuration treats as optional, an enabled limit panics on every
  request; with an error of Redis it lets the request pass.\<close>

lemma RateLimit_nil: "RateLimit None True rpm ip now r = (RatePanic, r)"
  by (simp add: RateLimit_def)

lemma RateLimit_open:
  "fst (rr_Incr R r (rateKey ip)) = Inl e \<Longrightarrow> fst (RateLimit (Some R) True rpm ip now r) = Pass []"
  by (auto simp: RateLimit_def split: prod.splits sum.splits)

end
