(* ===== verification/Server_Main.thy ===== *)
theory Server_Main
  imports Leader_Election Rate_Limit Config
begin

text \<open>
  \<^verbatim>\<open>cmd/server/main.go\<close>: which services the server runs with. Connecting to PostgreSQL, Redis and
  etcd is an argument, as are the configuration file (\<open>viper\<close>) and the environment; the result
  is the wiring of the components: which clients are there, the queue that is chosen, the election
  and the lease of the scheduler, and the values the components are made with. The listeners are
  arguments, too: modelled is what becomes of the process when one ends, and in which order the
  server stops its parts after the signal.

  The lemmas put the findings on single components into the context in which the server starts them.
\<close>

section \<open>Start-up\<close>

text \<open>What connecting gives: an error or a client.\<close>

record connections =
  coPostgres :: "string \<Rightarrow> error option"
  coRedis :: "string \<Rightarrow> string \<Rightarrow> int \<Rightarrow> error option"
  coEtcd :: "string list \<Rightarrow> duration \<Rightarrow> error option"
  coGrant :: "int \<Rightarrow> int result"
  coSession :: "int \<Rightarrow> error option"

datatype queue_choice = UseRedisQueue | UseInMemQueue nat

record server =
  seRedis :: bool
  seLogStream :: bool
  seEtcd :: bool
  seQueue :: queue_choice
  seExecutorSlots :: int
  seNodeWatcher :: bool
  seDiscovery :: bool
  seLeaseID :: int
  seElection :: "LeaderElection option"
  seTickInterval :: duration
  seMaxConcurrent :: int
  seRateEnabled :: bool
  seRatePerMinute :: int
  seAddr :: string
  seGrpcAddr :: string

definition config_path :: "(string \<Rightarrow> string) \<Rightarrow> string" where
  "config_path getenv = (if getenv ''CONFIG_PATH'' = [] then ''configs/config.yaml'' else getenv ''CONFIG_PATH'')"

text \<open>The optional clients, the lease of the scheduler's claims and the election.\<close>

definition connect_redis :: "connections \<Rightarrow> Config \<Rightarrow> bool" where
  "connect_redis co cfg =
     (if rdAddr (cfRedis cfg) \<noteq> [] then
        (case coRedis co (rdAddr (cfRedis cfg)) (rdPassword (cfRedis cfg)) (rdDB (cfRedis cfg)) of
           Some err \<Rightarrow> False | None \<Rightarrow> True)
      else False)"

definition connect_etcd :: "connections \<Rightarrow> Config \<Rightarrow> bool" where
  "connect_etcd co cfg =
     (if length (ecEndpoints (cfEtcd cfg)) > 0 then
        (case coEtcd co (ecEndpoints (cfEtcd cfg)) (wrap64 (ecDialTimeoutSec (cfEtcd cfg) * Second)) of
           Some err \<Rightarrow> False | None \<Rightarrow> True)
      else False)"

definition sched_lease :: "connections \<Rightarrow> bool \<Rightarrow> int" where
  "sched_lease co etcd =
     (if etcd then (case coGrant co 60 of Inl err \<Rightarrow> 0 | Inr lease \<Rightarrow> lease) else 0)"

definition server_election :: "connections \<Rightarrow> bool \<Rightarrow> LeaderElection option" where
  "server_election co etcd =
     (if etcd then
        (case NewLeaderElection (coSession co 10) of Inl err \<Rightarrow> None | Inr elec \<Rightarrow> Some elec)
      else None)"

text \<open>\<open>None\<close> when the server exits.\<close>

definition server_main :: "viper \<Rightarrow> (string \<Rightarrow> string) \<Rightarrow> connections \<Rightarrow> server option" where
  "server_main v getenv co =
     (case Load v getenv (config_path getenv) of
        Inl err \<Rightarrow> None
      | Inr cfg \<Rightarrow>
          (case coPostgres co (DatabaseConfig_DSN (cfDatabase cfg)) of
             Some err \<Rightarrow> None
           | None \<Rightarrow>
               (let rdb = connect_redis co cfg; etcd = connect_etcd co cfg in
                Some \<lparr>
                  seRedis = rdb, seLogStream = rdb, seEtcd = etcd,
                  seQueue = (if rdb then UseRedisQueue else UseInMemQueue 100),
                  seExecutorSlots = scMaxConcurrentTasks (cfScheduler cfg),
                  seNodeWatcher = etcd, seDiscovery = etcd,
                  seLeaseID = sched_lease co etcd, seElection = server_election co etcd,
                  seTickInterval = wrap64 (scTickIntervalMs (cfScheduler cfg) * Millisecond),
                  seMaxConcurrent = scMaxConcurrentTasks (cfScheduler cfg),
                  seRateEnabled = rlEnabled (cfRateLimit cfg),
                  seRatePerMinute = rlRequestsPerMinute (cfRateLimit cfg),
                  seAddr = ServerConfig_Addr (cfServer cfg), seGrpcAddr = '':50051''\<rparr>)))"

section \<open>Serving and shutting down\<close>

text \<open>What becomes of the two listeners: the HTTP server ends the process when it cannot listen or fails, the gRPC
  server only itself. A process that exits does not run its deferred calls.\<close>

datatype serve_outcome = ServeStopped | ServeExit int

definition ErrServerClosed :: error where
  "ErrServerClosed = ErrOther ''http: Server closed''"

definition serve_http :: "error option \<Rightarrow> serve_outcome" where
  "serve_http err = (if err \<noteq> None \<and> err \<noteq> Some ErrServerClosed then ServeExit 1 else ServeStopped)"

definition serve_grpc :: "error option \<Rightarrow> error option \<Rightarrow> serve_outcome" where
  "serve_grpc listenErr serveErr =
     (case listenErr of
        Some err \<Rightarrow> ServeStopped
      | None \<Rightarrow> (case serveErr of Some err \<Rightarrow> ServeStopped | None \<Rightarrow> ServeStopped))"

datatype stop_action =
    StopHTTP duration
  | StopGRPC
  | StopScheduler
  | CloseElection
  | StopDiscovery
  | StopNodeWatcher
  | StopOfflineChecker
  | CloseQueue
  | CloseEtcd
  | CloseRedis
  | ClosePostgres

text \<open>The calls \<^verbatim>\<open>main\<close> has deferred, in the order of its \<^verbatim>\<open>defer\<close> statements, and all that happens after the signal: what it
  calls, and then the deferred calls, the last one first.\<close>

definition main_defers :: "server \<Rightarrow> stop_action list" where
  "main_defers srv =
     [ClosePostgres] @
     (if seRedis srv then [CloseRedis] else []) @
     (if seEtcd srv then [CloseEtcd] else []) @
     [CloseQueue] @
     [StopOfflineChecker] @
     (if seNodeWatcher srv then [StopNodeWatcher] else []) @
     (if seDiscovery srv then [StopDiscovery] else []) @
     (case seElection srv of Some elec \<Rightarrow> [CloseElection] | None \<Rightarrow> []) @
     [StopScheduler]"

definition main_shutdown :: "server \<Rightarrow> stop_action list" where
  "main_shutdown srv = [StopHTTP (30 * Second), StopGRPC, StopScheduler] @ rev (main_defers srv)"

section \<open>Properties\<close>

text \<open>Shutting down: every client the server has opened is closed, once, and after everything that uses it has
  been told to stop.\<close>

definition before :: "stop_action \<Rightarrow> stop_action \<Rightarrow> stop_action list \<Rightarrow> bool" where
  "before a b xs \<longleftrightarrow> (\<exists>us vs ws. xs = us @ a # vs @ b # ws \<and> b \<notin> set us \<and> b \<notin> set vs \<and> b \<notin> set ws)"

lemma before_intro: "b \<notin> set xs \<Longrightarrow> b \<notin> set ys \<Longrightarrow> a \<in> set xs \<Longrightarrow> before a b (xs @ b # ys)"
  unfolding before_def by (auto simp: in_set_conv_decomp) (metis append.assoc append_Cons)

lemma shutdown_order:
  "before (StopHTTP (30 * Second)) CloseQueue (main_shutdown srv)"
  "before StopGRPC CloseQueue (main_shutdown srv)"
  "before StopScheduler CloseQueue (main_shutdown srv)"
  "before CloseQueue ClosePostgres (main_shutdown srv)"
  "seRedis srv \<Longrightarrow> before CloseQueue CloseRedis (main_shutdown srv)"
  "seEtcd srv \<Longrightarrow> before StopScheduler CloseEtcd (main_shutdown srv)"
  "seElection srv \<noteq> None \<Longrightarrow> seEtcd srv \<Longrightarrow> before CloseElection CloseEtcd (main_shutdown srv)"
proof -
  define pre where "pre = [StopHTTP (30 * Second), StopGRPC, StopScheduler, StopScheduler] @
     (case seElection srv of Some elec \<Rightarrow> [CloseElection] | None \<Rightarrow> []) @
     (if seDiscovery srv then [StopDiscovery] else []) @
     (if seNodeWatcher srv then [StopNodeWatcher] else []) @ [StopOfflineChecker]"
  define e r where "e = (if seEtcd srv then [CloseEtcd] else [])" and "r = (if seRedis srv then [CloseRedis] else [])"
  have s: "main_shutdown srv = pre @ CloseQueue # (e @ r @ [ClosePostgres])"
    by (simp add: main_shutdown_def main_defers_def pre_def e_def r_def split: option.split)
  have n: "CloseQueue \<notin> set pre" "CloseEtcd \<notin> set pre" "CloseRedis \<notin> set pre" "ClosePostgres \<notin> set pre"
    and i: "StopHTTP (30 * Second) \<in> set pre" "StopGRPC \<in> set pre" "StopScheduler \<in> set pre"
    by (auto simp: pre_def split: option.split)
  have er: "CloseQueue \<notin> set e" "CloseQueue \<notin> set r" "ClosePostgres \<notin> set e" "ClosePostgres \<notin> set r"
    "CloseRedis \<notin> set e" by (simp_all add: e_def r_def)
  show "before (StopHTTP (30 * Second)) CloseQueue (main_shutdown srv)"
    "before StopGRPC CloseQueue (main_shutdown srv)" "before StopScheduler CloseQueue (main_shutdown srv)"
    unfolding s using n(1) er i by (intro before_intro; simp)+
  show "before CloseQueue ClosePostgres (main_shutdown srv)"
    unfolding s using before_intro [of ClosePostgres "pre @ CloseQueue # e @ r" "[]"] n er by simp
  show "before CloseQueue CloseRedis (main_shutdown srv)" if "seRedis srv"
    unfolding s using before_intro [of CloseRedis "pre @ CloseQueue # e" "[ClosePostgres]"] that n er by (simp add: r_def)
  show "before StopScheduler CloseEtcd (main_shutdown srv)" if "seEtcd srv"
    unfolding s using before_intro [of CloseEtcd "pre @ [CloseQueue]" "r @ [ClosePostgres]"] that n i
    by (simp add: e_def r_def)
  show "before CloseElection CloseEtcd (main_shutdown srv)" if "seElection srv \<noteq> None" "seEtcd srv"
  proof -
    have "CloseElection \<in> set pre" using that(1) by (auto simp: pre_def)
    with before_intro [of CloseEtcd "pre @ [CloseQueue]" "r @ [ClosePostgres]"] that(2) n show ?thesis
      unfolding s by (simp add: e_def r_def)
  qed
qed

text \<open>Without etcd a tick interval that is not positive crashes the server as soon as the scheduler starts; with
  it, nothing comes so far.\<close>

lemma interval_panics:
  assumes "server_main v getenv co = Some srv" and "\<not> seEtcd srv" and "sTickInterval s = seTickInterval srv"
    and "seTickInterval srv \<le> 0"
  shows "Start fuel sorting (seElection srv) ticks evs s = Some (0, s\<lparr>sPanicked := True\<rparr>)"
  using assms by (auto simp: server_main_def Let_def server_election_def Start_def runTickLoop_def
      split: sum.splits option.splits)

text \<open>It may be negative for a large configured number, too: the product with a millisecond wraps around.\<close>

lemma interval_overflows: "wrap64 (9223372036855 * Millisecond) < 0"
  by (simp add: wrap64_def Millisecond_def)

text \<open>
  Wherever etcd answers, the server has an election, and so its scheduler never ticks; the default
  configuration names an endpoint of etcd.
\<close>

lemma etcd_server_never_ticks:
  assumes "server_main v getenv co = Some srv" and "seEtcd srv" and "coSession co 10 = None"
  shows "Start fuel sorting (seElection srv) ticks evs s = Some (0, s)"
  using assms
  by (auto simp: server_main_def Let_def server_election_def NewLeaderElection_def Start_def electionLoop_idle
      split: sum.splits option.splits)

text \<open>Where Redis does not answer, the server starts all the same, and with the rate limit enabled,
  as it is by default, the first handler of every request panics.\<close>

lemma server_without_redis:
  assumes "server_main v getenv co = Some srv" and "\<not> seRedis srv" and "seRateEnabled srv"
  shows "seQueue srv = UseInMemQueue 100 \<and> \<not> seLogStream srv \<and>
    fst (RateLimit (if seRedis srv then rdb else None) (seRateEnabled srv) (seRatePerMinute srv) ip now r) = RatePanic"
  using assms by (auto simp: server_main_def Let_def RateLimit_nil split: sum.splits option.splits)

text \<open>The server listens for agents on a fixed port, whatever the configuration says.\<close>

lemma grpc_port_fixed:
  "server_main v getenv co = Some srv \<Longrightarrow> seGrpcAddr srv = '':50051''"
  by (auto simp: server_main_def Let_def split: sum.splits option.splits)

end
