(* ===== verification/Log_Stream.thy ===== *)
theory Log_Stream
  imports Go_Strconv Task_Executor "HOL-Library.Sublist" "HOL-Library.AList"
begin

text \<open>
  \<^verbatim>\<open>internal/logstream/logstream.go\<close>: the log of a task as a stream in Redis, with the two ends that
  use it: \<^verbatim>\<open>streamOutput\<close> of the executor, which appends each line it reads, and the loop of
  \<^verbatim>\<open>streamTaskLog\<close> in \<^verbatim>\<open>internal/api/task_handler.go\<close>, which sends new entries to an HTTP client.

  The client is a record of its two commands. \<^verbatim>\<open>XREAD\<close> may block: then it has no result (\<open>None\<close>)
  until an entry arrives. What Redis promises is the locale \<open>redis_log\<close>, over the entries of each
  stream and a number for each entry identifier that orders them.
\<close>

section \<open>The stream\<close>

record 'r redis_stream =
  xs_XAdd :: "'r \<Rightarrow> string \<Rightarrow> nat \<Rightarrow> string_map \<Rightarrow> error option \<times> 'r"
  xs_XRead :: "'r \<Rightarrow> string \<Rightarrow> string \<Rightarrow> nat \<Rightarrow> duration \<Rightarrow>
    (string \<times> (string \<times> string_map) list) list result option"

record LogEntry =
  leID :: string
  leTaskUID :: string
  leLine :: string
  leStream :: string
  leTimestamp :: int

definition streamKey :: "string \<Rightarrow> string" where
  "streamKey taskUID = ''tasks:log:'' @ taskUID"

definition Append ::
    "'r redis_stream \<Rightarrow> go_time \<Rightarrow> 'r \<Rightarrow> string \<Rightarrow> string \<Rightarrow> string \<Rightarrow> error option \<times> 'r" where
  "Append R now r taskUID line stream =
     xs_XAdd R r (streamKey taskUID) 10000
       [(''line'', line), (''stream'', stream), (''timestamp'', Itoa (now div Millisecond))]"

text \<open>The entry made of a message; a value that is missing, or no number, leaves the zero value.\<close>

definition log_entry :: "string \<Rightarrow> string \<times> string_map \<Rightarrow> LogEntry" where
  "log_entry taskUID msg = \<lparr>
     leID = fst msg, leTaskUID = taskUID,
     leLine = (case map_of (snd msg) ''line'' of Some line \<Rightarrow> line | None \<Rightarrow> []),
     leStream = (case map_of (snd msg) ''stream'' of Some stream \<Rightarrow> stream | None \<Rightarrow> []),
     leTimestamp = (case map_of (snd msg) ''timestamp'' of
         Some tsStr \<Rightarrow> (case Atoi tsStr of (ts, None) \<Rightarrow> ts | (ts, Some e) \<Rightarrow> 0)
       | None \<Rightarrow> 0)\<rparr>"

definition LogStream_Read ::
    "'r redis_stream \<Rightarrow> 'r \<Rightarrow> string \<Rightarrow> string \<Rightarrow> nat \<Rightarrow> LogEntry list result option" where
  "LogStream_Read R r taskUID lastID cnt =
     (let block = (if lastID = ''0'' then 0 else 1000 * Millisecond) in
      case xs_XRead R r (streamKey taskUID) lastID cnt block of
        None \<Rightarrow> None
      | Some (Inl e) \<Rightarrow> Some (if e = ErrRedisNil then Inr [] else Inl e)
      | Some (Inr streams) \<Rightarrow>
          Some (if length streams = 0 \<or> length (snd (streams ! 0)) = 0 then Inr []
                else Inr (map (log_entry taskUID) (snd (streams ! 0)))))"

section \<open>The ends of the stream\<close>

text \<open>The lines a reader of the executor appends, each with the time of its call. An error is only
  logged; without a log stream nothing is appended.\<close>

fun append_lines ::
    "'r redis_stream option \<Rightarrow> string \<Rightarrow> string \<Rightarrow> (go_time \<times> string) list \<Rightarrow> 'r \<Rightarrow> 'r" where
  "append_lines ls taskUID stream [] r = r"
| "append_lines ls taskUID stream ((now, line) # lines) r =
     (case ls of
        None \<Rightarrow> append_lines ls taskUID stream lines r
      | Some R \<Rightarrow> append_lines ls taskUID stream lines (snd (Append R now r taskUID line stream)))"

datatype sse = SseData LogEntry | SseDone

datatype stream_end = StreamDone | ClientGone | ReadBlocked | StreamPanic

text \<open>
  The loop of \<^verbatim>\<open>streamTaskLog\<close>: for each tick of its ticker the state in which Redis answers the
  read, and the answer of \<^verbatim>\<open>GetTask\<close> as \<^verbatim>\<open>Some\<close> of whether the status is terminal; the ticks end
  when the client has gone. The result is what has been sent, and how the handler ended.
\<close>

fun stream_ticks ::
    "'r redis_stream option \<Rightarrow> string \<Rightarrow> ('r \<times> bool result) list \<Rightarrow> string \<Rightarrow> sse list \<times> stream_end" where
  "stream_ticks ls uid [] lastID = ([], ClientGone)"
| "stream_ticks ls uid ((r, task) # ticks) lastID =
     (case ls of
        None \<Rightarrow> ([], StreamPanic)
      | Some R \<Rightarrow>
          (case LogStream_Read R r uid lastID 100 of
             None \<Rightarrow> ([], ReadBlocked)
           | Some (Inl e) \<Rightarrow> stream_ticks ls uid ticks lastID
           | Some (Inr entries) \<Rightarrow>
               (if (case task of Inl e \<Rightarrow> False | Inr terminal \<Rightarrow> terminal) \<and> length entries = 0
                then (map SseData entries @ [SseDone], StreamDone)
                else let lastID' = (if entries = [] then lastID else leID (last entries)) in
                  case stream_ticks ls uid ticks lastID' of
                    (out, e) \<Rightarrow> (map SseData entries @ out, e))))"

section \<open>What Redis promises\<close>

locale redis_log =
  fixes R :: "'r redis_stream"
    and log :: "'r \<Rightarrow> string \<Rightarrow> (string \<times> string_map) list"
    and stamp :: "string \<Rightarrow> nat"
  assumes stamp_0: "stamp ''0'' = 0"
    and stamp_pos: "m \<in> set (log r k) \<Longrightarrow> 0 < stamp (fst m)"
    and stamp_sorted: "sorted_wrt (\<lambda>m m'. stamp (fst m) < stamp (fst m')) (log r k)"
    and xadd: "xs_XAdd R r k n vals = (None, r') \<Longrightarrow>
      \<exists>i. log r' = (log r)(k := drop (length (log r k) + 1 - n) (log r k @ [(i, vals)]))"
    and xadd_err: "xs_XAdd R r k n vals = (Some e, r') \<Longrightarrow> log r' = log r \<or>
      (\<exists>i. log r' = (log r)(k := drop (length (log r k) + 1 - n) (log r k @ [(i, vals)])))"
    and xread: "0 < n \<Longrightarrow> xs_XRead R r k lastID n block = Some (Inr streams) \<Longrightarrow>
      filter (\<lambda>m. stamp lastID < stamp (fst m)) (log r k) \<noteq> [] \<and>
      streams = [(k, take n (filter (\<lambda>m. stamp lastID < stamp (fst m)) (log r k)))]"
    and xread_nil: "xs_XRead R r k lastID n block = Some (Inl ErrRedisNil) \<Longrightarrow>
      filter (\<lambda>m. stamp lastID < stamp (fst m)) (log r k) = []"
    and xread_block: "xs_XRead R r k lastID n block = None \<Longrightarrow>
      block = 0 \<and> filter (\<lambda>m. stamp lastID < stamp (fst m)) (log r k) = []"
begin

text \<open>The identifier of the last entry of a part of the log that has been read.\<close>

definition last_id :: "(string \<times> string_map) list \<Rightarrow> string" where
  "last_id D = (if D = [] then ''0'' else fst (last D))"

lemma newer:
  assumes "prefix D (log r k)"
  shows "filter (\<lambda>m. stamp (last_id D) < stamp (fst m)) (log r k) = drop (length D) (log r k)"
proof -
  obtain Z where L: "log r k = D @ Z" using assms by (auto simp: prefix_def)
  have s: "sorted_wrt (\<lambda>m m'. stamp (fst m) < stamp (fst m')) (D @ Z)"
    using stamp_sorted [of r k] by (simp add: L)
  have "stamp (last_id D) < stamp (fst m)" if "m \<in> set Z" for m
  proof (cases "D = []")
    case True
    then show ?thesis using stamp_pos [of m r k] that by (simp add: L last_id_def stamp_0)
  next
    case False
    then show ?thesis using s that by (simp add: last_id_def sorted_wrt_append)
  qed
  moreover have "stamp (fst m) \<le> stamp (last_id D)" if m: "m \<in> set D" for m
  proof -
    from m obtain D0 x where D: "D = D0 @ [x]" by (metis empty_iff list.set(1) rev_exhaust)
    then show ?thesis using s m by (auto simp: last_id_def sorted_wrt_append less_imp_le)
  qed
  ultimately have "filter (\<lambda>m. stamp (last_id D) < stamp (fst m)) D = []"
    "filter (\<lambda>m. stamp (last_id D) < stamp (fst m)) Z = Z"
    by (auto simp: filter_empty_conv leD)
  then show ?thesis by (simp add: L)
qed

text \<open>A read at the end of the part that has been read.\<close>

lemma Read_cases:
  assumes D: "prefix D (log r (streamKey uid))" and n: "0 < n"
  obtains
    (blocked) "LogStream_Read R r uid (last_id D) n = None" "D = []" "log r (streamKey uid) = []"
  | (failed) e where "LogStream_Read R r uid (last_id D) n = Some (Inl e)"
  | (at_end) "LogStream_Read R r uid (last_id D) n = Some (Inr [])" "log r (streamKey uid) = D"
  | (some) E where "E \<noteq> []" "prefix (D @ E) (log r (streamKey uid))"
      "LogStream_Read R r uid (last_id D) n = Some (Inr (map (log_entry uid) E))"
      "length E = min n (length (log r (streamKey uid)) - length D)"
proof -
  let ?k = "streamKey uid" and ?block = "if last_id D = ''0'' then 0 else 1000 * Millisecond"
  let ?x = "xs_XRead R r ?k (last_id D) n ?block"
  obtain Z where L: "log r ?k = D @ Z" using D by (auto simp: prefix_def)
  note new = newer [OF D, unfolded L, simplified]
  have empty: "log r ?k = D" if "filter (\<lambda>m. stamp (last_id D) < stamp (fst m)) (log r ?k) = []"
    using that newer [OF D] by (simp add: L)
  have rd: "LogStream_Read R r uid (last_id D) n =
      (case ?x of None \<Rightarrow> None
       | Some (Inl e) \<Rightarrow> Some (if e = ErrRedisNil then Inr [] else Inl e)
       | Some (Inr streams) \<Rightarrow>
          Some (if length streams = 0 \<or> length (snd (streams ! 0)) = 0 then Inr []
                else Inr (map (log_entry uid) (snd (streams ! 0)))))"
    by (simp add: LogStream_Read_def Let_def)
  show thesis
  proof (cases ?x)
    case None
    from xread_block [OF this] have "last_id D = ''0''" and e: "log r ?k = D"
      using empty by (auto simp: Millisecond_def split: if_splits)
    then have "D = []"
      using stamp_pos [of "last D" r ?k] stamp_0 by (auto simp: last_id_def split: if_splits)
    then show thesis using blocked None e rd by simp
  next
    case (Some a)
    show thesis
    proof (cases a)
      case (Inl e)
      show thesis
      proof (cases "e = ErrRedisNil")
        case True
        have "log r ?k = D" by (rule empty, rule xread_nil) (use Some Inl True in simp)
        moreover have "LogStream_Read R r uid (last_id D) n = Some (Inr [])"
          using Some Inl True rd by simp
        ultimately show thesis by (rule at_end [rotated])
      next
        case False
        then show thesis using failed Some Inl rd by simp
      qed
    next
      case (Inr streams)
      from newer [OF D] have "filter (\<lambda>m. stamp (last_id D) < stamp (fst m)) (log r ?k) = Z" by (simp add: L)
      with xread [OF n, of r ?k "last_id D" ?block streams] Some Inr
      have s: "Z \<noteq> []" "streams = [(?k, take n Z)]" by simp_all
      have "LogStream_Read R r uid (last_id D) n = Some (Inr (map (log_entry uid) (take n Z)))"
        using rd Some Inr s n by simp
      moreover have "prefix (D @ take n Z) (log r ?k)" by (simp add: L take_is_prefix)
      ultimately show thesis using some [of "take n Z"] s(1) n by (auto simp: L min_def)
    qed
  qed
qed

lemma last_entry: "E \<noteq> [] \<Longrightarrow> leID (last (map (log_entry uid) E)) = last_id (D @ E)"
  by (simp add: last_id_def last_map log_entry_def)

text \<open>What has been sent is always a beginning of the log, and all of it when the handler is done.\<close>

lemma stream_ticks_sound:
  assumes "sorted_wrt prefix (D # map (\<lambda>(r, task). log r (streamKey uid)) ticks)"
    and "stream_ticks (Some R) uid ticks (last_id D) = (out, e)"
  shows "if e = StreamDone
    then \<exists>E r. (r, Inr True) \<in> set ticks \<and> log r (streamKey uid) = D @ E \<and>
      out = map (SseData \<circ> log_entry uid) E @ [SseDone]
    else \<exists>E. out = map (SseData \<circ> log_entry uid) E \<and>
      (ticks = [] \<and> E = [] \<or> ticks \<noteq> [] \<and> prefix (D @ E) (log (fst (last ticks)) (streamKey uid)))"
  using assms
proof (induction ticks arbitrary: D out)
  case (Cons x ticks)
  obtain r task where x: "x = (r, task)" by fastforce
  let ?L = "log r (streamKey uid)" and ?ch = "map (\<lambda>(r, task). log r (streamKey uid)) ticks"
  from Cons.prems(1) have D: "prefix D ?L" and ch: "sorted_wrt prefix (?L # ?ch)"
    and Dch: "sorted_wrt prefix (D # ?ch)"
    by (auto simp: x)
  have last: "prefix ?L (log (fst (last (x # ticks))) (streamKey uid))"
    using ch by (cases ticks rule: rev_cases) (auto simp: x case_prod_beta)
  have weaken: "?case" if "stream_ticks (Some R) uid ticks (last_id D) = (out, e)"
  proof -
    have "prefix D (log (fst (last (x # ticks))) (streamKey uid))"
      using D last by (rule prefix_order.trans)
    with Cons.IH [OF Dch that] show ?thesis by (auto split: if_splits)
  qed
  show ?case
  proof (cases rule: Read_cases [OF D, of 100, case_names pos blocked failed at_end some])
    case blocked
    then have "out = [] \<and> e = ReadBlocked" using Cons.prems(2) by (simp add: x)
    moreover have "prefix D (log (fst (last (x # ticks))) (streamKey uid))"
      using D last by (rule prefix_order.trans)
    ultimately show ?thesis by (auto intro: exI [of _ "[]"])
  next
    case (failed e')
    then show ?thesis using weaken Cons.prems(2) by (simp add: x)
  next
    case at_end
    show ?thesis
    proof (cases "task = Inr True")
      case True
      then show ?thesis using at_end Cons.prems(2) by (auto simp: x)
    next
      case False
      then have "(case task of Inl e \<Rightarrow> False | Inr terminal \<Rightarrow> terminal) = False"
        by (cases task) auto
      then show ?thesis using at_end weaken Cons.prems(2) by (simp add: x split: prod.splits)
    qed
  next
    case (some E)
    obtain out' where o': "stream_ticks (Some R) uid ticks (last_id (D @ E)) = (out', e)"
      and out: "out = map (SseData \<circ> log_entry uid) E @ out'"
      using some(1,3) Cons.prems(2) last_entry [OF some(1), of uid D]
      by (auto simp: x Let_def split: prod.splits)
    have "sorted_wrt prefix ((D @ E) # ?ch)"
      using ch some(2) by (auto intro: prefix_order.trans)
    note IH = Cons.IH [OF this o']
    show ?thesis
    proof (cases "e = StreamDone")
      case True
      with IH obtain F r' where "(r', Inr True) \<in> set ticks" "log r' (streamKey uid) = D @ E @ F"
        "out' = map (SseData \<circ> log_entry uid) F @ [SseDone]" by auto
      then show ?thesis using True out by (auto intro!: exI [of _ "E @ F"] exI [of _ r'])
    next
      case False
      with IH obtain F where F: "out' = map (SseData \<circ> log_entry uid) F"
        "ticks = [] \<and> F = [] \<or> ticks \<noteq> [] \<and> prefix (D @ E @ F) (log (fst (last ticks)) (streamKey uid))"
        by auto
      then have "prefix (D @ E @ F) (log (fst (last (x # ticks))) (streamKey uid))"
        using some(2) by (auto simp: x)
      then show ?thesis using False out F(1) by (auto intro!: exI [of _ "E @ F"])
    qed
  qed simp
qed simp

text \<open>A log that no longer grows is sent to its end when the reads succeed and the task is over.\<close>

lemma stream_ticks_complete:
  assumes "list_all (\<lambda>(r, task). log r (streamKey uid) = L \<and> task = Inr True) ticks"
    and "\<And>r i b e. xs_XRead R r (streamKey uid) i 100 b = Some (Inl e) \<Longrightarrow> e = ErrRedisNil"
    and "prefix D L" "L \<noteq> []" and "ticks \<noteq> []" and "length L - length D \<le> 100 * (length ticks - 1)"
  shows "stream_ticks (Some R) uid ticks (last_id D) =
    (map (SseData \<circ> log_entry uid) (drop (length D) L) @ [SseDone], StreamDone)"
  using assms(1,3,5,6)
proof (induction ticks arbitrary: D)
  case (Cons x ticks)
  obtain r where x: "x = (r, Inr True)" and L: "log r (streamKey uid) = L"
    using Cons.prems(1) by (cases x) auto
  have D: "prefix D (log r (streamKey uid))" using Cons.prems(2) by (simp add: L)
  show ?case
  proof (cases rule: Read_cases [OF D, of 100, case_names pos blocked failed at_end some])
    case blocked
    then show ?thesis using assms(4) L by simp
  next
    case (failed e)
    then show ?thesis using assms(2)
      by (auto simp: LogStream_Read_def Let_def split: option.splits sum.splits if_splits)
  next
    case at_end
    then show ?thesis using L by (simp add: x)
  next
    case (some E)
    have "length L - length (D @ E) \<le> 100 * (length ticks - 1)" "ticks \<noteq> []"
      using Cons.prems(4) some(1,4) L by (cases ticks; auto)+
    from Cons.IH [OF _ _ this(2,1)] Cons.prems(1) some(2) L
    have "stream_ticks (Some R) uid ticks (last_id (D @ E)) =
        (map (SseData \<circ> log_entry uid) (drop (length (D @ E)) L) @ [SseDone], StreamDone)" by simp
    moreover obtain Z where "L = D @ E @ Z" using some(2) L by (auto simp: prefix_def)
    ultimately show ?thesis using some(1,3) last_entry [OF some(1), of uid D] by (simp add: x Let_def)
  qed simp
qed simp

text \<open>What the executor appends, while there is room for it.\<close>

lemma append_lines_log:
  assumes "\<And>r k n vals. fst (xs_XAdd R r k n vals) = None"
    and "length (log r (streamKey uid)) + length lines \<le> 10000"
  shows "\<exists>M. log (append_lines (Some R) uid stream lines r) =
      (log r)(streamKey uid := log r (streamKey uid) @ M) \<and>
    map (\<lambda>m. (leLine (log_entry uid m), leStream (log_entry uid m))) M = map (\<lambda>(now, l). (l, stream)) lines"
  using assms(2)
proof (induction lines arbitrary: r)
  case (Cons x lines)
  obtain now l where x: "x = (now, l)" by fastforce
  let ?k = "streamKey uid" and ?v = "[(''line'', l), (''stream'', stream), (''timestamp'', Itoa (now div Millisecond))]"
  obtain r' where a: "xs_XAdd R r ?k 10000 ?v = (None, r')"
    using assms(1) by (metis prod.collapse)
  from xadd [OF a] Cons.prems obtain i where i: "log r' = (log r)(?k := log r ?k @ [(i, ?v)])"
    by auto
  then have "length (log r' ?k) + length lines \<le> 10000" using Cons.prems by simp
  from Cons.IH [OF this] obtain M where M: "log (append_lines (Some R) uid stream lines r') =
      (log r')(?k := log r' ?k @ M)"
    "map (\<lambda>m. (leLine (log_entry uid m), leStream (log_entry uid m))) M = map (\<lambda>(now, l). (l, stream)) lines"
    by blast
  show ?case
    by (rule exI [of _ "(i, ?v) # M"]) (use M(2) in \<open>simp add: x Append_def a M(1) i log_entry_def\<close>)
qed simp

end

section \<open>A log in memory\<close>

text \<open>For each stream the number of entries trimmed so far and the values of the others; the
  entries are numbered in the order of their arrival.\<close>

type_synonym mem_log = "(string \<times> nat \<times> string_map list) list"

definition mem_stream :: "mem_log \<Rightarrow> string \<Rightarrow> nat \<times> string_map list" where
  "mem_stream r k = (case map_of r k of None \<Rightarrow> (0, []) | Some x \<Rightarrow> x)"

definition mem_id :: "nat \<Rightarrow> string" where
  "mem_id i = Itoa (int i) @ ''-0''"

definition mem_stamp :: "string \<Rightarrow> nat" where
  "mem_stamp s = nat (dec_value (takeWhile is_digit s))"

definition mem_entries :: "mem_log \<Rightarrow> string \<Rightarrow> (string \<times> string_map) list" where
  "mem_entries r k = (case mem_stream r k of (n, vs) \<Rightarrow>
     map (\<lambda>(i, v). (mem_id i, v)) (enumerate (Suc n) vs))"

definition mem_redis_log :: "mem_log redis_stream" where
  "mem_redis_log = \<lparr>
     xs_XAdd = (\<lambda>r k maxlen vals. case mem_stream r k of (n, vs) \<Rightarrow>
       let d = length vs + 1 - maxlen in (None, AList.update k (n + d, drop d (vs @ [vals])) r)),
     xs_XRead = (\<lambda>r k lastID cnt block.
       let new = filter (\<lambda>m. mem_stamp lastID < mem_stamp (fst m)) (mem_entries r k) in
       if new \<noteq> [] then Some (Inr [(k, take cnt new)])
       else if block = 0 then None else Some (Inl ErrRedisNil))\<rparr>"

lemma mem_stamp_id [simp]: "mem_stamp (mem_id i) = i"
proof -
  have "takeWhile is_digit (mem_id i) = nat_digits i"
    using nat_digits_all [of i]
    by (auto simp: mem_id_def Itoa_def takeWhile_append list_all_iff is_digit_def less_eq_char_def)
  then show ?thesis by (simp add: mem_stamp_def dec_value_digits)
qed

lemma mem_entries_stamps:
  "map (mem_stamp \<circ> fst) (mem_entries r k) =
     (case mem_stream r k of (n, vs) \<Rightarrow> [Suc n..<Suc n + length vs])"
  by (simp add: mem_entries_def case_prod_beta comp_def enumerate_eq_zip split: prod.split)

lemma drop_enumerate: "drop d (enumerate n xs) = enumerate (n + d) (drop d xs)"
  by (simp add: enumerate_eq_zip drop_zip) (cases "d \<le> length xs"; simp)

lemma mem_entries_add:
  assumes "xs_XAdd mem_redis_log r k maxlen vals = (e, r')"
  shows "e = None" "\<exists>i. mem_entries r' =
    (mem_entries r)(k := drop (length (mem_entries r k) + 1 - maxlen) (mem_entries r k @ [(i, vals)]))"
proof -
  obtain n vs where m: "mem_stream r k = (n, vs)" by fastforce
  let ?d = "length vs + 1 - maxlen"
  have r': "r' = AList.update k (n + ?d, drop ?d (vs @ [vals])) r" and "e = None"
    using assms by (auto simp: mem_redis_log_def m Let_def)
  then show "e = None" by simp
  have s: "mem_stream r' k' = (if k' = k then (n + ?d, drop ?d (vs @ [vals])) else mem_stream r k')" for k'
    by (simp add: r' mem_stream_def update_conv')
  have "drop ?d (mem_entries r k @ [(mem_id (Suc n + length vs), vals)]) =
      drop ?d (map (\<lambda>(i, v). (mem_id i, v)) (enumerate (Suc n) (vs @ [vals])))"
    by (simp add: mem_entries_def m enumerate_append_eq)
  also have "\<dots> = map (\<lambda>(i, v). (mem_id i, v)) (enumerate (Suc n + ?d) (drop ?d (vs @ [vals])))"
    by (simp only: drop_map drop_enumerate)
  also have "\<dots> = mem_entries r' k" by (simp add: mem_entries_def s)
  finally have at_k: "mem_entries r' k = drop (length (mem_entries r k) + 1 - maxlen)
      (mem_entries r k @ [(mem_id (Suc n + length vs), vals)])"
    by (simp add: mem_entries_def m)
  have "mem_entries r' k' = ((mem_entries r)(k := drop (length (mem_entries r k) + 1 - maxlen)
      (mem_entries r k @ [(mem_id (Suc n + length vs), vals)]))) k'" for k'
    using at_k by (cases "k' = k") (simp_all add: mem_entries_def s)
  then show "\<exists>i. mem_entries r' =
    (mem_entries r)(k := drop (length (mem_entries r k) + 1 - maxlen) (mem_entries r k @ [(i, vals)]))"
    by blast
qed

interpretation lmem: redis_log mem_redis_log mem_entries mem_stamp
proof (unfold_locales, goal_cases)
  case 1
  show ?case by (simp add: mem_stamp_def is_digit_def dec_value_def less_eq_char_def)
next
  case (2 m r k)
  then have "mem_stamp (fst m) \<in> set (map (mem_stamp \<circ> fst) (mem_entries r k))" by auto
  then show ?case by (auto simp: mem_entries_stamps split: prod.splits)
next
  case (3 r k)
  have "sorted_wrt (<) (map (mem_stamp \<circ> fst) (mem_entries r k))"
    by (simp only: mem_entries_stamps split_beta sorted_wrt_upt)
  then show ?case by (simp add: sorted_wrt_map)
qed (use mem_entries_add in \<open>auto simp: mem_redis_log_def Let_def split: if_splits prod.splits\<close>)

section \<open>Properties\<close>

text \<open>
  The live log has no gaps and no duplicates: while the log of the task only grows, what the
  handler has sent to a client is at every moment a beginning of the log, each entry once and in
  order, whatever reads fail in between; and when it sends the closing event, a read has found the
  task over and everything sent that was in the log at that read.
\<close>

lemma stream_delivers_log:
  assumes "redis_log R log stamp"
    and "sorted_wrt prefix (map (\<lambda>(r, task). log r (streamKey uid)) ticks)"
    and "stream_ticks (Some R) uid ticks ''0'' = (out, e)"
  shows "if e = StreamDone
    then \<exists>r. (r, Inr True) \<in> set ticks \<and>
      out = map (SseData \<circ> log_entry uid) (log r (streamKey uid)) @ [SseDone]
    else ticks = [] \<or> prefix out (map (SseData \<circ> log_entry uid) (log (fst (last ticks)) (streamKey uid)))"
proof -
  note last_id_def = redis_log.last_id_def [OF assms(1)]
  have "sorted_wrt prefix ([] # map (\<lambda>(r, task). log r (streamKey uid)) ticks)"
    using assms(2) by simp
  from redis_log.stream_ticks_sound [OF assms(1) this, of out e] assms(3)
  show ?thesis by (auto simp: last_id_def map_mono_prefix split: if_splits)
qed

text \<open>A stream for the witnesses: two lines of one task.\<close>

definition demo_log :: "mem_log \<Rightarrow> mem_log" where
  "demo_log = append_lines (Some mem_redis_log) ''u'' ''stdout'' [(0, ''a''), (0, ''b'')]"

lemma append_lines_mem:
  "append_lines (Some mem_redis_log) u st ((now, line) # lines) r =
     (case mem_stream r (streamKey u) of (n, vs) \<Rightarrow>
        let d = length vs + 1 - 10000 in
        append_lines (Some mem_redis_log) u st lines
          (AList.update (streamKey u) (n + d, drop d (vs @ [[(''line'', line), (''stream'', st),
             (''timestamp'', Itoa (now div Millisecond))]])) r))"
  by (simp add: Append_def mem_redis_log_def Let_def split: prod.split)

definition demo_value :: "string \<Rightarrow> string_map" where
  "demo_value l = [(''line'', l), (''stream'', ''stdout''), (''timestamp'', ''0'')]"

lemma demo_log_eq:
  "append_lines (Some mem_redis_log) ''u'' ''stdout'' [(0, ''a'')] [] = [(streamKey ''u'', 0, [demo_value ''a''])]"
  "demo_log [] = [(streamKey ''u'', 0, [demo_value ''a'', demo_value ''b''])]"
proof -
  have "Itoa 0 = ''0''" by code_simp
  then show "append_lines (Some mem_redis_log) ''u'' ''stdout'' [(0, ''a'')] [] = [(streamKey ''u'', 0, [demo_value ''a''])]"
    "demo_log [] = [(streamKey ''u'', 0, [demo_value ''a'', demo_value ''b''])]"
    by (simp_all add: demo_log_def append_lines_mem mem_stream_def demo_value_def del: append_lines.simps(2))
qed

lemma stream_delivers_log_witness:
  "case stream_ticks (Some mem_redis_log) ''u''
      [(append_lines (Some mem_redis_log) ''u'' ''stdout'' [(0, ''a'')] [], Inr False),
       (demo_log [], Inr True), (demo_log [], Inr True)] ''0'' of (out, e) \<Rightarrow>
     e = StreamDone \<and> (\<exists>r. out = map (SseData \<circ> log_entry ''u'') (mem_entries r (streamKey ''u'')) @ [SseDone])"
proof -
  let ?r = "append_lines (Some mem_redis_log) ''u'' ''stdout'' [(0, ''a'')] []"
  let ?ticks = "[(?r, Inr False), (demo_log [], Inr True), (demo_log [], Inr True)]"
  obtain out e where o: "stream_ticks (Some mem_redis_log) ''u'' ?ticks ''0'' = (out, e)" by fastforce
  have "snd (stream_ticks (Some mem_redis_log) ''u'' ?ticks ''0'') = StreamDone"
    unfolding demo_log_eq by code_simp
  with o have e: "e = StreamDone" by simp
  have "mem_entries (demo_log []) (streamKey ''u'') =
      mem_entries ?r (streamKey ''u'') @ drop 1 (mem_entries (demo_log []) (streamKey ''u''))"
    unfolding demo_log_eq by code_simp
  then have "prefix (mem_entries ?r (streamKey ''u'')) (mem_entries (demo_log []) (streamKey ''u''))"
    by (metis prefixI)
  then have "sorted_wrt prefix (map (\<lambda>(r, task). mem_entries r (streamKey ''u'')) ?ticks)" by simp
  from stream_delivers_log [OF lmem.redis_log_axioms this o] e
  have "\<exists>r. out = map (SseData \<circ> log_entry ''u'') (mem_entries r (streamKey ''u'')) @ [SseDone]"
    by (simp only: simp_thms if_True) blast
  with e show ?thesis by (simp only: o prod.case)
qed



text \<open>A task that is over and has written nothing: the first read waits for an entry that never
  comes, and the closing event is not sent. A closing event that is sent may miss the end of the
  log, too: the entries written between the read and the look at the status.\<close>

lemma stream_waits_without_output:
  "mem_entries r (streamKey uid) = [] \<Longrightarrow>
   stream_ticks (Some mem_redis_log) uid ((r, task) # ticks) ''0'' = ([], ReadBlocked)"
  by (simp add: LogStream_Read_def mem_redis_log_def Let_def)

lemma stream_without_redis: "stream_ticks None uid ((r, task) # ticks) lastID = ([], StreamPanic)"
  by simp

end
