(* ===== verification/Api.thy ===== *)
theory Api
  imports Task_Service Node_Manager Task_Scheduler Log_Stream
begin

text \<open>
  \<^verbatim>\<open>internal/api\<close>: the HTTP handlers of tasks, nodes and statistics, and the table of routes. A
  handler is a function of what it reads of the request and of the services, which are passed
  through; a response is its status code with its body. What the web framework provides is an
  argument: the result of binding the JSON body, the path parameters, and the query
  lookup with default (\<open>query\<close>).
\<close>

section \<open>Responses\<close>

datatype message = MsgTaskNotFound | MsgTaskCanceled | MsgNodeDrain | MsgNodeOnline | MsgNoStreaming

record stats =
  stTotalTasks :: int
  stSubmitted :: int
  stSuccess :: int
  stFailed :: int
  stRunning :: int
  stSuccessRate :: rat
  stDaily :: "string_map option"

datatype body =
    BError error
  | BErrorMessage message
  | BMessage message
  | BNodeMessage message string
  | BCreated string TaskStatus go_time
  | BTask Task
  | BTasks TaskListResult
  | BLog string string
  | BNode Node
  | BNodes "Node list" int
  | BResources int int
  | BNoResources
  | BStats stats
  | BDaily string_map

type_synonym response = "int \<times> body"

section \<open>Tasks\<close>

text \<open>How a handler answers an error of the service.\<close>

definition task_error :: "error \<Rightarrow> response" where
  "task_error err = (if err = ErrTaskNotFound then (404, BErrorMessage MsgTaskNotFound) else (500, BError err))"

definition createTask ::
    "string \<Rightarrow> go_time \<Rightarrow> CreateTaskRequest result \<Rightarrow> ('db, 'q, 'r) TaskService \<Rightarrow>
     response \<times> ('db, 'q, 'r) TaskService" where
  "createTask uuid now bound svc =
     (case bound of
        Inl err \<Rightarrow> ((400, BError err), svc)
      | Inr req \<Rightarrow>
          (case CreateTask uuid now req svc of
             (Inl err, svc') \<Rightarrow> ((500, BError err), svc')
           | (Inr task, svc') \<Rightarrow> ((201, BCreated (tTaskUID task) (tStatus task) (tCreatedAt task)), svc')))"

definition getTask_handler :: "string \<Rightarrow> ('db, 'q, 'r) TaskService \<Rightarrow> response" where
  "getTask_handler uid svc = (case GetTask svc uid of Inl err \<Rightarrow> task_error err | Inr task \<Rightarrow> (200, BTask task))"

text \<open>A number of the query: what is not positive, or not a number, is the default.\<close>

definition query_int :: "(string \<Rightarrow> string \<Rightarrow> string) \<Rightarrow> string \<Rightarrow> int \<Rightarrow> int" where
  "query_int query name dflt =
     (let v = fst (Atoi (query name (Itoa dflt))) in if v \<le> 0 then dflt else v)"

definition listTasks :: "(string \<Rightarrow> string \<Rightarrow> string) \<Rightarrow> ('db, 'q, 'r) TaskService \<Rightarrow> response" where
  "listTasks query svc =
     (let status = query ''status'' [];
          pageInt = query_int query ''page'' 1;
          sizeInt = query_int query ''size'' 10
      in case ListTasks svc status pageInt sizeInt of
           Inl err \<Rightarrow> (500, BError err)
         | Inr result \<Rightarrow> (200, BTasks result))"

definition cancelTask ::
    "go_time \<Rightarrow> string \<Rightarrow> ('db, 'q, 'r) TaskService \<Rightarrow> response \<times> ('db, 'q, 'r) TaskService" where
  "cancelTask now uid svc =
     (case CancelTask now svc uid of
        (Some err, svc') \<Rightarrow> (task_error err, svc')
      | (None, svc') \<Rightarrow> ((200, BMessage MsgTaskCanceled), svc'))"

definition rerunTask ::
    "string \<Rightarrow> go_time \<Rightarrow> string \<Rightarrow> ('db, 'q, 'r) TaskService \<Rightarrow> response \<times> ('db, 'q, 'r) TaskService" where
  "rerunTask uuid now uid svc =
     (case RerunTask uuid now svc uid of
        (Inl err, svc') \<Rightarrow> (task_error err, svc')
      | (Inr task, svc') \<Rightarrow> ((201, BCreated (tTaskUID task) (tStatus task) (tCreatedAt task)), svc'))"

definition getTaskLog :: "string \<Rightarrow> ('db, 'q, 'r) TaskService \<Rightarrow> response" where
  "getTaskLog uid svc =
     (case GetTask svc uid of
        Inl err \<Rightarrow> task_error err
      | Inr task \<Rightarrow> (200, BLog (tStdout task) (tStderr task)))"

text \<open>\<^verbatim>\<open>streamTaskLog\<close>, over the states of Redis and of the service at its ticks.\<close>

definition streamTaskLog ::
    "'l redis_stream option \<Rightarrow> bool \<Rightarrow> ('l \<times> ('db, 'q, 'r) TaskService) list \<Rightarrow> string \<Rightarrow>
     ('db, 'q, 'r) TaskService \<Rightarrow> response + sse list \<times> stream_end" where
  "streamTaskLog logStream flusher ticks uid svc =
     (case GetTask svc uid of
        Inl err \<Rightarrow> Inl (task_error err)
      | Inr _ \<Rightarrow>
          if \<not> flusher then Inl (500, BErrorMessage MsgNoStreaming)
          else Inr (stream_ticks logStream uid
            (map (\<lambda>(r, svc'). (r, case GetTask svc' uid of
                Inl err \<Rightarrow> Inl err | Inr task \<Rightarrow> Inr (IsTerminal (tStatus task)))) ticks) ''0''))"

section \<open>Nodes\<close>

definition listNodes :: "(string \<Rightarrow> string \<Rightarrow> string) \<Rightarrow> ('db, 'e) NodeManager \<Rightarrow> response" where
  "listNodes query svc =
     (case ListNodes svc (query ''status'' []) of
        Inl err \<Rightarrow> (500, BError err)
      | Inr nodes \<Rightarrow> (200, BNodes nodes (int (length nodes))))"

definition getNode :: "string \<Rightarrow> ('db, 'e) NodeManager \<Rightarrow> response" where
  "getNode nodeID svc =
     (case GetNode svc nodeID of Inl err \<Rightarrow> (404, BError err) | Inr node \<Rightarrow> (200, BNode node))"

definition drainNode :: "go_time \<Rightarrow> string \<Rightarrow> ('db, 'e) NodeManager \<Rightarrow> response \<times> ('db, 'e) NodeManager" where
  "drainNode now nodeID svc =
     (case DrainNode now nodeID svc of
        (Some err, svc') \<Rightarrow> ((500, BError err), svc')
      | (None, svc') \<Rightarrow> ((200, BNodeMessage MsgNodeDrain nodeID), svc'))"

definition uncordonNode :: "go_time \<Rightarrow> string \<Rightarrow> ('db, 'e) NodeManager \<Rightarrow> response \<times> ('db, 'e) NodeManager" where
  "uncordonNode now nodeID svc =
     (case UncordonNode now nodeID svc of
        (Some err, svc') \<Rightarrow> ((500, BError err), svc')
      | (None, svc') \<Rightarrow> ((200, BNodeMessage MsgNodeOnline nodeID), svc'))"

section \<open>Resources and statistics\<close>

definition getResources :: "('db, 'q, 'r, 'e) Scheduler option \<Rightarrow> response" where
  "getResources rp =
     (case rp of
        None \<Rightarrow> (200, BNoResources)
      | Some s \<Rightarrow> (case GetTotalResources s of (totalCPU, totalMem) \<Rightarrow> (200, BResources totalCPU totalMem)))"

definition safeDiv :: "int \<Rightarrow> int \<Rightarrow> rat" where
  "safeDiv a b = (if b = 0 then 0 else fl64 (fl64 (of_int a) / fl64 (of_int b)))"

text \<open>The counters submitted, success, failed and running.\<close>

definition count_task :: "Task \<Rightarrow> int \<times> int \<times> int \<times> int \<Rightarrow> int \<times> int \<times> int \<times> int" where
  "count_task t c = (case c of (submitted, success, failed, running) \<Rightarrow>
     (case tStatus t of
        TaskStatusSuccess \<Rightarrow> (wrap64 (submitted + 1), wrap64 (success + 1), failed, running)
      | TaskStatusFailed \<Rightarrow> (wrap64 (submitted + 1), success, wrap64 (failed + 1), running)
      | TaskStatusRunning \<Rightarrow> (wrap64 (submitted + 1), success, failed, wrap64 (running + 1))
      | _ \<Rightarrow> (wrap64 (submitted + 1), success, failed, running)))"

text \<open>The hashes of Redis; \<open>format\<close> prints a date.\<close>

record 'r redis_hash =
  ra_HGetAll :: "'r \<Rightarrow> string \<Rightarrow> string_map"

definition getStats ::
    "'s redis_hash option \<Rightarrow> 's \<Rightarrow> (go_time \<Rightarrow> string) \<Rightarrow> go_time \<Rightarrow> ('db, 'q, 'r) TaskService \<Rightarrow> response" where
  "getStats rdb r format now svc =
     (case ListTasks svc [] 1 1000 of
        Inl err \<Rightarrow> (500, BError err)
      | Inr result \<Rightarrow>
          (case fold count_task (tlTasks result) (0, 0, 0, 0) of
             (submitted, success, failed, running) \<Rightarrow>
               (200, BStats \<lparr>
                  stTotalTasks = tlTotal result, stSubmitted = submitted, stSuccess = success,
                  stFailed = failed, stRunning = running, stSuccessRate = safeDiv success submitted,
                  stDaily = (case rdb of
                      None \<Rightarrow> None
                    | Some R \<Rightarrow>
                        (let dailyStats = ra_HGetAll R r (''stats:daily:'' @ format now)
                         in if length dailyStats > 0 then Some dailyStats else None))\<rparr>)))"

definition getDailyStats ::
    "'s redis_hash option \<Rightarrow> 's \<Rightarrow> (go_time \<Rightarrow> string) \<Rightarrow> go_time \<Rightarrow> (string \<Rightarrow> string \<Rightarrow> string) \<Rightarrow> response" where
  "getDailyStats rdb r format now query =
     (case rdb of
        None \<Rightarrow> (200, BDaily [])
      | Some R \<Rightarrow> (200, BDaily (ra_HGetAll R r (''stats:daily:'' @ query ''date'' (format now)))))"

section \<open>Routes\<close>

datatype handler =
    HCreateTask | HListTasks | HGetTask | HCancelTask | HRerunTask | HGetTaskLog | HStreamTaskLog
  | HListNodes | HGetNode | HDrainNode | HUncordonNode | HGetResources | HGetStats | HGetDailyStats

text \<open>A pattern is the list of its segments below \<^verbatim>\<open>/api/v1\<close>; a parameter starts with a colon.\<close>

definition RegisterRoutes :: "(string \<times> string list \<times> handler) list" where
  "RegisterRoutes = [
     (''POST'', [''tasks''], HCreateTask),
     (''GET'', [''tasks''], HListTasks),
     (''GET'', [''tasks'', '':task_uid''], HGetTask),
     (''POST'', [''tasks'', '':task_uid'', ''cancel''], HCancelTask),
     (''POST'', [''tasks'', '':task_uid'', ''rerun''], HRerunTask),
     (''GET'', [''tasks'', '':task_uid'', ''log''], HGetTaskLog),
     (''GET'', [''tasks'', '':task_uid'', ''log'', ''stream''], HStreamTaskLog),
     (''GET'', [''nodes''], HListNodes),
     (''GET'', [''nodes'', '':node_id''], HGetNode),
     (''POST'', [''nodes'', '':node_id'', ''drain''], HDrainNode),
     (''POST'', [''nodes'', '':node_id'', ''uncordon''], HUncordonNode),
     (''GET'', [''resources''], HGetResources),
     (''GET'', [''stats''], HGetStats),
     (''GET'', [''stats'', ''daily''], HGetDailyStats)]"

section \<open>Properties\<close>

text \<open>No path matches two routes of a method.\<close>

definition segment_match :: "string \<Rightarrow> string \<Rightarrow> bool" where
  "segment_match pat seg \<longleftrightarrow> HasPrefix pat '':'' \<or> pat = seg"

definition route_match :: "string \<Rightarrow> string list \<Rightarrow> string \<times> string list \<times> handler \<Rightarrow> bool" where
  "route_match verb path route \<longleftrightarrow>
     (case route of (m, pats, h) \<Rightarrow> m = verb \<and> list_all2 segment_match pats path)"

lemma routes_unambiguous:
  assumes "(m, p, h) \<in> set RegisterRoutes" "(m', p', h') \<in> set RegisterRoutes"
    and "route_match verb path (m, p, h)" "route_match verb path (m', p', h')"
  shows "h = h'"
  using assms
  by (auto simp: RegisterRoutes_def route_match_def segment_match_def HasPrefix_def list_all2_Cons1)

lemma query_int_pos: "0 < dflt \<Longrightarrow> 0 < query_int query name dflt"
  by (simp add: query_int_def Let_def)

lemma query_int_dec:
  "query name (Itoa dflt) = Itoa n \<Longrightarrow> int64_range n \<Longrightarrow> 0 < n \<Longrightarrow> query_int query name dflt = n"
  by (simp add: query_int_def Atoi_Itoa)

lemma query_int_bad:
  "query name (Itoa dflt) = s \<Longrightarrow> fst (Atoi s) \<le> 0 \<Longrightarrow> query_int query name dflt = dflt"
  by (simp add: query_int_def)

text \<open>What \<open>ListTasks\<close> gives over a database.\<close>

lemma ListTasks_page:
  assumes "task_db pg rows pgts" and "vStore svc = NewTaskStore pg"
    and "ListTasks svc status page sz = Inr l" and "0 < page" "0 < sz"
  shows "\<exists>all. query_result (rows (vDB svc)) (if status = [] then None else Some status) all \<and>
     tlTasks l = map scanTask (take (nat sz) (drop (nat (wrap64 (wrap64 (page - 1) * sz))) all)) \<and>
     tlTotal l = int (length all) \<and> tlPage l = page \<and> tlSize l = sz"
proof -
  obtain ts n where ts: "TaskStore_List pg (vDB svc) status page sz = Inr (ts, n)"
    and l: "l = \<lparr>tlTasks = ts, tlTotal = n, tlPage = page, tlSize = sz\<rparr>"
    using assms(2-5) by (auto simp: ListTasks_def NewTaskStore_def split: sum.splits)
  from task_db.list_ok [OF assms(1) ts] l show ?thesis by auto
qed



text \<open>
  A task that does not exist: the store reports it with the error of the SQL driver, not with
  \<open>ErrTaskNotFound\<close>, so the handlers answer with status 500 and the branch for 404 is never taken.
\<close>

lemma unknown_task_500:
  assumes db: "task_db pg rows pgts" and S: "vStore svc = NewTaskStore pg" and none: "rows (vDB svc) uid = None"
  shows "list_all (\<lambda>resp. fst resp = 500)
    [getTask_handler uid svc, fst (cancelTask now uid svc), fst (rerunTask uuid now uid svc), getTaskLog uid svc]"
proof -
  obtain e where e: "ts_GetByUID (vStore svc) (vDB svc) uid = Inl e" "e \<noteq> ErrTaskNotFound"
    using task_db.by_uid_ok [OF db, of "vDB svc" uid] task_db.by_uid_none [OF db none] none
    by (cases "pg_by_uid pg (vDB svc) uid") (auto simp: S NewTaskStore_def TaskStore_GetByUID_def)
  then show ?thesis
    by (simp add: getTask_handler_def cancelTask_def rerunTask_def getTaskLog_def GetTask_def CancelTask_def
        RerunTask_def task_error_def)
qed

text \<open>The statistics count the first thousand tasks by status.\<close>

lemma count_tasks:
  assumes "a + int (length ts) < 2 ^ 63" and "0 \<le> b" "0 \<le> c" "0 \<le> d" "b \<le> a" "c \<le> a" "d \<le> a"
  shows "fold count_task ts (a, b, c, d) =
    (a + int (length ts), b + int (length (filter (\<lambda>t. tStatus t = TaskStatusSuccess) ts)),
     c + int (length (filter (\<lambda>t. tStatus t = TaskStatusFailed) ts)),
     d + int (length (filter (\<lambda>t. tStatus t = TaskStatusRunning) ts)))"
  using assms
proof (induction ts arbitrary: a b c d)
  case (Cons t ts)
  then have w: "wrap64 (x + 1) = x + 1" if "0 \<le> x" "x \<le> a" for x
    using that by (intro wrap64_id) (simp add: int64_range_def)
  show ?case using Cons.prems Cons.IH [of "a + 1"] w
    by (cases "tStatus t") (simp_all add: count_task_def)
qed simp

lemma getStats_counts:
  assumes "task_db pg rows pgts" and "vStore svc = NewTaskStore pg"
    and "getStats rdb r format now svc = (200, BStats s)"
  shows "\<exists>all. query_result (rows (vDB svc)) None all \<and> stTotalTasks s = int (length all) \<and>
    (let ts = map scanTask (take 1000 all); n = \<lambda>st. int (length (filter (\<lambda>t. tStatus t = st) ts)) in
       stSubmitted s = int (length ts) \<and> stSuccess s = n TaskStatusSuccess \<and>
       stFailed s = n TaskStatusFailed \<and> stRunning s = n TaskStatusRunning \<and>
       stSuccessRate s = safeDiv (n TaskStatusSuccess) (int (length ts)))"
proof -
  obtain l where l: "ListTasks svc [] 1 1000 = Inr l"
    using assms(3) by (auto simp: getStats_def split: sum.splits)
  from ListTasks_page [OF assms(1,2) this] obtain all where all: "query_result (rows (vDB svc)) None all"
    "tlTasks l = map scanTask (take 1000 all)" "tlTotal l = int (length all)"
    by (auto simp: wrap64_id)
  have "length (tlTasks l) \<le> 1000" by (simp add: all(2))
  then have "fold count_task (tlTasks l) (0, 0, 0, 0) =
    (int (length (tlTasks l)), int (length (filter (\<lambda>t. tStatus t = TaskStatusSuccess) (tlTasks l))),
     int (length (filter (\<lambda>t. tStatus t = TaskStatusFailed) (tlTasks l))),
     int (length (filter (\<lambda>t. tStatus t = TaskStatusRunning) (tlTasks l))))"
    by (subst count_tasks) simp_all
  then have "stTotalTasks s = tlTotal l" "stSubmitted s = int (length (tlTasks l))"
      "stSuccess s = int (length (filter (\<lambda>t. tStatus t = TaskStatusSuccess) (tlTasks l)))"
      "stFailed s = int (length (filter (\<lambda>t. tStatus t = TaskStatusFailed) (tlTasks l)))"
      "stRunning s = int (length (filter (\<lambda>t. tStatus t = TaskStatusRunning) (tlTasks l)))"
      "stSuccessRate s = safeDiv (int (length (filter (\<lambda>t. tStatus t = TaskStatusSuccess) (tlTasks l))))
        (int (length (tlTasks l)))"
    using assms(3) l by (auto simp: getStats_def)
  then show ?thesis
    unfolding all(2,3) Let_def by (intro exI [of _ all] conjI all(1))
qed

end
