(* ===== verification/Agent_Host.thy ===== *)
theory Agent_Host
  imports Agent_Server Go_Strconv "HOL-Library.Word"
begin

text \<open>
  The other side of \<^verbatim>\<open>cmd/agent/main.go\<close>: how the agent measures its host and what it sends of it.
  The files, \<^verbatim>\<open>sysctl\<close>, \<^verbatim>\<open>statfs\<close> and the dialled address are arguments; \<^verbatim>\<open>fmt.Sscanf\<close> is modelled for the
  formats of the file, and the sizes of a file system are 64-bit words, whose products wrap around. Of the
  texts \<^verbatim>\<open>%f\<close> accepts, those in decimal notation are modelled; for the others (\<^verbatim>\<open>NaN\<close>, infinities,
  hexadecimal digits, underscores), which no kernel writes, the scan fails.

  The lemmas show that the memory figures are those of a well-formed \<^verbatim>\<open>/proc/meminfo\<close>, whatever
  the order of its lines, and that a disk is never reported fuller than it is large.
\<close>

section \<open>Memory\<close>

text \<open>
  \<^verbatim>\<open>Sscanf(line, prefix + " %d kB", &v)\<close>, for a line with the prefix: what is assigned, if anything,
  and whether the scan succeeds. A blank of the format needs one in the input or its end; a value that was
  scanned stays assigned when the rest of the format does not match.
\<close>

definition Sscanf_kB :: "string \<Rightarrow> string \<Rightarrow> int option \<times> bool" where
  "Sscanf_kB prefix line =
     (let rest = drop (length prefix) line;
          num = dropWhile is_blank rest;
          sign = (if num \<noteq> [] \<and> hd num \<in> {CHR ''+'', CHR ''-''} then take 1 num else []);
          ds = takeWhile is_digit (drop (length sign) num);
          after = drop (length sign + length ds) num
      in if rest \<noteq> [] \<and> \<not> is_blank (hd rest) then (None, False)
         else (case Atoi (sign @ ds) of
             (v, Some e) \<Rightarrow> (None, False)
           | (v, None) \<Rightarrow>
               (Some v, after \<noteq> [] \<and> is_blank (hd after) \<and> HasPrefix (dropWhile is_blank after) ''kB'')))"

fun meminfo_total :: "string list \<Rightarrow> int" where
  "meminfo_total [] = 0"
| "meminfo_total (line # rest) =
     (if HasPrefix line ''MemTotal:'' then
        (case Sscanf_kB ''MemTotal:'' line of
           (Some kb, True) \<Rightarrow> kb sdiv 1024
         | _ \<Rightarrow> meminfo_total rest)
      else meminfo_total rest)"

definition detectMemoryProc :: "string result \<Rightarrow> int" where
  "detectMemoryProc meminfo =
     (case meminfo of Inl e \<Rightarrow> 0 | Inr data \<Rightarrow> meminfo_total (Split CHR 0x0A data))"

text \<open>\<^verbatim>\<open>sysctl\<close> gives a text of which \<^verbatim>\<open>%d\<close> reads an unsigned 64-bit number.\<close>

definition Sscanf_uint :: "string \<Rightarrow> 64 word option" where
  "Sscanf_uint s =
     (let ds = takeWhile is_digit (dropWhile is_blank s)
      in if ds = [] \<or> dec_value ds \<ge> 2 ^ 64 then None else Some (word_of_int (dec_value ds)))"

definition detectMemorySysctl :: "(string \<Rightarrow> string result) \<Rightarrow> int" where
  "detectMemorySysctl sysctl =
     (case sysctl ''hw.memsize'' of
        Inl e \<Rightarrow> 0
      | Inr raw \<Rightarrow>
          (case Sscanf_uint raw of
             None \<Rightarrow> 0
           | Some memBytes \<Rightarrow> sint (memBytes div 1024 div 1024)))"

definition detectMemory :: "(string \<Rightarrow> string result) \<Rightarrow> string result \<Rightarrow> int" where
  "detectMemory sysctl meminfo =
     (let memMB = detectMemorySysctl sysctl in
      if memMB > 0 then memMB
      else let memMB = detectMemoryProc meminfo in
        if memMB > 0 then memMB else 8192)"

text \<open>The loop of \<^verbatim>\<open>getMemoryUsed\<close>: total, available and free memory in kB.\<close>

definition scan_into :: "string \<Rightarrow> string \<Rightarrow> int \<Rightarrow> int" where
  "scan_into prefix line v = (case fst (Sscanf_kB prefix line) of None \<Rightarrow> v | Some x \<Rightarrow> x)"

definition meminfo_line :: "string \<Rightarrow> int \<times> int \<times> int \<Rightarrow> int \<times> int \<times> int" where
  "meminfo_line line st =
     (let (memTotal, memAvailable, memFree) = st;
          memTotal = (if HasPrefix line ''MemTotal:'' then scan_into ''MemTotal:'' line memTotal else memTotal);
          memAvailable = (if HasPrefix line ''MemAvailable:''
            then scan_into ''MemAvailable:'' line memAvailable else memAvailable);
          memFree = (if HasPrefix line ''MemFree:'' \<and> memAvailable = 0
            then scan_into ''MemFree:'' line memFree else memFree)
      in (memTotal, memAvailable, memFree))"

definition getMemoryUsed :: "string result \<Rightarrow> int" where
  "getMemoryUsed meminfo =
     (case meminfo of
        Inl e \<Rightarrow> 0
      | Inr data \<Rightarrow>
          (case fold meminfo_line (Split CHR 0x0A data) (0, 0, 0) of
             (memTotal, memAvailable, memFree) \<Rightarrow>
               if memAvailable > 0 then wrap64 (memTotal - memAvailable) sdiv 1024
               else if memFree > 0 then wrap64 (memTotal - memFree) sdiv 1024
               else 0))"

section \<open>Disk\<close>

record statfs =
  fsBlocks :: "64 word"
  fsBfree :: "64 word"
  fsBsize :: "64 word"

definition detectDisk :: "statfs result \<Rightarrow> int" where
  "detectDisk st =
     (case st of
        Inl e \<Rightarrow> 102400
      | Inr fs \<Rightarrow> (let totalBytes = fsBlocks fs * fsBsize fs in sint (totalBytes div 1024 div 1024)))"

definition getDiskUsed :: "statfs result \<Rightarrow> int" where
  "getDiskUsed st =
     (case st of
        Inl e \<Rightarrow> 0
      | Inr fs \<Rightarrow>
          (let totalBytes = fsBlocks fs * fsBsize fs;
               freeBytes = fsBfree fs * fsBsize fs
           in sint ((totalBytes - freeBytes) div 1024 div 1024)))"

section \<open>Load average\<close>

text \<open>The text \<^verbatim>\<open>%f\<close> takes: a sign, digits, a fraction and an exponent; what follows; and the number
  \<^verbatim>\<open>strconv.ParseFloat\<close> makes of it, correctly rounded.\<close>

definition sign_text :: "string \<Rightarrow> string" where
  "sign_text s = (if s \<noteq> [] \<and> hd s \<in> {CHR ''+'', CHR ''-''} then take 1 s else [])"

definition signed :: "string \<Rightarrow> 'a \<Rightarrow> 'a :: uminus" where
  "signed sign x = (if sign = ''-'' then - x else x)"

record float_text =
  ftSign :: string
  ftWhole :: string
  ftFrac :: string
  ftExp :: "(string \<times> string) option"

definition float_token :: "string \<Rightarrow> float_text \<times> string" where
  "float_token s0 =
     (let sign = sign_text s0; s1 = drop (length sign) s0;
          whole = takeWhile is_digit s1; s2 = drop (length whole) s1;
          point = (s2 \<noteq> [] \<and> hd s2 = CHR ''.''); s3 = (if point then tl s2 else s2);
          frac = (if point then takeWhile is_digit s3 else []); s4 = drop (length frac) s3
      in if s4 \<noteq> [] \<and> hd s4 \<in> {CHR ''e'', CHR ''E''}
         then (let s5 = tl s4; esign = sign_text s5; s6 = drop (length esign) s5; ds = takeWhile is_digit s6
               in (\<lparr>ftSign = sign, ftWhole = whole, ftFrac = frac, ftExp = Some (esign, ds)\<rparr>, drop (length ds) s6))
         else (\<lparr>ftSign = sign, ftWhole = whole, ftFrac = frac, ftExp = None\<rparr>, s4))"

definition ParseFloat :: "float_text \<Rightarrow> rat option" where
  "ParseFloat ft =
     (let e = (case ftExp ft of None \<Rightarrow> 0 | Some (sign, ds) \<Rightarrow> signed sign (dec_value ds));
          x = signed (ftSign ft) (of_int (dec_value (ftWhole ft @ ftFrac ft)) * 10 powi (e - int (length (ftFrac ft))))
      in if ftWhole ft @ ftFrac ft = [] \<or> map_option snd (ftExp ft) = Some [] then None
         else if x \<noteq> 0 \<and> 1024 \<le> floor_log2 \<bar>fl64 x\<bar> then None
         else Some (fl64 x))"

text \<open>One \<^verbatim>\<open>%f\<close>: blanks are skipped, a line break is an error. A blank of a format needs one in the input, or
  its end.\<close>

definition scan_f :: "string \<Rightarrow> (rat \<times> string) option" where
  "scan_f s =
     (let (ft, rest) = float_token (dropWhile (\<lambda>c. is_blank c \<and> c \<noteq> CHR 0x0A) s)
      in map_option (\<lambda>x. (x, rest)) (ParseFloat ft))"

definition scan_gap :: "string \<Rightarrow> bool" where
  "scan_gap rest \<longleftrightarrow> rest = [] \<or> is_blank (hd rest)"

text \<open>The first number read in the formats \<^verbatim>\<open>"%f %f %f"\<close> and \<^verbatim>\<open>"{ %f"\<close>, if the scan succeeds.\<close>

definition Sscanf_fff :: "string \<Rightarrow> rat option" where
  "Sscanf_fff s =
     (case scan_f s of
        None \<Rightarrow> None
      | Some (load1, s1) \<Rightarrow>
          if \<not> scan_gap s1 then None
          else (case scan_f s1 of
             None \<Rightarrow> None
           | Some (load5, s2) \<Rightarrow>
               if \<not> scan_gap s2 then None
               else (case scan_f s2 of None \<Rightarrow> None | Some (load15, s3) \<Rightarrow> Some load1)))"

definition Sscanf_brace_f :: "string \<Rightarrow> rat option" where
  "Sscanf_brace_f s =
     (if s \<noteq> [] \<and> hd s = CHR ''{'' \<and> scan_gap (tl s) then map_option fst (scan_f (tl s)) else None)"

text \<open>\<^verbatim>\<open>math.Round\<close> rounds halves away from zero.\<close>

definition math_Round :: "rat \<Rightarrow> int" where
  "math_Round x = (if x < 0 then - \<lfloor>- x + 1 / 2\<rfloor> else \<lfloor>x + 1 / 2\<rfloor>)"

definition round2 :: "rat \<Rightarrow> rat" where
  "round2 load1 = fl64 (of_int (math_Round (fl64 (load1 * 100))) / 100)"

definition getLoadAvg :: "(string \<Rightarrow> string result) \<Rightarrow> string result \<Rightarrow> rat" where
  "getLoadAvg sysctl loadavg =
     (case sysctl ''vm.loadavg'' of
        Inl err \<Rightarrow>
          (case loadavg of
             Inl err \<Rightarrow> 0
           | Inr data \<Rightarrow> (case Sscanf_fff data of None \<Rightarrow> 0 | Some load1 \<Rightarrow> round2 load1))
      | Inr raw \<Rightarrow> (case Sscanf_brace_f raw of None \<Rightarrow> 0 | Some load1 \<Rightarrow> round2 load1))"

section \<open>Address\<close>

text \<open>The local address of a UDP socket to an outside host, if one can be made.\<close>

definition getOutboundIP :: "string result \<Rightarrow> string" where
  "getOutboundIP dialled = (case dialled of Inl err \<Rightarrow> ''127.0.0.1'' | Inr ip \<Rightarrow> ip)"

section \<open>Messages\<close>

text \<open>What the agent can see of its host.\<close>

record host =
  hoHostname :: "string result"
  hoDialled :: "string result"
  hoNumCPU :: int
  hoSysctl :: "string \<Rightarrow> string result"
  hoMeminfo :: "string result"
  hoStatfs :: "statfs result"
  hoLoadavg :: "string result"

definition detectCPU :: "host \<Rightarrow> int" where
  "detectCPU h = hoNumCPU h"

definition getCPUUsage :: rat where
  "getCPUUsage = 0"

definition countRunningTasks :: int where
  "countRunningTasks = 0"

definition collectResources :: "host \<Rightarrow> node_load" where
  "collectResources h = \<lparr>
     lCPUPct = getCPUUsage, lMemUsedMB = getMemoryUsed (hoMeminfo h),
     lDiskUsedMB = getDiskUsed (hoStatfs h), lLoadAvg = getLoadAvg (hoSysctl h) (hoLoadavg h),
     lRunningTasks = wrap32 countRunningTasks\<rparr>"

definition agent_version :: string where
  "agent_version = ''0.3.0''"

definition agent_request :: "host \<Rightarrow> string \<Rightarrow> RegisterRequest" where
  "agent_request h labels = \<lparr>
     rqHostname = (case hoHostname h of Inl e \<Rightarrow> ''unknown'' | Inr hostname \<Rightarrow> hostname),
     rqIp = getOutboundIP (hoDialled h), rqVersion = agent_version, rqTotalCpu = detectCPU h,
     rqTotalMemoryMb = detectMemory (hoSysctl h) (hoMeminfo h),
     rqTotalDiskMb = detectDisk (hoStatfs h), rqLabels = agent_labels labels\<rparr>"

definition agent_heartbeat :: "host \<Rightarrow> string \<Rightarrow> HeartbeatRequest" where
  "agent_heartbeat h nodeID =
     \<lparr>hbNodeId = nodeID, hbVersion = agent_version, hbResources = Some (collectResources h)\<rparr>"

text \<open>The start of the agent: it exits when it cannot connect or register (\<open>None\<close>), else it runs its
  two loops under the identifier it got.\<close>

definition agent_main ::
    "error option \<Rightarrow> host \<Rightarrow> string \<Rightarrow> string \<Rightarrow> go_time \<Rightarrow> ('db, 'q, 'r, 'e, 'n) AgentServer \<Rightarrow>
     string option \<times> ('db, 'q, 'r, 'e, 'n) AgentServer" where
  "agent_main dialErr h labels uuid now srv =
     (case dialErr of
        Some e \<Rightarrow> (None, srv)
      | None \<Rightarrow>
          (case AgentServer_Register uuid now (agent_request h labels) srv of
             (Inl e, srv') \<Rightarrow> (None, srv')
           | (Inr nodeID, srv') \<Rightarrow> (Some nodeID, srv')))"

section \<open>Properties\<close>

lemma sint_small:
  assumes "unat (w :: 64 word) < 2 ^ 63"
  shows "sint w = int (unat w)"
proof -
  have "int (unat w) < int (2 ^ 63)" using assms by (simp only: of_nat_less_iff)
  then have "uint w < 2 ^ 63" by simp
  moreover have "- (2 ^ 63) \<le> uint w" by (rule order_trans [of _ 0]) simp_all
  ultimately have "signed_take_bit 63 (uint w) = uint w"
    by (intro signed_take_bit_int_eq_self) simp_all
  then show ?thesis by (simp add: sint_uint)
qed

lemma sint_megabytes: "sint (w div 1024 div 1024 :: 64 word) = int (unat w div 1048576)"
proof -
  have "unat (w div 1024 div 1024) = unat w div 1048576"
    by (simp add: unat_div div_mult2_eq [symmetric])
  moreover have "unat w < 2 ^ 64" by (rule order_less_le_trans [OF unsigned_less]) simp
  then have "unat w div 1048576 < 2 ^ 63" by simp
  ultimately show ?thesis by (simp add: sint_small)
qed

text \<open>While the size in bytes fits into 64 bits, the disk figures are exact, and no disk is fuller
  than it is large.\<close>

lemma disk_figures:
  assumes "unat (fsBfree fs) \<le> unat (fsBlocks fs)" "unat (fsBlocks fs) * unat (fsBsize fs) < 2 ^ 64"
  shows "detectDisk (Inr fs) = int (unat (fsBlocks fs) * unat (fsBsize fs) div 1048576)"
    and "getDiskUsed (Inr fs) = int ((unat (fsBlocks fs) - unat (fsBfree fs)) * unat (fsBsize fs) div 1048576)"
    and "0 \<le> getDiskUsed (Inr fs) \<and> getDiskUsed (Inr fs) \<le> detectDisk (Inr fs)"
proof -
  let ?t = "fsBlocks fs * fsBsize fs" and ?f = "fsBfree fs * fsBsize fs"
  have le: "unat (fsBfree fs) * unat (fsBsize fs) \<le> unat (fsBlocks fs) * unat (fsBsize fs)"
    using assms(1) by (rule mult_le_mono1)
  have t: "unat ?t = unat (fsBlocks fs) * unat (fsBsize fs)"
    and f: "unat ?f = unat (fsBfree fs) * unat (fsBsize fs)"
    using assms(2) le_less_trans [OF le assms(2)] by (simp_all add: unat_word_ariths)
  have "?f \<le> ?t" using le by (simp add: word_le_nat_alt t f)
  then have "unat (?t - ?f) = (unat (fsBlocks fs) - unat (fsBfree fs)) * unat (fsBsize fs)"
    by (simp add: unat_sub t f diff_mult_distrib)
  then show d: "detectDisk (Inr fs) = int (unat (fsBlocks fs) * unat (fsBsize fs) div 1048576)"
    and u: "getDiskUsed (Inr fs) = int ((unat (fsBlocks fs) - unat (fsBfree fs)) * unat (fsBsize fs) div 1048576)"
    by (simp_all add: detectDisk_def getDiskUsed_def Let_def sint_megabytes t)
  have "(unat (fsBlocks fs) - unat (fsBfree fs)) * unat (fsBsize fs) \<le> unat (fsBlocks fs) * unat (fsBsize fs)"
    by simp
  then show "0 \<le> getDiskUsed (Inr fs) \<and> getDiskUsed (Inr fs) \<le> detectDisk (Inr fs)"
    unfolding d u by (simp add: div_le_mono)
qed

text \<open>A line of \<^verbatim>\<open>/proc/meminfo\<close>.\<close>

definition mem_line :: "string \<Rightarrow> nat \<Rightarrow> nat \<Rightarrow> string" where
  "mem_line name pad kb = name @ replicate (Suc pad) CHR '' '' @ Itoa (int kb) @ '' kB''"

lemma takeWhile_digits: "takeWhile is_digit (nat_digits n @ CHR '' '' # s) = nat_digits n"
  using nat_digits_all [of n] by (simp add: takeWhile_append list_all_iff is_digit_def less_eq_char_def)

lemma nat_digits_hd: "hd (nat_digits n) \<notin> {CHR '' '', CHR ''+'', CHR ''-''}" "\<not> is_blank (hd (nat_digits n))"
proof -
  have "is_digit (hd (nat_digits n))"
    using nat_digits_all [of n] by (cases "nat_digits n") (simp_all add: list_all_iff)
  then show "hd (nat_digits n) \<notin> {CHR '' '', CHR ''+'', CHR ''-''}" "\<not> is_blank (hd (nat_digits n))"
    by (auto simp: is_digit_def less_eq_char_def is_blank_def)
qed

lemma dropWhile_blanks: "dropWhile is_blank (replicate n CHR '' '' @ s) = dropWhile is_blank s"
  by (induction n) (simp_all add: is_blank_def)

lemma Sscanf_mem_line:
  assumes "int64_range (int kb)"
  shows "Sscanf_kB name (mem_line name pad kb) = (Some (int kb), True)"
proof -
  let ?num = "nat_digits kb @ '' kB''"
  have "dropWhile is_blank ?num = ?num"
    using nat_digits_hd(2) [of kb] by (cases "nat_digits kb") simp_all
  then have num: "dropWhile is_blank (drop (length name) (mem_line name pad kb)) = ?num"
    by (simp add: mem_line_def Itoa_def dropWhile_blanks del: replicate.simps)
  have rest: "is_blank (hd (drop (length name) (mem_line name pad kb)))"
    by (simp add: mem_line_def is_blank_def)
  have sign: "(if ?num \<noteq> [] \<and> hd ?num \<in> {CHR ''+'', CHR ''-''} then take 1 ?num else []) = []"
    using nat_digits_hd(1) [of kb] by auto
  have tw: "takeWhile is_digit ?num = nat_digits kb" using takeWhile_digits [of kb "''kB''"] by simp
  have atoi: "Atoi (nat_digits kb) = (int kb, None)" using Atoi_Itoa [OF assms] by (simp add: Itoa_def)
  show ?thesis
    unfolding Sscanf_kB_def Let_def num sign
    by (simp add: rest tw atoi) (simp add: is_blank_def HasPrefix_def)
qed

text \<open>A file with one line for the total and one for the available memory, among others: the memory
  figures are the numbers of these lines.\<close>

lemma meminfo_other:
  "list_all (\<lambda>l. \<not> HasPrefix l ''MemTotal:'' \<and> \<not> HasPrefix l ''MemAvailable:'') ls \<Longrightarrow>
   meminfo_total (ls @ rest) = meminfo_total rest \<and>
   (\<exists>f. fold meminfo_line ls (t, a, f0) = (t, a, f))"
  by (induction ls arbitrary: f0) (auto simp: meminfo_line_def Let_def)

lemma mem_line_prefix [simp]:
  "HasPrefix (mem_line name pad kb) name"
  "\<not> HasPrefix (mem_line ''MemTotal:'' pad kb) ''MemAvailable:''"
  "\<not> HasPrefix (mem_line ''MemAvailable:'' pad kb) ''MemTotal:''"
  by (simp add: mem_line_def) (simp_all add: mem_line_def HasPrefix_def)

lemma meminfo_figures:
  assumes "Split CHR 0x0A data = A @ mem_line ''MemTotal:'' i t # B @ mem_line ''MemAvailable:'' j a # C"
    and "list_all (\<lambda>l. \<not> HasPrefix l ''MemTotal:'' \<and> \<not> HasPrefix l ''MemAvailable:'') (A @ B @ C)"
    and "int64_range (int t)" and "0 < a" "a \<le> t"
  shows "detectMemoryProc (Inr data) = int (t div 1024)" "getMemoryUsed (Inr data) = int ((t - a) div 1024)"
    and "getMemoryUsed (Inr data) \<le> detectMemoryProc (Inr data)"
proof -
  let ?T = "mem_line ''MemTotal:'' i t" and ?A = "mem_line ''MemAvailable:'' j a"
  from assms(2) have A: "list_all (\<lambda>l. \<not> HasPrefix l ''MemTotal:'' \<and> \<not> HasPrefix l ''MemAvailable:'') A"
    and B: "list_all (\<lambda>l. \<not> HasPrefix l ''MemTotal:'' \<and> \<not> HasPrefix l ''MemAvailable:'') B"
    and C: "list_all (\<lambda>l. \<not> HasPrefix l ''MemTotal:'' \<and> \<not> HasPrefix l ''MemAvailable:'') C" by simp_all
  have r: "int64_range (int a)" using assms(3,5) by (simp add: int64_range_def)
  have sd: "int n sdiv 1024 = int (n div 1024)" for n
    by (cases "n = 0") (simp_all add: signed_divide_int_def zdiv_int)
  show d: "detectMemoryProc (Inr data) = int (t div 1024)"
    using meminfo_other [OF A] by (simp add: detectMemoryProc_def assms(1) Sscanf_mem_line [OF assms(3)] sd)
  obtain f1 where 1: "fold meminfo_line A (0, 0, 0) = (0, 0, f1)" using meminfo_other [OF A] by blast
  have T: "\<exists>f. meminfo_line ?T (0, 0, f1) = (int t, 0, f)"
    by (simp add: meminfo_line_def scan_into_def Sscanf_mem_line [OF assms(3)])
  then obtain f2 where 2: "meminfo_line ?T (0, 0, f1) = (int t, 0, f2)" by blast
  obtain f3 where 3: "fold meminfo_line B (int t, 0, f2) = (int t, 0, f3)" using meminfo_other [OF B] by blast
  have "\<exists>f. meminfo_line ?A (int t, 0, f3) = (int t, int a, f)"
    by (simp add: meminfo_line_def scan_into_def Sscanf_mem_line [OF r])
  then obtain f4 where 4: "meminfo_line ?A (int t, 0, f3) = (int t, int a, f4)" by blast
  obtain f5 where 5: "fold meminfo_line C (int t, int a, f4) = (int t, int a, f5)" using meminfo_other [OF C] by blast
  have "wrap64 (int t - int a) = int (t - a)"
    using assms(3,5) by (subst wrap64_id) (simp_all add: int64_range_def of_nat_diff)
  then show u: "getMemoryUsed (Inr data) = int ((t - a) div 1024)"
    by (simp add: getMemoryUsed_def assms(1) 1 2 3 4 5 assms(4) sd del: of_nat_diff)
  show "getMemoryUsed (Inr data) \<le> detectMemoryProc (Inr data)"
    unfolding d u by (simp add: div_le_mono)
qed

text \<open>A number of the kernel's file: its token ends at the blank, and its digits are those of the load in hundredths.\<close>

lemma float_token_hundredths:
  assumes "a < 10" "b < 10"
  shows "float_token (nat_digits w @ CHR ''.'' # digit a # digit b # CHR '' '' # rest) =
      (\<lparr>ftSign = [], ftWhole = nat_digits w, ftFrac = [digit a, digit b], ftExp = None\<rparr>, CHR '' '' # rest)"
    and "dec_value (nat_digits w @ [digit a, digit b]) = 100 * int w + 10 * int a + int b"
proof -
  let ?s = "nat_digits w @ CHR ''.'' # digit a # digit b # CHR '' '' # rest"
  have sign: "sign_text ?s = []"
    using nat_digits_hd(1) [of w] by (simp add: sign_text_def)
  have tw: "takeWhile is_digit ?s = nat_digits w"
    using nat_digits_all [of w] by (simp add: takeWhile_append list_all_iff is_digit_def less_eq_char_def)
  have d: "is_digit (digit a)" "is_digit (digit b)" "\<not> is_digit CHR '' ''"
    using assms by (simp_all add: is_digit_digit) (simp add: is_digit_def less_eq_char_def)
  show "float_token ?s = (\<lparr>ftSign = [], ftWhole = nat_digits w, ftFrac = [digit a, digit b], ftExp = None\<rparr>, CHR '' '' # rest)"
    unfolding float_token_def Let_def sign list.size(3) drop_0 tw by (simp add: d)
  have "nat_digits w @ [digit a, digit b] = (nat_digits w @ [digit a]) @ [digit b]" by simp
  then show "dec_value (nat_digits w @ [digit a, digit b]) = 100 * int w + 10 * int a + int b"
    by (simp only: dec_value_append of_char_digit [OF assms(1)] of_char_digit [OF assms(2)] dec_value_digits) simp
qed

end
