(* ===== verification/Node_Liveness.thy ===== *)
theory Node_Liveness
  imports Node_Manager
begin

text \<open>
  When a node stays online: over any operations of the manager of \<^verbatim>\<open>internal/nodemanager/manager.go\<close> in
  which its heartbeats arrive before the checks miss them, and in which nobody drains it or deletes its
  key, a registered node is among the online nodes.
\<close>

section \<open>Heartbeats in time\<close>

text \<open>A sequence of operations in which, at every offline check, the last heartbeat of the node (if it
  has sent one) is not older than the limit, and in which nobody registers it anew, drains it or deletes
  its key.\<close>

fun timely :: "string \<Rightarrow> duration \<Rightarrow> go_time option \<Rightarrow> (go_time \<times> mgr_op) list \<Rightarrow> bool" where
  "timely u limit beat [] = True"
| "timely u limit beat ((now, OpRegister uuid req) # ops) = (uuid \<noteq> u \<and> timely u limit beat ops)"
| "timely u limit beat ((now, OpHeartbeat req) # ops) =
     timely u limit (if hbNodeId req = u then Some now else beat) ops"
| "timely u limit beat ((now, OpCheck) # ops) =
     ((case beat of None \<Rightarrow> True | Some t \<Rightarrow> now - t \<le> limit) \<and> timely u limit beat ops)"
| "timely u limit beat ((now, OpEvent ev) # ops) =
     ((case ev of EventPut key \<Rightarrow> True | EventDelete key \<Rightarrow> extractNodeID key \<noteq> u) \<and> timely u limit beat ops)"
| "timely u limit beat ((now, OpDrain v) # ops) = (v \<noteq> u \<and> timely u limit beat ops)"
| "timely u limit beat ((now, OpUncordon v) # ops) = timely u limit beat ops"

definition alive :: "string \<Rightarrow> go_time option \<Rightarrow> ('db, 'e) NodeManager \<Rightarrow> bool" where
  "alive u beat m \<longleftrightarrow> (\<exists>n. map_of (mOnlineNodes m) u = Some n \<and> nStatus n = NodeStatusOnline \<and>
     nLastHeartbeatAt n = beat)"

lemma Heartbeat_other:
  assumes "hbNodeId req \<noteq> u"
  shows "map_of (mOnlineNodes (snd (Heartbeat now req m))) u = map_of (mOnlineNodes m) u"
proof -
  have "mOnlineNodes m2 = mOnlineNodes (cache_put (hbNodeId req) n m)"
    if "node_lease E (hbNodeId req) (cache_put (hbNodeId req) n m) = (r, m2)" for E n r m2
    using node_lease_simps(4) [OF that] .
  with assms show ?thesis
    by (auto simp: Heartbeat_def Let_def update_conv' split: option.split sum.split prod.split)
qed

lemma markOffline_cache:
  "v \<noteq> u \<Longrightarrow> map_of (mOnlineNodes (markOffline now v m)) u = map_of (mOnlineNodes m) u"
  by (auto simp: markOffline_def delete_conv' split: option.split sum.split)

lemma mgr_step_offlineAfter: "mOfflineAfter (mgr_step op m) = mOfflineAfter m"
  by (induction op m rule: mgr_step.induct)
    (auto simp: Register_def Let_def watch_event_def markOffline_def DrainNode_def UncordonNode_def
      set_node_status_def cache_put_def Heartbeat_offlineAfter
      split: option.split sum.split prod.split etcd_event.split)

lemma mgr_run_offlineAfter: "mOfflineAfter (fold mgr_step ops m) = mOfflineAfter m"
  by (induction ops arbitrary: m) (simp_all add: mgr_step_offlineAfter)

context node_store
begin

lemma set_node_status_cache:
  assumes "mgr_ok m"
  shows "v \<noteq> u \<Longrightarrow> map_of (mOnlineNodes (snd (set_node_status st now v m))) u = map_of (mOnlineNodes m) u"
    and "\<exists>a. map_of (mOnlineNodes (snd (set_node_status st now u m))) u =
      map_option (\<lambda>n. n\<lparr>nStatus := st, nUpdatedAt := a\<rparr>) (map_of (mOnlineNodes m) u)"
proof -
  have S: "mStore m = S" using assms by (simp add: mgr_ok_def)
  show "v \<noteq> u \<Longrightarrow> map_of (mOnlineNodes (snd (set_node_status st now v m))) u = map_of (mOnlineNodes m) u"
    by (auto simp: set_node_status_def update_conv' split: option.split sum.split prod.split)
  show "\<exists>a. map_of (mOnlineNodes (snd (set_node_status st now u m))) u =
      map_option (\<lambda>n. n\<lparr>nStatus := st, nUpdatedAt := a\<rparr>) (map_of (mOnlineNodes m) u)"
  proof (cases "map_of (mOnlineNodes m) u")
    case None
    then show ?thesis by (auto simp: set_node_status_def split: sum.split prod.split)
  next
    case (Some n)
    obtain r n' db' where up: "ns_Update S now (mDB m) (n\<lparr>nStatus := st\<rparr>) = (r, n', db')"
      by (metis prod.collapse)
    from update_node [OF up] have "n' = n\<lparr>nStatus := st, nUpdatedAt := now\<rparr>" by simp
    with Some up S show ?thesis by (auto simp: set_node_status_def update_conv')
  qed
qed

lemma Register_cache:
  assumes "mgr_ok m"
  shows "uuid \<noteq> u \<Longrightarrow> map_of (mOnlineNodes (snd (Register uuid now req m))) u = map_of (mOnlineNodes m) u"
    and "fst (Register uuid now req m) = Inr v \<Longrightarrow> v = uuid \<and> alive uuid None (snd (Register uuid now req m))"
proof -
  let ?n = "NewNode uuid now (rqHostname req) (rqIp req) (rqVersion req)
      (rqTotalCpu req) (rqTotalMemoryMb req) (rqTotalDiskMb req) (rqLabels req)"
  have S: "mStore m = S" using assms by (simp add: mgr_ok_def)
  obtain r db where c: "ns_Create S (mDB m) ?n = (r, db)" by fastforce
  have node: "\<exists>i. node = ?n\<lparr>nID := i\<rparr>" if "r = Inr node" for node
    using create_ok [OF c [unfolded that]] by blast
  then have id: "nNodeID node = uuid" "nStatus node = NodeStatusOnline" "nLastHeartbeatAt node = None"
    if "r = Inr node" for node using that by (fastforce simp: NewNode_def)+
  show "uuid \<noteq> u \<Longrightarrow> map_of (mOnlineNodes (snd (Register uuid now req m))) u = map_of (mOnlineNodes m) u"
    using c S id by (auto simp: Register_def Let_def update_conv' split: option.split sum.split prod.split)
  show "fst (Register uuid now req m) = Inr v \<Longrightarrow> v = uuid \<and> alive uuid None (snd (Register uuid now req m))"
    using c S id
    by (auto simp: Register_def Let_def update_conv' alive_def split: option.splits sum.splits prod.splits)
qed

lemma alive_step:
  assumes "mgr_ok m" and "alive u beat m" and "timely u (mOfflineAfter m) beat (op # ops)"
  obtains beat' where "alive u beat' (mgr_step op m)" "timely u (mOfflineAfter m) beat' ops"
proof -
  obtain n where n: "map_of (mOnlineNodes m) u = Some n" "nStatus n = NodeStatusOnline" "nLastHeartbeatAt n = beat"
    using assms(2) by (auto simp: alive_def)
  obtain now x where op: "op = (now, x)" by (cases op)
  show thesis
  proof (cases x)
    case (OpRegister uuid req)
    with assms op that [of beat] Register_cache(1) [OF assms(1), of uuid u] show thesis by (simp add: alive_def)
  next
    case (OpHeartbeat req)
    show thesis
    proof (cases "hbNodeId req = u")
      case True
      with Heartbeat_cached [of m req n now] n(1)
      have "alive u (Some now) (snd (Heartbeat now req m))" by (simp add: alive_def)
      with assms(3) op OpHeartbeat True that [of "Some now"] show thesis by simp
    next
      case False
      with assms op OpHeartbeat that [of beat] Heartbeat_other [OF False, of now m] show thesis by (simp add: alive_def)
    qed
  next
    case OpCheck
    have wf: "wf_map (mOnlineNodes m)" using assms(1) cache_ok_wf by (auto simp: mgr_ok_def)
    have "\<not> stale now (mOfflineAfter m) n"
      using assms(3) op OpCheck n(3) by (auto simp: stale_def split: option.splits)
    then have "map_of (mOnlineNodes (checkOfflineNodes now m)) u = Some n"
      using n(1) wf by (auto simp: mOnlineNodes_checkOfflineNodes [OF wf] wf_map_def distinct_map_filter)
    with assms(3) n op OpCheck that [of beat] show thesis by (simp add: alive_def)
  next
    case (OpEvent ev)
    have "map_of (mOnlineNodes (watch_event (now, ev) m)) u = map_of (mOnlineNodes m) u"
      using assms(3) op OpEvent by (auto simp: watch_event_def Let_def markOffline_cache split: etcd_event.splits)
    with assms op OpEvent that [of beat] show thesis by (simp add: alive_def)
  next
    case (OpDrain v)
    with assms op that [of beat] set_node_status_cache(1) [OF assms(1), of v u] show thesis
      by (simp add: alive_def DrainNode_def)
  next
    case (OpUncordon v)
    have "alive u beat (snd (set_node_status NodeStatusOnline now v m))"
      using assms(2) set_node_status_cache(1) [OF assms(1), of v u NodeStatusOnline now]
        set_node_status_cache(2) [OF assms(1), of NodeStatusOnline now u]
      by (cases "v = u") (auto simp: alive_def)
    with assms(3) op OpUncordon that [of beat] show thesis by (simp add: UncordonNode_def)
  qed
qed

lemma alive_run:
  "mgr_ok m \<Longrightarrow> alive u beat m \<Longrightarrow> timely u (mOfflineAfter m) beat ops \<Longrightarrow>
   \<exists>beat'. alive u beat' (fold mgr_step ops m)"
proof (induction ops arbitrary: m beat)
  case (Cons op ops)
  obtain beat' where "alive u beat' (mgr_step op m)" "timely u (mOfflineAfter m) beat' ops"
    by (rule alive_step [OF Cons.prems])
  with Cons.IH [of "mgr_step op m" beat'] mgr_step_ok [OF Cons.prems(1), of op]
  show ?case by (simp add: grows_def mgr_step_offlineAfter)
qed auto

lemma alive_online:
  assumes "mgr_ok m" "alive u beat m"
  shows "u \<in> nNodeID ` set (GetOnlineNodes m)"
proof -
  obtain n where n: "map_of (mOnlineNodes m) u = Some n" "nStatus n = NodeStatusOnline"
    using assms(2) by (auto simp: alive_def)
  then have "nNodeID n = u" using assms(1) by (auto simp: mgr_ok_def cache_ok_def)
  moreover have "n \<in> set (GetOnlineNodes m)"
    using map_of_SomeD [OF n(1)] n(2) by (force simp: GetOnlineNodes_def IsSchedulable_def)
  ultimately show ?thesis by blast
qed

lemma registered_stays_online:
  assumes "m = fold mgr_step ops (NewNodeManager S db E st)"
    and "Register uuid now req m = (Inr u, m1)" and "timely u (30 * Second) None later"
  shows "u \<in> nNodeID ` set (GetOnlineNodes (fold mgr_step later m1))"
proof -
  have ok: "mgr_ok m" unfolding assms(1) by (rule mgr_ok_run)
  have m1: "m1 = mgr_step (now, OpRegister uuid req) m" using assms(2) by simp
  have ok1: "mgr_ok m1" using mgr_step_ok [OF ok, of "(now, OpRegister uuid req)"] by (simp add: m1 grows_def)
  have "alive u None m1" using Register_cache(2) [OF ok, of uuid now req u] assms(2) by simp
  moreover have "mOfflineAfter m1 = 30 * Second"
    by (simp only: m1 mgr_step_offlineAfter assms(1) mgr_run_offlineAfter) (simp add: NewNodeManager_def)
  ultimately obtain beat where "alive u beat (fold mgr_step later m1)"
    using alive_run [OF ok1, of u None later] assms(3) by auto
  moreover have "mgr_ok (fold mgr_step later m1)" using mgr_run_ok [OF ok1] by (simp add: grows_def)
  ultimately show ?thesis using alive_online by blast
qed

end

section \<open>The property\<close>

text \<open>
  C16. Heartbeats keep a node online: whatever the manager did before, a node that registers is among the
  online nodes after any further operations, with whatever failures of the database and of etcd, as long
  as no offline check finds its last heartbeat more than thirty seconds old and nobody drains the node,
  deletes its etcd key or registers its identifier again.
\<close>

theorem heartbeats_keep_online:
  assumes "node_store S view rnd" and "m = fold mgr_step ops (NewNodeManager S db E st)"
    and "Register uuid now req m = (Inr u, m1)" and "timely u (30 * Second) None later"
  shows "u \<in> nNodeID ` set (GetOnlineNodes (fold mgr_step later m1))"
  by (rule node_store.registered_stays_online [OF assms])

theorem heartbeats_keep_online_witness:
  "''n1'' \<in> nNodeID ` set (GetOnlineNodes (fold mgr_step
     [(10 * Second, OpHeartbeat (demo_beat ''n1'')), (15 * Second, OpCheck), (30 * Second, OpDrain ''n2''),
      (40 * Second, OpCheck), (41 * Second, OpHeartbeat (demo_beat ''n1'')), (70 * Second, OpCheck)]
     (snd (Register ''n1'' 1 demo_register demo_manager))))"
proof -
  let ?m = "fold mgr_step [] (NewNodeManager (NewNodeStore mem_npg) [] None ()) :: (node_row list, unit) NodeManager"
  let ?later = "[(10 * Second, OpHeartbeat (demo_beat ''n1'')), (15 * Second, OpCheck), (30 * Second, OpDrain ''n2''),
      (40 * Second, OpCheck), (41 * Second, OpHeartbeat (demo_beat ''n1'')), (70 * Second, OpCheck)]"
  have "fst (Register ''n1'' 1 demo_register demo_manager) = Inr ''n1''" by code_simp
  then have "Register ''n1'' 1 demo_register ?m = (Inr ''n1'', snd (Register ''n1'' 1 demo_register demo_manager))"
    by (simp add: demo_manager_def prod_eq_iff)
  moreover have "timely ''n1'' (30 * Second) None ?later" by code_simp
  ultimately show ?thesis
    by (rule heartbeats_keep_online [OF nmem.st.node_store_axioms refl])
qed

end
