(* ===== verification/Spec2Isabelle.thy ===== *)
theory Spec2Isabelle
  imports Server_Loops Connections Grpc_Pool Discovery Server_Main Api Agent_Loops
begin

text \<open>
  A model of Mini-BK, a task scheduling platform in Go: a server that takes tasks (shell commands with
  resource limits) over HTTP, stores them in PostgreSQL, queues them in memory or in Redis,
  and runs them on its own host or on agents that poll it over gRPC; with etcd, several servers elect a leader,
  claim tasks and learn of nodes that are gone.

  \<^bold>\<open>Parts and their interaction.\<close> An HTTP request goes through the rate limit to a handler
  and from there to the task service, which checks for duplicates, inserts a row and pushes the task into the
  queue. The tick of the scheduler looks after the running tasks (timeouts), pops tasks from the
  queue while slots and resources last, claims them, and dispatches each to a local goroutine or
  to the channel of a node it selects among those the node manager offers. Results come back from
  the executor, or from an agent through the gRPC server, and end in \<open>completeTask\<close> and \<open>failTask\<close>, which
  record them and queue retries with a delay. Nodes register and send heartbeats, and go offline by a
  periodic check or by the expiry of a lease in etcd. The output of a task is streamed through Redis to
  HTTP clients.

  \<^bold>\<open>Theories and sources\<close> (each theory opens with what its definitions correspond to).

  \<^item> \<open>MB_Prelude\<close>, \<open>Go_Strconv\<close>, \<open>Go_Heap\<close>, \<open>Sha256\<close>: Go's integers, time values and errors, and what the
    sources use of \<^verbatim>\<open>strings\<close>, \<^verbatim>\<open>strconv\<close>, \<^verbatim>\<open>container/heap\<close> and \<^verbatim>\<open>crypto/sha256\<close>; the
    collections of rewrite rules and the lemmas the components share.
  \<^item> \<open>Task_Model\<close>, \<open>Node_Model\<close>: \<^verbatim>\<open>internal/model\<close>. The structs are records, the statuses
    datatypes with a constructor for any other string, \<open>TransitionTo\<close> is checked against the relation
    \<open>lifecycle\<close> that the documentation describes.
  \<^item> \<open>Task_Queue\<close> (\<^verbatim>\<open>queue.go\<close>: the interface, as a record of methods, and its contracts),
    \<open>InMem_Queue\<close> (\<^verbatim>\<open>inmem.go\<close>: one function per critical section), \<open>Redis_Queue\<close>
    (\<^verbatim>\<open>redis.go\<close>: one function per method over the commands of a Redis client).
  \<^item> \<open>Task_Store\<close>, \<open>Node_Store\<close>: \<^verbatim>\<open>internal/store/task_store.go\<close> and \<^verbatim>\<open>node_store.go\<close>, over
    records of their SQL statements.
  \<^item> \<open>Task_Executor\<close> (\<^verbatim>\<open>executor.go\<close>), \<open>Log_Stream\<close> (\<^verbatim>\<open>logstream.go\<close> with the appending loop of the
    executor and the sending loop of \<^verbatim>\<open>streamTaskLog\<close>).
  \<^item> \<open>Task_Scheduler\<close>: every operation of \<^verbatim>\<open>scheduler.go\<close> on the record \<open>Scheduler\<close>; \<open>Scheduler_Env\<close>,
    \<open>Scheduler_Props\<close>, \<open>Scheduler_Retry\<close>, \<open>Scheduler_Dispatch\<close>: its lemmas.
  \<^item> \<open>System_Moves\<close> (an abstract machine: rows, queued copies, copies in flight, and the moves tasks make),
    \<open>System_Run\<close> (the running server: one step per request, report, tick, message and end of a
    goroutine, in any order, and the simulation by the machine), \<open>System_Safety\<close> (what holds of every run),
    \<open>Server_Loops\<close> (the goroutines of \<^verbatim>\<open>Start\<close> as such runs).
  \<^item> \<open>Leader_Election\<close> (\<^verbatim>\<open>election.go\<close> and the loops of the scheduler), \<open>Task_Service\<close>
    (\<^verbatim>\<open>task_service.go\<close>), \<open>Node_Manager\<close> (\<^verbatim>\<open>manager.go\<close>), \<open>Discovery\<close> (\<^verbatim>\<open>discovery.go\<close>),
    \<open>Grpc_Pool\<close> (\<^verbatim>\<open>pool.go\<close>), \<open>Agent_Server\<close> (\<^verbatim>\<open>grpcserver/server.go\<close> and the execution of a task in
    \<^verbatim>\<open>cmd/agent/main.go\<close>), \<open>Agent_Host\<close> (start and measurements of the agent), \<open>Agent_Loops\<close> (its two
    loops), \<open>Node_Liveness\<close> (lemmas on the manager and heartbeats), \<open>Connections\<close>
    (\<^verbatim>\<open>postgres.go\<close>, \<^verbatim>\<open>redis.go\<close> and \<^verbatim>\<open>etcd.go\<close> of \<^verbatim>\<open>internal/store\<close>), \<open>Rate_Limit\<close>
    (\<^verbatim>\<open>ratelimit.go\<close>), \<open>Config\<close> (\<^verbatim>\<open>config.go\<close>, \<^verbatim>\<open>watcher.go\<close>), \<open>Api\<close> (\<^verbatim>\<open>internal/api\<close>),
    \<open>Server_Main\<close> (\<^verbatim>\<open>cmd/server/main.go\<close>).
  \<^item> \<open>System_Props\<close>: properties of several components together.

  \<^bold>\<open>How state, effects and errors are modelled.\<close> A handler of the code is a function from the state
  of its component to the state after it, with its result; the values a struct holds of other
  components are records of methods next to the state they work on. What a lock protects is one
  function; where the code gives the lock up in between (\<open>Pop\<close> of the in-memory queue,
  \<open>GetOrCreate\<close> of the pool, campaigns and resignations, claims of several schedulers) the interleaving is
  explicit, as a script of what others did meanwhile or as a step relation. Goroutines, cancel
  functions and contexts of the scheduler are part of its state. All clock readings of one
  call are one argument. Errors are values; a panic is an outcome of its own. A \<^verbatim>\<open>range\<close> loop over a map visits
  the entries in the order of an association list, which is arbitrary.

  \<^bold>\<open>Code outside the sources\<close> is a parameter, and what the code relies on of it is a
  locale or a named hypothesis: \<open>task_db\<close> and \<open>node_db\<close> (SQL statements on a table), \<open>redis_store\<close>,
  \<open>redis_log\<close>, \<open>setnx_laws\<close>, \<open>incr_laws\<close> (Redis commands, which may fail with or without effect), the
  etcd transaction in the interleaving of claims, the operating system
  as a function from a command to what is observed of the process, \<open>sorts_by_usage\<close> for
  \<^verbatim>\<open>sort.Slice\<close>, \<open>client_driver\<close> for the drivers behind the clients. Each is shown to be satisfiable by an instance in memory (\<open>mem_pg\<close>,
  \<open>mem_npg\<close>, \<open>mem_redis_queue\<close>, \<open>mem_redis_log\<close>, \<open>mem_redis\<close>, \<open>mem_rate\<close>, \<open>mem_driver\<close>), on which the witnesses run.

  \<^bold>\<open>Interfaces.\<close> The clients' lemmas are proved once, in locales: \<open>task_queue\<close> (what any queue
  guarantees, in terms of UIDs that are ready or wait) and \<open>reliable_queue\<close> (one that loses
  nothing), \<open>task_store\<close> and \<open>node_store\<close> (a finite map with the rounding of the
  database), and \<open>scheduler_env\<close> and \<open>reliable_env\<close>, which join them for the scheduler. \<^theory_text>\<open>sublocale\<close> and
  \<^theory_text>\<open>interpretation\<close> discharge them for the two stores and the two queues, so that the
  properties of the tick hold over either queue.

  \<^bold>\<open>What the lemmas show.\<close> For the running server, over every interleaving of its handlers: no more
  tasks run than allowed, rows and copies are well typed, no waiting task is lost (without etcd, while the
  store does not fail), every step is a sequence of moves of the abstract machine, and none gets stuck. For the scheduler: a tick respects slots and resources, loses no task,
  ends, retries exactly as often as allowed, and its channels are queues. For queues and stores: conservation
  and order of delivery, and that what is written is read back. For the service and the HTTP interface: effects on every
  branch, no duplicates, complete pages. For nodes: the cache and the database agree, heartbeats in time keep a node online, selection
  respects labels and capacity, discovery mirrors etcd. For remote execution: it equals local
  execution. For logs: no gaps and no duplicates, and completeness at the end. Some properties show what goes wrong as the code
  stands: an elected leader never ticks, a timeout queues its task twice, a claim refuses the retry of its task, a late failure revives a
  cancelled task, a cancelled task in the queue still runs, an offline node does not come back,
  a drain ends with the next heartbeat, the backoff overflows.

  \<^bold>\<open>Bounds and fuel.\<close> The loop of the tick has fuel; \<open>tick_returns\<close> shows that one unit more than there
  are ready tasks is enough for every queue that meets the contract, and that more changes nothing.
  Integers are mathematical with the wrap-around at 64 or 32 bits written at each operation that can overflow; sizes of
  file systems are 64-bit words; a \<^verbatim>\<open>float64\<close> is a rational number, rounded where the code computes. The channels of nodes
  have ten places, those of subscribers a hundred, as in the code.

  \<^bold>\<open>Not modelled.\<close> Logging; the sockets behind the listeners and clients, whose answers are arguments; the generated
  protocol code; of \<^verbatim>\<open>%f\<close> in the load average all but decimal notation. Data races that the code has because it shares
  pointers to nodes and tasks outside its locks are not part of the model either: a call is one step.
\<close>

end
